(* ===== verification/Health.thy ===== *)
theory Health
  imports Rust_Std
begin

text \<open>
  Health checking (\<^verbatim>\<open>src/health\<close>): the failure threshold the supervisor consults
  (\<^verbatim>\<open>recovery.rs\<close>), the heartbeat file's freshness rule (\<^verbatim>\<open>heartbeat.rs\<close>) and the reading of a
  Cloudflare trace body (\<^verbatim>\<open>probe.rs\<close>).
\<close>

section \<open>The failure threshold\<close>

datatype RecoveryAction = Continue | RequestExit

record ThresholdRecovery =
  threshold :: u32
  consecutive_failures :: u32

definition recovery_new :: "u32 \<Rightarrow> ThresholdRecovery" where
  "recovery_new t = \<lparr>threshold = max t 1, consecutive_failures = 0\<rparr>"

definition on_success :: "ThresholdRecovery \<Rightarrow> ThresholdRecovery" where
  "on_success r = r\<lparr>consecutive_failures := 0\<rparr>"

definition on_failure :: "ThresholdRecovery \<Rightarrow> RecoveryAction \<times> ThresholdRecovery" where
  "on_failure r =
     (let n = saturating_add (consecutive_failures r) 1;
          r' = r\<lparr>consecutive_failures := n\<rparr>
      in (if threshold r \<le> n then RequestExit else Continue, r'))"

text \<open>
  A run of probe outcomes (\<open>True\<close> is a success) against a fresh counter, up to the first
  \<open>RequestExit\<close>: the result is the number of outcomes consumed when the exit was requested.
\<close>

fun recovery_run :: "ThresholdRecovery \<Rightarrow> bool list \<Rightarrow> nat option" where
  "recovery_run r [] = None"
| "recovery_run r (True # os) = map_option Suc (recovery_run (on_success r) os)"
| "recovery_run r (False # os) =
     (case on_failure r of
        (RequestExit, r') \<Rightarrow> Some 1
      | (Continue, r') \<Rightarrow> map_option Suc (recovery_run r' os))"

text \<open>Specification: the length of the failing suffix of the outcomes seen so far.\<close>

definition trailing_failures :: "bool list \<Rightarrow> nat" where
  "trailing_failures os = length (takeWhile (\<lambda>b. \<not> b) (rev os))"

section \<open>The heartbeat file\<close>

text \<open>
  \<^verbatim>\<open>invalidate\<close> and \<^verbatim>\<open>record_success\<close> write these contents (the write itself is
  \<^verbatim>\<open>fsutil::write_private\<close>); \<^verbatim>\<open>evaluate\<close> judges what \<^verbatim>\<open>check\<close> has read back.
\<close>

datatype HeartbeatError = NoHeartbeat | MalformedHeartbeat | StaleHeartbeat u64

definition invalidate_body :: string where
  "invalidate_body = ''0'' @ [CHR 0x0A]"

definition record_success_body :: "u64 \<Rightarrow> string" where
  "record_success_body now = show_nat (unat now) @ [CHR 0x0A]"

definition evaluate :: "string \<Rightarrow> u64 \<Rightarrow> u64 \<Rightarrow> (HeartbeatError, unit) result" where
  "evaluate content now max_age_secs =
     rbind (ok_or MalformedHeartbeat (parse_u64 (trim content)))
       (\<lambda>ts. let age = saturating_sub now ts
             in if max_age_secs < age then Err (StaleHeartbeat age) else Ok ())"

definition check :: "string option \<Rightarrow> u64 \<Rightarrow> u64 \<Rightarrow> (HeartbeatError, unit) result" where
  "check file now max_age_secs =
     (case file of None \<Rightarrow> Err NoHeartbeat | Some content \<Rightarrow> evaluate content now max_age_secs)"

section \<open>The trace probe\<close>

record ProbeOutcome =
  outcome_ip :: "string option"
  outcome_loc :: "string option"

datatype ProbeError = Request string | MissingWarpMarker string

text \<open>\<^verbatim>\<open>find_map(strip_prefix)\<close> over the lines.\<close>

definition extract_trace_field :: "string \<Rightarrow> string \<Rightarrow> string option" where
  "extract_trace_field body field =
     (case find (is_prefix (field @ ''='')) (str_lines body) of
        None \<Rightarrow> None
      | Some line \<Rightarrow> strip_prefix (field @ ''='') line)"

text \<open>\<^verbatim>\<open>chars().take(n)\<close> on valid UTF-8.\<close>

fun take_scalars :: "nat \<Rightarrow> string \<Rightarrow> string" where
  "take_scalars 0 s = []"
| "take_scalars (Suc n) [] = []"
| "take_scalars (Suc n) (c # cs) =
     (case utf8_step (char_byte c) (str_bytes cs) of
        Inl k \<Rightarrow> take k (c # cs) @ take_scalars n (drop k (c # cs))
      | Inr k \<Rightarrow> take k (c # cs) @ take_scalars n (drop k (c # cs)))"

definition summarize :: "string \<Rightarrow> string" where
  "summarize body = take_scalars 180 (join_with (CHR '' '') (split_whitespace body))"

definition parse_trace :: "string \<Rightarrow> (ProbeError, ProbeOutcome) result" where
  "parse_trace body =
     (if \<not> list_ex (\<lambda>line. line = ''warp=on'' \<or> line = ''warp=plus'') (str_lines body)
      then Err (MissingWarpMarker (summarize body))
      else Ok \<lparr>outcome_ip = extract_trace_field body ''ip'',
               outcome_loc = extract_trace_field body ''loc''\<rparr>)"

section \<open>Facts\<close>

lemma find_map: "find P (map f xs) = map_option f (find (P \<circ> f) xs)"
  by (induction xs) auto

lemma trailing_failures_snoc:
  "trailing_failures (os @ [b]) = (if b then 0 else Suc (trailing_failures os))"
  by (simp add: trailing_failures_def)

lemma upt_1_Suc: "[1..<Suc (Suc n)] = 1 # map Suc [1..<Suc n]"
  by (simp add: map_Suc_upt upt_conv_Cons)

lemma recovery_run_from:
  assumes "unat (consecutive_failures r) = trailing_failures p"
    and "trailing_failures p < unat (threshold r)"
  shows "recovery_run r os =
    find (\<lambda>i. unat (threshold r) \<le> trailing_failures (p @ take i os)) [1..<Suc (length os)]"
  using assms
proof (induction os arbitrary: r p)
  case Nil
  then show ?case by simp
next
  case (Cons b os)
  let ?P = "\<lambda>q i. unat (threshold r) \<le> trailing_failures (q @ take i os)"
  have unfold: "find (\<lambda>i. unat (threshold r) \<le> trailing_failures (p @ take i (b # os)))
       [1..<Suc (length (b # os))] =
     (if unat (threshold r) \<le> trailing_failures (p @ [b]) then Some 1
      else map_option Suc (find (?P (p @ [b])) [1..<Suc (length os)]))"
    by (simp only: list.size(4) upt_1_Suc add_0_right add_Suc_right find.simps find_map)
       (simp add: comp_def)
  show ?case
  proof (cases b)
    case True
    have "recovery_run (on_success r) os = find (?P (p @ [b])) [1..<Suc (length os)]"
      using Cons.IH [of "on_success r" "p @ [b]"] Cons.prems True
      by (simp add: on_success_def trailing_failures_snoc)
    then show ?thesis
      using True Cons.prems unfolding unfold
      by (simp add: trailing_failures_snoc del: upt_Suc append_assoc)
  next
    case False
    let ?n = "saturating_add (consecutive_failures r) 1"
    have "trailing_failures p < 2 ^ 32 - 1"
      using Cons.prems(2) unsigned_less [of "threshold r", where 'a = nat] by simp
    then have n: "unat ?n = trailing_failures (p @ [b])"
      using Cons.prems(1) False by (simp add: unat_saturating_add trailing_failures_snoc)
    let ?r = "r\<lparr>consecutive_failures := ?n\<rparr>"
    have "recovery_run ?r os = find (?P (p @ [b])) [1..<Suc (length os)]"
      if "trailing_failures (p @ [b]) < unat (threshold r)"
      using Cons.IH [of ?r "p @ [b]"] n that by simp
    then show ?thesis
      using False n unfolding unfold
      by (auto simp: on_failure_def Let_def word_le_nat_alt simp del: upt_Suc append_assoc)
  qed
qed

lemma unat_recovery_threshold: "unat (threshold (recovery_new t)) = max 1 (unat t)"
  by (simp add: recovery_new_def max_def word_le_nat_alt)

lemma lead_ws_newline: "lead_ws (map rev ws_seqs) (CHR 0x0A # s) = 1"
  by (simp add: lead_ws_def ws_seqs_def)

lemma trim_end_newline [simp]: "trim_end (s @ [CHR 0x0A]) = trim_end s"
  by (simp add: trim_end_def strip_lead.simps [of _ "CHR 0x0A # _"] lead_ws_newline)

lemma trim_show_nat_newline [simp]: "trim (show_nat n @ [CHR 0x0A]) = show_nat n"
proof -
  have "is_digit (hd (show_nat n))" using show_nat_graphic [of "hd (show_nat n)" n] by simp
  then have "trim_start (show_nat n @ [CHR 0x0A]) = show_nat n @ [CHR 0x0A]"
    by (simp add: is_digit_graphic)
  moreover have "trim_end (show_nat n) = show_nat n"
    using show_nat_graphic [of "last (show_nat n)" n] by (simp add: is_digit_graphic)
  ultimately show ?thesis by (simp add: trim_def)
qed

lemma evaluate_record_success:
  "evaluate (record_success_body ts) now age =
     (if unat age < unat now - unat ts then Err (StaleHeartbeat (saturating_sub now ts)) else Ok ())"
proof -
  have "unat ts \<le> 18446744073709551615"
    using unsigned_less [of ts, where 'a = nat] by simp
  then have "parse_u64 (show_nat (unat ts)) = Some ts"
    by (simp add: parse_u64_def)
  then show ?thesis
    by (simp add: evaluate_def record_success_body_def Let_def word_less_nat_alt
        unat_saturating_sub)
qed

text \<open>A trace body as the server sends it: one \<^verbatim>\<open>key=value\<close> line per entry.\<close>

definition trace_line :: "string \<times> string \<Rightarrow> string" where
  "trace_line kv = fst kv @ ''='' @ snd kv"

definition trace_body :: "(string \<times> string) list \<Rightarrow> string" where
  "trace_body kvs = concat (map (\<lambda>l. l @ [CHR 0x0A]) (map trace_line kvs))"

definition trace_entry :: "string \<times> string \<Rightarrow> bool" where
  "trace_entry kv \<longleftrightarrow> CHR ''='' \<notin> set (fst kv) \<and> CHR 0x0A \<notin> set (fst kv) \<union> set (snd kv)
     \<and> (snd kv = [] \<or> last (snd kv) \<noteq> CHR 0x0D)"

lemma str_lines_trace_body:
  "\<forall>kv\<in>set kvs. trace_entry kv \<Longrightarrow> str_lines (trace_body kvs) = map trace_line kvs"
  unfolding trace_body_def
  by (rule str_lines_concat) (auto simp: trace_line_def trace_entry_def)

lemma is_prefix_trace_line:
  assumes "CHR ''='' \<notin> set f" "CHR ''='' \<notin> set k"
  shows "is_prefix (f @ ''='') (trace_line (k, v)) \<longleftrightarrow> f = k"
proof -
  have "is_prefix (f @ ''='') (k @ CHR ''='' # v) \<Longrightarrow> f = k"
    using assms by (induction f k rule: list_induct2') auto
  then show ?thesis
    by (auto simp: trace_line_def is_prefix_iff)
qed

lemma extract_trace_field_map_of:
  assumes "\<forall>kv\<in>set kvs. trace_entry kv" "CHR ''='' \<notin> set f"
  shows "extract_trace_field (trace_body kvs) f = map_of kvs f"
  unfolding extract_trace_field_def str_lines_trace_body [OF assms(1)]
  using assms
proof (induction kvs)
  case (Cons kv kvs)
  obtain k v where "kv = (k, v)" by force
  with Cons show ?case
    by (auto simp: is_prefix_trace_line trace_entry_def strip_prefix_def)
       (simp_all add: trace_line_def)
qed simp

lemma trace_line_eq:
  assumes "CHR ''='' \<notin> set k" "CHR ''='' \<notin> set k'"
  shows "trace_line (k, v) = k' @ ''='' @ v' \<longleftrightarrow> (k, v) = (k', v')"
proof -
  have "split_once (CHR ''='') (trace_line (k, v)) = Some (k, v)"
       "split_once (CHR ''='') (k' @ ''='' @ v') = Some (k', v')"
    using assms by (simp_all add: trace_line_def)
  then show ?thesis
    by (metis option.inject trace_line_def fst_conv snd_conv)
qed

lemma warp_marker_trace_body:
  assumes "\<forall>kv\<in>set kvs. trace_entry kv"
  shows "list_ex (\<lambda>line. line = ''warp='' @ v) (str_lines (trace_body kvs))
    \<longleftrightarrow> (''warp'', v) \<in> set kvs"
proof -
  have "trace_line kv = ''warp='' @ v \<longleftrightarrow> kv = (''warp'', v)" if "kv \<in> set kvs" for kv
    using assms that trace_line_eq [of "fst kv" "''warp''" "snd kv" v]
    by (auto simp: trace_entry_def)
  then have "list_ex (\<lambda>kv. trace_line kv = ''warp='' @ v) kvs \<longleftrightarrow> list_ex (\<lambda>kv. kv = (''warp'', v)) kvs"
    by (simp only: list_ex_iff) blast
  then show ?thesis
    by (simp add: str_lines_trace_body [OF assms] list_ex_iff image_iff eq_commute)
qed

section \<open>Properties\<close>

text \<open>
  A fresh threshold counter requests the rebuild of the outlet at exactly the first probe
  at which the outcomes seen so far end in \<open>max 1 threshold\<close> consecutive failures, and never
  requests it if there is no such probe; a success in between always resets the count.
\<close>

lemma recovery_exits_at_first_failing_window:
  "recovery_run (recovery_new t) os =
     find (\<lambda>i. max 1 (unat t) \<le> trailing_failures (take i os)) [1..<Suc (length os)]"
  using recovery_run_from [of "recovery_new t" "[]" os] unat_recovery_threshold [of t]
  by (simp add: recovery_new_def trailing_failures_def)

text \<open>
  The health check accepts the heartbeat file exactly while the clock is at most
  \<open>max_age\<close> past the last recorded success (clock steps backwards count as fresh), a missing
  file is never healthy, and after \<^verbatim>\<open>invalidate\<close> the file is accepted only if the clock
  itself is within \<open>max_age\<close> of the epoch.
\<close>

lemma heartbeat_check_iff_fresh:
  "(check (Some (record_success_body ts)) now age = Ok () \<longleftrightarrow> unat now \<le> unat ts + unat age)
   \<and> check None now age = Err NoHeartbeat
   \<and> (check (Some invalidate_body) now age = Ok () \<longleftrightarrow> now \<le> age)"
proof -
  have inv: "invalidate_body = record_success_body 0"
    by (simp add: invalidate_body_def record_success_body_def show_nat.simps digit_char_def
        char_of_def bit_Suc_0_iff)
  show ?thesis
    unfolding check_def option.case inv evaluate_record_success by (auto simp: word_le_nat_alt)
qed

text \<open>
  On a body of \<^verbatim>\<open>key=value\<close> lines the probe succeeds exactly when one of them says
  \<^verbatim>\<open>warp=on\<close> or \<^verbatim>\<open>warp=plus\<close>, and it then reports the values of the first \<^verbatim>\<open>ip\<close> and
  \<^verbatim>\<open>loc\<close> lines (nothing where there is none).
\<close>

lemma parse_trace_reads_fields:
  assumes "\<forall>kv\<in>set kvs. trace_entry kv"
  shows "parse_trace (trace_body kvs) =
    (if (''warp'', ''on'') \<in> set kvs \<or> (''warp'', ''plus'') \<in> set kvs
     then Ok \<lparr>outcome_ip = map_of kvs ''ip'', outcome_loc = map_of kvs ''loc''\<rparr>
     else Err (MissingWarpMarker (summarize (trace_body kvs))))"
  using warp_marker_trace_body [OF assms, of "''on''"]
    warp_marker_trace_body [OF assms, of "''plus''"]
    extract_trace_field_map_of [OF assms, of "''ip''"]
    extract_trace_field_map_of [OF assms, of "''loc''"]
  by (auto simp: parse_trace_def list_ex_iff)

lemma parse_trace_reads_fields_witness:
  "parse_trace (trace_body [(''ip'', ''1.2.3.4''), (''loc'', ''JP''), (''warp'', ''on'')]) =
     Ok \<lparr>outcome_ip = Some ''1.2.3.4'', outcome_loc = Some ''JP''\<rparr>"
  by (subst parse_trace_reads_fields) (simp_all add: trace_entry_def)

end
