(* ===== verification/Varint.thy ===== *)
theory Varint
  imports Rust_Std
begin

text \<open>
  \<^verbatim>\<open>outbound/masque/varint.rs\<close>.  The integer codec itself is the \<^verbatim>\<open>VarInt\<close> of the QUIC
  library, which is not part of the repository: \<open>venc\<close> stands for \<^verbatim>\<open>from_u64\<close> followed by
  \<^verbatim>\<open>encode\<close> (\<open>None\<close> when the value has no encoding) and \<open>vdec\<close> for \<^verbatim>\<open>decode\<close> (the value
  and what is left of the slice).  The locale \<open>quic_varint\<close> states what RFC 9000 promises of
  it: values below \<open>2 ^ 62\<close> have an encoding, the first two bits of an encoding give its
  length, and decoding undoes encoding whatever follows.  The codec of the RFC satisfies it.
\<close>

type_synonym venc = "u64 \<Rightarrow> bytes option"
type_synonym vdec = "bytes \<Rightarrow> (u64 \<times> bytes) option"

section \<open>The two wrappers\<close>

text \<open>\<^verbatim>\<open>write\<close> panics (\<open>None\<close>) on a value the codec refuses.\<close>

definition varint_write :: "venc \<Rightarrow> bytes \<Rightarrow> u64 \<Rightarrow> bytes option" where
  "varint_write venc out value = map_option (\<lambda>bs. out @ bs) (venc value)"

definition varint_read :: "vdec \<Rightarrow> bytes \<Rightarrow> (u64 \<times> nat) option" where
  "varint_read vdec bytes =
     (case vdec bytes of None \<Rightarrow> None | Some (value, rest) \<Rightarrow> Some (value, length bytes - length rest))"

section \<open>What the codec promises\<close>

definition varint_len :: "u8 \<Rightarrow> nat" where
  "varint_len b = 2 ^ unat (drop_bit 6 b)"

locale quic_varint =
  fixes venc :: venc and vdec :: vdec
  assumes enc_defined: "unat v < 2 ^ 62 \<longleftrightarrow> venc v \<noteq> None"
    and enc_length: "venc v = Some bs \<Longrightarrow> bs \<noteq> [] \<and> length bs = varint_len (hd bs)"
    and dec_enc: "venc v = Some bs \<Longrightarrow> vdec (bs @ rest) = Some (v, rest)"
    and dec_defined: "vdec bs = None \<longleftrightarrow> bs = [] \<or> length bs < varint_len (hd bs)"
    and dec_rest: "vdec bs = Some (v, rest) \<Longrightarrow> rest = drop (varint_len (hd bs)) bs"
    and dec_local: "vdec bs = Some (v, rest) \<Longrightarrow> vdec (bs @ more) = Some (v, rest @ more)"
begin

lemma enc_obtain:
  assumes "unat v < 2 ^ 62"
  obtains bs where "venc v = Some bs" "bs \<noteq> []" "length bs = varint_len (hd bs)"
    "\<And>rest. vdec (bs @ rest) = Some (v, rest)"
  using assms enc_defined enc_length dec_enc by (metis not_None_eq)

lemma varint_read_write:
  assumes "unat v < 2 ^ 62"
  shows "\<exists>bs. varint_write venc out v = Some (out @ bs) \<and> bs \<noteq> []
    \<and> varint_read vdec (bs @ rest) = Some (v, length bs)"
proof -
  obtain bs where "venc v = Some bs" "bs \<noteq> []" "vdec (bs @ rest) = Some (v, rest)"
    using enc_obtain [OF assms] by metis
  then show ?thesis by (simp add: varint_write_def varint_read_def)
qed

lemma varint_read_bounds:
  assumes "varint_read vdec bs = Some (v, n)"
  shows "0 < n \<and> n \<le> length bs \<and> n = varint_len (hd bs)"
proof -
  obtain rest where r: "vdec bs = Some (v, rest)" "n = length bs - length rest"
    using assms by (auto simp: varint_read_def split: option.splits)
  then have "bs \<noteq> []" "varint_len (hd bs) \<le> length bs" using dec_defined [of bs] by auto
  moreover have "0 < varint_len (hd bs)" by (simp add: varint_len_def)
  ultimately show ?thesis using r dec_rest [OF r(1)] by simp
qed

lemma varint_read_prefix_None:
  assumes "venc v = Some bs" "k < length bs"
  shows "varint_read vdec (take k bs) = None"
proof -
  have "bs \<noteq> []" "length bs = varint_len (hd bs)" using enc_length [OF assms(1)] by auto
  then have "take k bs = [] \<or> length (take k bs) < varint_len (hd (take k bs))"
    using assms(2) by (cases k) (auto simp: hd_take)
  then have "vdec (take k bs) = None" by (simp only: dec_defined)
  then show ?thesis by (simp add: varint_read_def)
qed

end

section \<open>The codec of RFC 9000\<close>

text \<open>Big-endian bytes of a value, and the value of big-endian bytes.\<close>

fun be_bytes :: "nat \<Rightarrow> nat \<Rightarrow> bytes" where
  "be_bytes 0 v = []"
| "be_bytes (Suc n) v = be_bytes n (v div 256) @ [of_nat v]"

definition be_val :: "bytes \<Rightarrow> nat" where
  "be_val bs = foldl (\<lambda>a b. 256 * a + unat b) 0 bs"

definition rfc_enc :: venc where
  "rfc_enc v =
     (let n = unat v in
      if n < 2 ^ 6 then Some (be_bytes 1 n)
      else if n < 2 ^ 14 then Some (be_bytes 2 (n + 2 ^ 14))
      else if n < 2 ^ 30 then Some (be_bytes 4 (n + 2 * 2 ^ 30))
      else if n < 2 ^ 62 then Some (be_bytes 8 (n + 3 * 2 ^ 62))
      else None)"

definition rfc_dec :: vdec where
  "rfc_dec bs =
     (case bs of
        [] \<Rightarrow> None
      | b # _ \<Rightarrow>
          let l = varint_len b in
          if length bs < l then None
          else Some (of_nat (be_val (take l bs) mod 2 ^ (8 * l - 2)), drop l bs))"

lemma length_be_bytes [simp]: "length (be_bytes n v) = n"
  by (induction n arbitrary: v) auto

lemma be_val_be_bytes: "be_val (be_bytes n v) = v mod 256 ^ n"
proof (induction n arbitrary: v)
  case (Suc n)
  have "v mod 256 ^ Suc n = 256 * (v div 256 mod 256 ^ n) + v mod 256"
    by (simp add: mod_mult2_eq)
  with Suc show ?case by (simp add: be_val_def unat_of_nat)
qed (simp add: be_val_def)

lemma hd_be_bytes: "0 < n \<Longrightarrow> hd (be_bytes n v) = of_nat (v div 256 ^ (n - 1))"
proof (induction n arbitrary: v)
  case (Suc n)
  then show ?case
    by (cases n) (auto simp: hd_append div_mult2_eq simp flip: length_0_conv)
qed simp

text \<open>One case of the encoder: \<open>n\<close> bytes, the length tag \<open>t\<close> in the two top bits.\<close>

lemma rfc_enc_case:
  assumes "n = 2 ^ t" "t < 4" "v < 2 ^ (8 * n - 2)"
  shows "varint_len (hd (be_bytes n (v + t * 2 ^ (8 * n - 2)))) = n"
    and "be_val (be_bytes n (v + t * 2 ^ (8 * n - 2))) mod 2 ^ (8 * n - 2) = v"
proof -
  have t: "t = 0 \<or> t = 1 \<or> t = 2 \<or> t = 3" using assms(2) by arith
  then have n: "n = 1 \<or> n = 2 \<or> n = 4 \<or> n = 8" "0 < n" using assms(1) by auto
  have pow: "(256 :: nat) ^ (n - 1) * 2 ^ 6 = 2 ^ (8 * n - 2)" "(256 :: nat) ^ n = 4 * 2 ^ (8 * n - 2)"
    using n(1) by auto
  have "(v + t * 2 ^ (8 * n - 2)) div 256 ^ (n - 1) div 2 ^ 6 = t"
    unfolding div_mult2_eq [symmetric] pow(1) using assms(3) by simp
  moreover have "(v + t * 2 ^ (8 * n - 2)) div 256 ^ (n - 1) < 256"
  proof -
    have "v + t * 2 ^ (8 * n - 2) < 256 * 256 ^ (n - 1)"
      using t assms(3) n(1) by auto
    then show ?thesis by (simp add: less_mult_imp_div_less)
  qed
  ultimately show "varint_len (hd (be_bytes n (v + t * 2 ^ (8 * n - 2)))) = n"
    using n(2) assms(1)
    by (simp add: varint_len_def hd_be_bytes unat_of_nat drop_bit_eq_div unat_div)
  have "v + t * 2 ^ (8 * n - 2) < 256 ^ n"
    using t assms(3) pow(2) by auto
  then show "be_val (be_bytes n (v + t * 2 ^ (8 * n - 2))) mod 2 ^ (8 * n - 2) = v"
    using assms(3) by (simp add: be_val_be_bytes)
qed

lemma rfc_enc_cases:
  assumes "rfc_enc v = Some bs"
  obtains n t where "n = 2 ^ t" "t < 4" "unat v < 2 ^ (8 * n - 2)"
    "bs = be_bytes n (unat v + t * 2 ^ (8 * n - 2))"
proof -
  consider "unat v < 2 ^ 6" | "2 ^ 6 \<le> unat v" "unat v < 2 ^ 14"
    | "2 ^ 14 \<le> unat v" "unat v < 2 ^ 30" | "2 ^ 30 \<le> unat v" "unat v < 2 ^ 62"
    using assms by (fastforce simp: rfc_enc_def Let_def split: if_splits)
  then show thesis
  proof cases
    case 1
    then show thesis using assms that [of 1 0] by (simp add: rfc_enc_def)
  next
    case 2
    then show thesis using assms that [of 2 1] by (simp add: rfc_enc_def)
  next
    case 3
    then show thesis using assms that [of 4 2] by (simp add: rfc_enc_def)
  next
    case 4
    then show thesis using assms that [of 8 3] by (simp add: rfc_enc_def)
  qed
qed

lemma rfc_dec_Some:
  "rfc_dec bs = Some (v, rest) \<longleftrightarrow>
     bs \<noteq> [] \<and> varint_len (hd bs) \<le> length bs \<and> rest = drop (varint_len (hd bs)) bs
     \<and> v = of_nat (be_val (take (varint_len (hd bs)) bs) mod 2 ^ (8 * varint_len (hd bs) - 2))"
  by (cases bs) (auto simp: rfc_dec_def Let_def)

interpretation rfc: quic_varint rfc_enc rfc_dec
proof
  fix v :: u64 and bs rest more
  show "unat v < 2 ^ 62 \<longleftrightarrow> rfc_enc v \<noteq> None" by (simp add: rfc_enc_def Let_def)
  show "rfc_dec bs = None \<longleftrightarrow> bs = [] \<or> length bs < varint_len (hd bs)"
    by (cases bs) (auto simp: rfc_dec_def Let_def)
  show "rfc_dec bs = Some (v, rest) \<Longrightarrow> rest = drop (varint_len (hd bs)) bs"
    by (simp add: rfc_dec_Some)
  show "rfc_dec bs = Some (v, rest) \<Longrightarrow> rfc_dec (bs @ more) = Some (v, rest @ more)"
    by (auto simp: rfc_dec_Some)
  assume enc: "rfc_enc v = Some bs"
  then obtain n t where nt: "n = 2 ^ t" "t < 4" "unat v < 2 ^ (8 * n - 2)"
    "bs = be_bytes n (unat v + t * 2 ^ (8 * n - 2))" by (rule rfc_enc_cases)
  have "bs \<noteq> []" using nt(1,4) by (auto simp flip: length_0_conv)
  then show "bs \<noteq> [] \<and> length bs = varint_len (hd bs)"
    using rfc_enc_case(1) [OF nt(1-3)] nt(4) by simp
  then show "rfc_dec (bs @ rest) = Some (v, rest)"
    using rfc_enc_case(2) [OF nt(1-3)] nt(4) by (simp add: rfc_dec_Some)
qed

end
