(* ===== verification/Bits.thy ===== *)
theory Bits
  imports Prelude
begin

text \<open>
  Bit strings and codes over them.  \<open>word_bits n w\<close> is the string of the low \<open>n\<close> bits of
  a word, most significant first; the shift-and-mask operations of the source become \<open>take\<close>,
  \<open>drop\<close> and append on such strings.  \<open>prefix_code\<close> is the interface of a complete
  prefix code of bounded code length; inside it a concatenation of code words has one parse.
  \<open>contig\<close> checks a table of codes in the order of their left-aligned values: consecutive
  intervals without gap or overlap, which makes the code prefix-free and complete.
\<close>

section \<open>Words as bit strings\<close>

definition word_bits :: "nat \<Rightarrow> 'a::len word \<Rightarrow> bool list" where
  "word_bits n w = map (bit w) (rev [0..<n])"

lemma length_word_bits [simp]: "length (word_bits n w) = n"
  by (simp add: word_bits_def)

lemma nth_word_bits: "i < n \<Longrightarrow> word_bits n w ! i = bit w (n - Suc i)"
  by (simp add: word_bits_def rev_nth)

lemma word_bits_eq_iff:
  "word_bits n v = word_bits n w \<longleftrightarrow> (\<forall>i<n. bit v i \<longleftrightarrow> bit w i)"
  by (auto simp: word_bits_def map_eq_conv)

lemma word_bits_push:
  fixes w :: "'a::len word" and b :: u8
  assumes "n + 8 \<le> LENGTH('a)"
  shows "word_bits (n + 8) (push_bit 8 w OR ucast b) = word_bits n w @ word_bits 8 b"
proof (rule nth_equalityI)
  fix i
  assume i: "i < length (word_bits (n + 8) (push_bit 8 w OR ucast b))"
  show "word_bits (n + 8) (push_bit 8 w OR ucast b) ! i = (word_bits n w @ word_bits 8 b) ! i"
  proof (cases "i < n")
    case True
    then have "n + 8 - Suc i - 8 = n - Suc i" "8 \<le> n + 8 - Suc i"
      by simp_all
    moreover have "\<not> bit b (n + 8 - Suc i)"
      using True bit_imp_le_length [of b "n + 8 - Suc i"] by auto
    ultimately show ?thesis
      using True assms by (auto simp: nth_word_bits nth_append bit_simps)
  next
    case False
    then have "8 - Suc (i - n) = n + 8 - Suc i" by simp
    with False i assms show ?thesis
      by (auto simp: nth_word_bits nth_append bit_simps bit_imp_le_length)
  qed
qed simp

lemma take_word_bits:
  "l \<le> n \<Longrightarrow> take l (word_bits n w) = word_bits l (drop_bit (n - l) w)"
  by (rule nth_equalityI) (auto simp: nth_word_bits bit_simps)

lemma drop_word_bits: "drop l (word_bits n w) = word_bits (n - l) w"
proof (rule nth_equalityI)
  fix i
  assume i: "i < length (drop l (word_bits n w))"
  then have "n - Suc (l + i) = n - l - Suc i" by simp
  with i show "drop l (word_bits n w) ! i = word_bits (n - l) w ! i"
    by (simp add: nth_word_bits)
qed simp

lemma word_bits_and_mask [simp]:
  "n \<le> LENGTH('a) \<Longrightarrow> word_bits n (w AND mask n :: 'a::len word) = word_bits n w"
  by (auto simp: word_bits_eq_iff bit_simps)

lemma push_1_minus_1: "push_bit n 1 - 1 = (mask n :: 'a::len word)"
  by (simp add: push_bit_eq_mult mask_eq_exp_minus_1)

lemma unat_mask_eq: "n \<le> LENGTH('a) \<Longrightarrow> unat (mask n :: 'a::len word) = 2 ^ n - 1"
proof -
  assume "n \<le> LENGTH('a)"
  then have "unat (mask n :: 'a word) = mask n"
    by (intro bit_eqI) (auto simp: bit_simps)
  then show ?thesis by (simp add: mask_eq_exp_minus_1)
qed

lemma le_mask_take_bit:
  assumes "v \<le> (mask n :: 'a::len word)"
  shows "take_bit n v = v"
proof (cases "n < LENGTH('a)")
  case True
  then have "unat v < 2 ^ n"
    using assms by (simp add: word_le_nat_alt unat_mask_eq Suc_le_eq [symmetric] le_diff_conv2)
  then have "unat (take_bit n v) = unat v"
    by (simp add: unsigned_take_bit_eq take_bit_nat_eq_self)
  then show ?thesis by (rule unsigned_word_eqI)
qed (simp add: take_bit_word_eq_self)

text \<open>The comparison the decoder makes: a masked field against a constant that fits the mask.\<close>

lemma masked_eq_iff:
  fixes w :: u64 and c :: u32
  assumes "l \<le> 32" "take_bit l c = c"
  shows "w AND mask l = ucast c \<longleftrightarrow> word_bits l w = word_bits l c"
proof -
  have high: "\<not> bit c i" if "l \<le> i" for i
    using that assms(2) by (metis bit_take_bit_iff not_less)
  show ?thesis
  proof
    assume eq: "w AND mask l = ucast c"
    have "bit w i \<longleftrightarrow> bit c i" if "i < l" for i
    proof -
      have "bit (w AND mask l) i \<longleftrightarrow> bit (ucast c :: u64) i" using eq by simp
      then show ?thesis using that assms(1) by (simp add: bit_simps)
    qed
    then show "word_bits l w = word_bits l c" by (simp add: word_bits_eq_iff)
  next
    assume "word_bits l w = word_bits l c"
    then have "\<forall>i<l. bit w i \<longleftrightarrow> bit c i" by (simp add: word_bits_eq_iff)
    then show "w AND mask l = ucast c"
      using high assms(1) by (intro bit_word_eqI) (auto simp: bit_simps; metis not_le)
  qed
qed

section \<open>Values of bit strings\<close>

definition bval :: "bool list \<Rightarrow> nat" where
  "bval bs = horner_sum of_bool 2 (rev bs)"

lemma bval_append: "bval (xs @ ys) = bval xs * 2 ^ length ys + bval ys"
  by (simp add: bval_def horner_sum_append)

lemma bval_less: "bval bs < 2 ^ length bs"
  unfolding bval_def using horner_sum_of_bool_2_less [of "rev bs"] by simp

lemma bval_word_bits: "bval (word_bits n w) = take_bit n (unat w)"
proof -
  have "map (bit w) [0..<n] = map (bit (unat w)) [0..<n]"
    by (auto simp: bit_simps dest: bit_imp_le_length)
  then show ?thesis
    unfolding bval_def word_bits_def rev_map [symmetric] rev_rev_ident
    by (simp only: horner_sum_bit_eq_take_bit)
qed

lemma bval_inject:
  assumes "length xs = length ys" "bval xs = bval ys"
  shows "xs = ys"
proof -
  have "bit (bval xs) i \<longleftrightarrow> bit (bval ys) i" for i using assms(2) by simp
  then have "\<forall>i < length ys. rev xs ! i = rev ys ! i"
    using assms(1) by (auto simp: bval_def bit_horner_sum_bit_iff)
  with assms(1) have "rev xs = rev ys" by (intro nth_equalityI) auto
  then show ?thesis by simp
qed

section \<open>Complete prefix codes\<close>

definition pfx :: "bool list \<Rightarrow> bool list \<Rightarrow> bool" where
  "pfx p w \<longleftrightarrow> take (length p) w = p"

lemma pfx_append [simp]: "pfx p (p @ w)"
  by (simp add: pfx_def)

lemma pfx_length: "pfx p w \<Longrightarrow> length p \<le> length w"
  by (metis pfx_def length_take min.cobounded1)

lemma pfx_extend: "pfx p w \<Longrightarrow> pfx p (w @ v)"
  using pfx_length [of p w] by (simp add: pfx_def)

lemma pfx_split: "pfx p w \<Longrightarrow> w = p @ drop (length p) w"
  by (metis append_take_drop_id pfx_def)

lemma pfx_linear: "pfx p w \<Longrightarrow> pfx q w \<Longrightarrow> length p \<le> length q \<Longrightarrow> pfx p q"
  unfolding pfx_def by (metis min.absorb1 take_take)

definition codes :: "(nat \<Rightarrow> bool list) \<Rightarrow> nat list \<Rightarrow> bool list" where
  "codes code xs = concat (map code xs)"

definition stuck :: "(nat \<Rightarrow> bool list) \<Rightarrow> nat \<Rightarrow> bool list \<Rightarrow> bool" where
  "stuck code nsym w \<longleftrightarrow> (\<forall>i<nsym. \<not> pfx (code i) w)"

lemma codes_simps:
  "codes code [] = []"
  "codes code (x # xs) = code x @ codes code xs"
  "codes code (xs @ ys) = codes code xs @ codes code ys"
  by (simp_all add: codes_def)

locale prefix_code =
  fixes code :: "nat \<Rightarrow> bool list" and nsym :: nat and maxlen :: nat
  assumes prefix_free: "i < nsym \<Longrightarrow> j < nsym \<Longrightarrow> pfx (code i) (code j) \<Longrightarrow> i = j"
    and complete: "maxlen \<le> length w \<Longrightarrow> \<exists>i<nsym. pfx (code i) w"
begin

lemma stuck_short: "stuck code nsym w \<Longrightarrow> length w < maxlen"
  using complete [of w] unfolding stuck_def by (meson not_le)

lemma match_unique:
  assumes "i < nsym" "j < nsym" "pfx (code i) w" "pfx (code j) w"
  shows "i = j"
  using assms prefix_free [of i j] prefix_free [of j i] pfx_linear [of "code i" w "code j"]
    pfx_linear [of "code j" w "code i"] by (metis nat_le_linear)

lemma parse_unique:
  assumes "codes code xs @ p = codes code ys @ q" "stuck code nsym p" "\<forall>x\<in>set xs. x < nsym" "\<forall>y\<in>set ys. y < nsym"
  shows "\<exists>zs. xs = ys @ zs \<and> q = codes code zs @ p"
  using assms
proof (induction ys arbitrary: xs)
  case Nil
  then show ?case by (auto simp: codes_simps)
next
  case (Cons y ys)
  have y: "pfx (code y) (codes code xs @ p)" "y < nsym"
    using Cons.prems by (auto simp: codes_simps)
  then obtain x xs' where xs: "xs = x # xs'"
    using Cons.prems(2) by (cases xs) (auto simp: codes_simps stuck_def)
  then have "pfx (code x) (codes code xs @ p)" "x < nsym"
    using Cons.prems(3) by (simp_all add: codes_simps)
  with y match_unique have "x = y" by blast
  with Cons xs show ?case by (auto simp: codes_simps)
qed

end

section \<open>Codes given by contiguous intervals\<close>

fun contig :: "nat \<Rightarrow> nat \<Rightarrow> (nat \<times> nat) list \<Rightarrow> bool" where
  "contig L lo [] \<longleftrightarrow> lo = 2 ^ L"
| "contig L lo ((c, l) # xs) \<longleftrightarrow> l \<le> L \<and> c * 2 ^ (L - l) = lo \<and> contig L (lo + 2 ^ (L - l)) xs"

definition ival :: "nat \<Rightarrow> nat \<times> nat \<Rightarrow> nat \<Rightarrow> bool" where
  "ival L cl v \<longleftrightarrow> v div 2 ^ (L - snd cl) = fst cl"

lemma ival_iff:
  "ival L (c, l) v \<longleftrightarrow> c * 2 ^ (L - l) \<le> v \<and> v < c * 2 ^ (L - l) + 2 ^ (L - l)"
proof -
  have "v div 2 ^ (L - l) = c \<longleftrightarrow> c * 2 ^ (L - l) \<le> v \<and> v < Suc c * 2 ^ (L - l)"
    using div_nat_eqI [of "2 ^ (L - l)" c v] dividend_less_times_div [of "2 ^ (L - l)" v]
    by (auto simp: mult.commute)
  then show ?thesis by (auto simp: ival_def)
qed

lemma contig_lengths: "contig L lo xs \<Longrightarrow> \<forall>(c, l)\<in>set xs. l \<le> L"
  by (induction L lo xs rule: contig.induct) auto

lemma contig_lower: "contig L lo xs \<Longrightarrow> cl \<in> set xs \<Longrightarrow> ival L cl v \<Longrightarrow> lo \<le> v"
  by (induction L lo xs rule: contig.induct) (fastforce simp: ival_iff)+

lemma contig_cover: "contig L lo xs \<Longrightarrow> lo \<le> v \<Longrightarrow> v < 2 ^ L \<Longrightarrow> \<exists>cl\<in>set xs. ival L cl v"
proof (induction L lo xs rule: contig.induct)
  case (2 L lo c l xs)
  then show ?case
    by (cases "v < lo + 2 ^ (L - l)") (auto simp: ival_iff)
qed simp

lemma contig_disjoint:
  assumes "contig L lo xs" "i < length xs" "j < length xs" "ival L (xs ! i) v" "ival L (xs ! j) v"
  shows "i = j"
proof -
  have "\<not> (ival L (xs ! i) v \<and> ival L (xs ! j) v)" if "i < j" "j < length xs" for i j
    using assms(1) that
  proof (induction L lo xs arbitrary: i j rule: contig.induct)
    case (2 L lo c l xs)
    show ?case
    proof (cases i)
      case 0
      with 2 obtain j' where "j = Suc j'" "j' < length xs" by (cases j) auto
      with 0 2 show ?thesis
        using contig_lower [of L "lo + 2 ^ (L - l)" xs "xs ! j'" v] by (auto simp: ival_iff)
    next
      case (Suc i')
      with 2 obtain j' where "j = Suc j'" "i' < j'" "j' < length xs" by (cases j) auto
      with Suc 2 show ?thesis by auto
    qed
  qed simp
  with assms show ?thesis by (metis nat_neq_iff)
qed

end
