(* ===== verification/Huffman.thy ===== *)
theory Huffman
  imports Bits
begin

text \<open>
  \<^verbatim>\<open>outbound/masque/huffman.rs\<close>: the static Huffman code of HPACK and its decoder.  The
  accumulator is the source's 64-bit word; the number of pending bits is a natural number, and
  the decoder is shown never to hold 30 or more of them between bytes, so no shift reaches the
  word width.  The table is shown to be a complete prefix code; the decoder then accepts
  exactly the concatenations of code words followed by fewer than eight one bits.
\<close>

section \<open>The table\<close>

definition TABLE :: "(u32 \<times> u8) list" where
  "TABLE = [
   (8184, 13), (8388568, 23), (268435426, 28), (268435427, 28), (268435428, 28),
   (268435429, 28), (268435430, 28), (268435431, 28), (268435432, 28), (16777194, 24),
   (1073741820, 30), (268435433, 28), (268435434, 28), (1073741821, 30), (268435435, 28),
   (268435436, 28), (268435437, 28), (268435438, 28), (268435439, 28), (268435440, 28),
   (268435441, 28), (268435442, 28), (1073741822, 30), (268435443, 28), (268435444, 28),
   (268435445, 28), (268435446, 28), (268435447, 28), (268435448, 28), (268435449, 28),
   (268435450, 28), (268435451, 28), (20, 6), (1016, 10), (1017, 10), (4090, 12), (8185, 13),
   (21, 6), (248, 8), (2042, 11), (1018, 10), (1019, 10), (249, 8), (2043, 11), (250, 8),
   (22, 6), (23, 6), (24, 6), (0, 5), (1, 5), (2, 5), (25, 6), (26, 6), (27, 6), (28, 6),
   (29, 6), (30, 6), (31, 6), (92, 7), (251, 8), (32764, 15), (32, 6), (4091, 12), (1020, 10),
   (8186, 13), (33, 6), (93, 7), (94, 7), (95, 7), (96, 7), (97, 7), (98, 7), (99, 7),
   (100, 7), (101, 7), (102, 7), (103, 7), (104, 7), (105, 7), (106, 7), (107, 7), (108, 7),
   (109, 7), (110, 7), (111, 7), (112, 7), (113, 7), (114, 7), (252, 8), (115, 7), (253, 8),
   (8187, 13), (524272, 19), (8188, 13), (16380, 14), (34, 6), (32765, 15), (3, 5), (35, 6),
   (4, 5), (36, 6), (5, 5), (37, 6), (38, 6), (39, 6), (6, 5), (116, 7), (117, 7), (40, 6),
   (41, 6), (42, 6), (7, 5), (43, 6), (118, 7), (44, 6), (8, 5), (9, 5), (45, 6), (119, 7),
   (120, 7), (121, 7), (122, 7), (123, 7), (32766, 15), (2044, 11), (16381, 14), (8189, 13),
   (268435452, 28), (1048550, 20), (4194258, 22), (1048551, 20), (1048552, 20), (4194259, 22),
   (4194260, 22), (4194261, 22), (8388569, 23), (4194262, 22), (8388570, 23), (8388571, 23),
   (8388572, 23), (8388573, 23), (8388574, 23), (16777195, 24), (8388575, 23), (16777196, 24),
   (16777197, 24), (4194263, 22), (8388576, 23), (16777198, 24), (8388577, 23), (8388578, 23),
   (8388579, 23), (8388580, 23), (2097116, 21), (4194264, 22), (8388581, 23), (4194265, 22),
   (8388582, 23), (8388583, 23), (16777199, 24), (4194266, 22), (2097117, 21), (1048553, 20),
   (4194267, 22), (4194268, 22), (8388584, 23), (8388585, 23), (2097118, 21), (8388586, 23),
   (4194269, 22), (4194270, 22), (16777200, 24), (2097119, 21), (4194271, 22), (8388587, 23),
   (8388588, 23), (2097120, 21), (2097121, 21), (4194272, 22), (2097122, 21), (8388589, 23),
   (4194273, 22), (8388590, 23), (8388591, 23), (1048554, 20), (4194274, 22), (4194275, 22),
   (4194276, 22), (8388592, 23), (4194277, 22), (4194278, 22), (8388593, 23), (67108832, 26),
   (67108833, 26), (1048555, 20), (524273, 19), (4194279, 22), (8388594, 23), (4194280, 22),
   (33554412, 25), (67108834, 26), (67108835, 26), (67108836, 26), (134217694, 27),
   (134217695, 27), (67108837, 26), (16777201, 24), (33554413, 25), (524274, 19),
   (2097123, 21), (67108838, 26), (134217696, 27), (134217697, 27), (67108839, 26),
   (134217698, 27), (16777202, 24), (2097124, 21), (2097125, 21), (67108840, 26),
   (67108841, 26), (268435453, 28), (134217699, 27), (134217700, 27), (134217701, 27),
   (1048556, 20), (16777203, 24), (1048557, 20), (2097126, 21), (4194281, 22), (2097127, 21),
   (2097128, 21), (8388595, 23), (4194282, 22), (4194283, 22), (33554414, 25), (33554415, 25),
   (16777204, 24), (16777205, 24), (67108842, 26), (8388596, 23), (67108843, 26),
   (134217702, 27), (67108844, 26), (67108845, 26), (134217703, 27), (134217704, 27),
   (134217705, 27), (134217706, 27), (134217707, 27), (268435454, 28), (134217708, 27),
   (134217709, 27), (134217710, 27), (134217711, 27), (134217712, 27), (67108846, 26),
   (1073741823, 30)
  ]"

section \<open>The decoder\<close>

datatype HuffmanError = EosInStream | UndecodedByte | BadPadding

text \<open>The loop of \<^verbatim>\<open>match_symbol\<close> from entry \<open>sy\<close> of the table on.\<close>

fun match_symbol_from :: "nat \<Rightarrow> (u32 \<times> u8) list \<Rightarrow> u64 \<Rightarrow> nat \<Rightarrow> (nat \<times> nat) option" where
  "match_symbol_from sy [] acc nbits = None"
| "match_symbol_from sy ((code, len) # tab) acc nbits =
     (if unat len \<le> nbits \<and>
         drop_bit (nbits - unat len) acc AND (push_bit (unat len) 1 - 1) = ucast code
      then Some (sy, unat len)
      else match_symbol_from (Suc sy) tab acc nbits)"

definition match_symbol :: "u64 \<Rightarrow> nat \<Rightarrow> (nat \<times> nat) option" where
  "match_symbol acc nbits = match_symbol_from 0 TABLE acc nbits"

lemma match_symbol_from_Some:
  "match_symbol_from s tab acc nbits = Some (sy, l) \<Longrightarrow>
     s \<le> sy \<and> sy < s + length tab \<and> l = unat (snd (tab ! (sy - s))) \<and> l \<le> nbits"
proof (induction s tab acc nbits rule: match_symbol_from.induct)
  case (2 s code len tab acc nbits)
  then show ?case
    by (auto split: if_splits simp: nth_Cons')
qed simp

lemma TABLE_lengths: "list_all (\<lambda>(c, l). 0 < unat l \<and> unat l \<le> 30) TABLE"
  by (simp add: TABLE_def)

lemma length_TABLE [simp]: "length TABLE = 257"
  by (simp add: TABLE_def)

lemma TABLE_length_bounds: "i < 257 \<Longrightarrow> 0 < unat (snd (TABLE ! i)) \<and> unat (snd (TABLE ! i)) \<le> 30"
  using TABLE_lengths by (auto simp: list_all_length case_prod_beta)

lemma match_symbol_Some:
  "match_symbol acc nbits = Some (sy, l) \<Longrightarrow> 0 < l \<and> l \<le> nbits \<and> l \<le> 30 \<and> sy < 257"
  unfolding match_symbol_def
  using match_symbol_from_Some [of 0 TABLE acc nbits sy l] TABLE_length_bounds [of sy] by simp

text \<open>The \<^verbatim>\<open>while let\<close> loop; the new accumulator keeps the low \<open>nbits - len\<close> bits.\<close>

function drain :: "u64 \<Rightarrow> nat \<Rightarrow> bytes \<Rightarrow> (HuffmanError, u64 \<times> nat \<times> bytes) result" where
  "drain acc nbits out =
     (case match_symbol acc nbits of
        None \<Rightarrow> Ok (acc, nbits, out)
      | Some (sy, len) \<Rightarrow>
          if sy = 256 then Err EosInStream
          else drain (acc AND (push_bit (nbits - len) 1 - 1)) (nbits - len) (out @ [of_nat sy]))"
  by pat_completeness auto
termination
  by (relation "measure (\<lambda>(acc, nbits, out). nbits)") (auto dest!: match_symbol_Some)

declare drain.simps [simp del]

fun decode_loop :: "bytes \<Rightarrow> u64 \<Rightarrow> nat \<Rightarrow> bytes \<Rightarrow> (HuffmanError, u64 \<times> nat \<times> bytes) result" where
  "decode_loop [] acc nbits out = Ok (acc, nbits, out)"
| "decode_loop (byte # buf) acc nbits out =
     rbind (drain (push_bit 8 acc OR ucast byte) (nbits + 8) out)
       (\<lambda>(acc, nbits, out). decode_loop buf acc nbits out)"

definition decode :: "bytes \<Rightarrow> (HuffmanError, bytes) result" where
  "decode buf =
     rbind (decode_loop buf 0 0 [])
       (\<lambda>(acc, nbits, out).
          if 8 \<le> nbits then Err UndecodedByte
          else let padding_mask = push_bit nbits 1 - 1 in
            if 0 < nbits \<and> acc AND padding_mask \<noteq> padding_mask then Err BadPadding
            else Ok out)"

section \<open>The table is a complete prefix code\<close>

text \<open>The symbols in the order of their codes, aligned to the left of 30 bits.\<close>

definition huff_order :: "nat list" where
  "huff_order = [
   48, 49, 50, 97, 99, 101, 105, 111, 115, 116, 32, 37, 45, 46, 47, 51, 52, 53, 54, 55, 56, 57,
   61, 65, 95, 98, 100, 102, 103, 104, 108, 109, 110, 112, 114, 117, 58, 66, 67, 68, 69, 70,
   71, 72, 73, 74, 75, 76, 77, 78, 79, 80, 81, 82, 83, 84, 85, 86, 87, 89, 106, 107, 113, 118,
   119, 120, 121, 122, 38, 42, 44, 59, 88, 90, 33, 34, 40, 41, 63, 39, 43, 124, 35, 62, 0, 36,
   64, 91, 93, 126, 94, 125, 60, 96, 123, 92, 195, 208, 128, 130, 131, 162, 184, 194, 224, 226,
   153, 161, 167, 172, 176, 177, 179, 209, 216, 217, 227, 229, 230, 129, 132, 133, 134, 136,
   146, 154, 156, 160, 163, 164, 169, 170, 173, 178, 181, 185, 186, 187, 189, 190, 196, 198,
   228, 232, 233, 1, 135, 137, 138, 139, 140, 141, 143, 147, 149, 150, 151, 152, 155, 157, 158,
   165, 166, 168, 174, 175, 180, 182, 183, 188, 191, 197, 231, 239, 9, 142, 144, 145, 148, 159,
   171, 206, 215, 225, 236, 237, 199, 207, 234, 235, 192, 193, 200, 201, 202, 205, 210, 213,
   218, 219, 238, 240, 242, 243, 255, 203, 204, 211, 212, 214, 221, 222, 223, 241, 244, 245,
   246, 247, 248, 250, 251, 252, 253, 254, 2, 3, 4, 5, 6, 7, 8, 11, 12, 14, 15, 16, 17, 18, 19,
   20, 21, 23, 24, 25, 26, 27, 28, 29, 30, 31, 127, 220, 249, 10, 13, 22, 256
  ]"

definition huff_code :: "nat \<Rightarrow> bool list" where
  "huff_code sy = (let (c, l) = TABLE ! sy in word_bits (unat l) c)"

definition huff_entry :: "nat \<Rightarrow> nat \<times> nat" where
  "huff_entry sy = (let (c, l) = TABLE ! sy in (unat c, unat l))"

lemma huff_order_contig: "contig 30 0 (map huff_entry huff_order)"
  unfolding huff_order_def huff_entry_def TABLE_def by simp

lemma huff_order_symbols: "list_all (\<lambda>i. i < 257) huff_order" "length huff_order = 257"
  by (simp_all add: huff_order_def)

text \<open>The intervals are disjoint, so no symbol occurs twice and every symbol occurs.\<close>

lemma set_huff_order: "set huff_order = {..<257}"
proof -
  have "distinct huff_order"
  proof (unfold distinct_conv_nth, intro allI impI)
    fix i j
    assume ij: "i < length huff_order" "j < length huff_order" "i \<noteq> j"
    have "ival 30 (huff_entry (huff_order ! i)) (fst (huff_entry (huff_order ! i)) *
        2 ^ (30 - snd (huff_entry (huff_order ! i))))"
      by (simp add: ival_def)
    with ij contig_disjoint [OF huff_order_contig, of i j] show "huff_order ! i \<noteq> huff_order ! j"
      by fastforce
  qed
  then have "card (set huff_order) = card {..<257::nat}"
    by (simp add: distinct_card huff_order_symbols)
  moreover have "set huff_order \<subseteq> {..<257}"
    using huff_order_symbols by (auto simp: list_all_iff)
  ultimately show ?thesis by (metis card_subset_eq finite_lessThan)
qed

lemma huff_entries_fit: "list_all (\<lambda>(c, l). unat c < 2 ^ unat l) TABLE"
  by (simp add: TABLE_def)

lemma TABLE_code_fits:
  assumes "i < 257" "TABLE ! i = (c, l)"
  shows "take_bit (unat l) c = c"
proof -
  have "unat c < 2 ^ unat l"
    using huff_entries_fit assms by (auto simp: list_all_length)
  then have "unat (take_bit (unat l) c) = unat c"
    by (simp add: unsigned_take_bit_eq take_bit_nat_eq_self)
  then show ?thesis by (rule unsigned_word_eqI)
qed

lemma bval_huff_code: "i < 257 \<Longrightarrow> bval (huff_code i) = fst (huff_entry i)"
  using TABLE_code_fits [of i]
  by (auto simp: huff_code_def huff_entry_def bval_word_bits unsigned_take_bit_eq [symmetric]
      split: prod.split)

lemma length_huff_code: "length (huff_code i) = snd (huff_entry i)"
  by (simp add: huff_code_def huff_entry_def split: prod.split)

lemma length_huff_code_bounds: "i < 257 \<Longrightarrow> 0 < length (huff_code i) \<and> length (huff_code i) \<le> 30"
  using TABLE_length_bounds [of i] by (simp add: huff_code_def case_prod_beta)

lemma pfx_huff_code_iff:
  assumes "i < 257" "length w = 30"
  shows "pfx (huff_code i) w \<longleftrightarrow> ival 30 (huff_entry i) (bval w)"
proof -
  let ?l = "length (huff_code i)"
  have l: "?l \<le> 30" using length_huff_code_bounds [OF assms(1)] by simp
  have "bval w = bval (take ?l w) * 2 ^ (30 - ?l) + bval (drop ?l w)"
    using bval_append [of "take ?l w" "drop ?l w"] assms(2) by simp
  moreover have "bval (drop ?l w) < 2 ^ (30 - ?l)"
    using bval_less [of "drop ?l w"] assms(2) by simp
  ultimately have "bval w div 2 ^ (30 - ?l) = bval (take ?l w)"
    by simp
  then have "ival 30 (huff_entry i) (bval w) \<longleftrightarrow> bval (take ?l w) = bval (huff_code i)"
    by (simp add: ival_def bval_huff_code [OF assms(1)] length_huff_code)
  also have "\<dots> \<longleftrightarrow> take ?l w = huff_code i"
    using bval_inject [of "take ?l w" "huff_code i"] assms(2) l by auto
  finally show ?thesis by (simp add: pfx_def)
qed

lemma huff_prefix_free:
  assumes "i < 257" "j < 257" "pfx (huff_code i) (huff_code j)"
  shows "i = j"
proof -
  let ?w = "huff_code j @ replicate (30 - length (huff_code j)) False"
  have w: "length ?w = 30" using length_huff_code_bounds [OF assms(2)] by simp
  have "ival 30 (huff_entry i) (bval ?w)" "ival 30 (huff_entry j) (bval ?w)"
    using pfx_huff_code_iff [OF assms(1) w] pfx_huff_code_iff [OF assms(2) w]
      pfx_extend [OF assms(3)] by simp_all
  moreover obtain p q where "p < 257" "q < 257" "i = huff_order ! p" "j = huff_order ! q"
    using assms(1,2) set_huff_order huff_order_symbols(2) by (metis in_set_conv_nth lessThan_iff)
  ultimately show ?thesis
    using contig_disjoint [OF huff_order_contig, of p q "bval ?w"]
    by (simp add: huff_order_symbols)
qed

lemma huff_complete:
  assumes "30 \<le> length w"
  shows "\<exists>i<257. pfx (huff_code i) w"
proof -
  let ?v = "take 30 w"
  have v: "length ?v = 30" using assms by simp
  then have "bval ?v < 2 ^ 30" using bval_less [of ?v] by simp
  then obtain i where "i < 257" "ival 30 (huff_entry i) (bval ?v)"
    using contig_cover [OF huff_order_contig, of "bval ?v"] by (auto simp: set_huff_order)
  then have "pfx (huff_code i) ?v" by (simp add: pfx_huff_code_iff [OF _ v])
  then have "pfx (huff_code i) (?v @ drop 30 w)" by (rule pfx_extend)
  with \<open>i < 257\<close> show ?thesis by auto
qed

interpretation huff: prefix_code huff_code 257 30
  by unfold_locales (auto intro: huff_prefix_free huff_complete)

section \<open>The decoder against the code\<close>

lemma entry_matches_iff:
  assumes "unat len \<le> 30" "take_bit (unat len) code = code"
  shows "unat len \<le> nbits \<and> drop_bit (nbits - unat len) acc AND (push_bit (unat len) 1 - 1) = ucast code
    \<longleftrightarrow> pfx (word_bits (unat len) (code :: u32)) (word_bits nbits (acc :: u64))"
proof -
  have "drop_bit (nbits - unat len) acc AND mask (unat len) = ucast code \<longleftrightarrow>
      word_bits (unat len) (drop_bit (nbits - unat len) acc) = word_bits (unat len) code"
    using assms by (intro masked_eq_iff) auto
  then show ?thesis
    unfolding push_1_minus_1 pfx_def length_word_bits
    by (cases "unat len \<le> nbits") (auto simp: take_word_bits dest: arg_cong [where f = length])
qed

lemma match_symbol_from_cases:
  assumes "\<forall>(c, l)\<in>set tab. unat l \<le> 30 \<and> take_bit (unat l) c = c"
  shows "case match_symbol_from s tab acc nbits of
      None \<Rightarrow> \<forall>(c, l)\<in>set tab. \<not> pfx (word_bits (unat l) c) (word_bits nbits acc)
    | Some (i, l) \<Rightarrow> pfx (word_bits l (fst (tab ! (i - s)))) (word_bits nbits acc)"
  using assms
proof (induction s tab acc nbits rule: match_symbol_from.induct)
  case (2 s code len tab acc nbits)
  note hit = entry_matches_iff [of len code nbits acc]
  show ?case
  proof (cases "pfx (word_bits (unat len) code) (word_bits nbits acc)")
    case True
    with hit 2(2) show ?thesis by simp
  next
    case False
    then have eq: "match_symbol_from s ((code, len) # tab) acc nbits
        = match_symbol_from (Suc s) tab acc nbits"
      using hit 2(2) by auto
    have IH: "case match_symbol_from (Suc s) tab acc nbits of
        None \<Rightarrow> \<forall>(c, l)\<in>set tab. \<not> pfx (word_bits (unat l) c) (word_bits nbits acc)
      | Some (i, l) \<Rightarrow> pfx (word_bits l (fst (tab ! (i - Suc s)))) (word_bits nbits acc)"
      using 2 hit False by auto
    show ?thesis
      unfolding eq using IH False match_symbol_from_Some [of "Suc s" tab acc nbits]
      by (auto split: option.splits simp: nth_Cons')
  qed
qed simp

lemma match_symbol_cases:
  "case match_symbol acc nbits of
      None \<Rightarrow> stuck huff_code 257 (word_bits nbits acc)
    | Some (i, l) \<Rightarrow> i < 257 \<and> l = length (huff_code i) \<and> pfx (huff_code i) (word_bits nbits acc)"
proof -
  have "\<forall>(c, l)\<in>set TABLE. unat l \<le> 30 \<and> take_bit (unat l) c = c"
    using TABLE_length_bounds TABLE_code_fits by (fastforce simp: in_set_conv_nth)
  note * = match_symbol_from_cases [OF this, where s = 0 and acc = acc and nbits = nbits]
  show ?thesis
  proof (cases "match_symbol_from 0 TABLE acc nbits")
    case None
    with * show ?thesis
      by (fastforce simp: match_symbol_def stuck_def huff_code_def in_set_conv_nth Ball_def
          split: prod.splits)
  next
    case (Some il)
    with * match_symbol_from_Some [of 0 TABLE acc nbits "fst il" "snd il"] show ?thesis
      by (auto simp: match_symbol_def huff_code_def split: prod.splits)
  qed
qed

definition bits_of :: "bytes \<Rightarrow> bool list" where
  "bits_of buf = concat (map (word_bits 8) buf)"

lemma bits_of_simps [simp]: "bits_of [] = []" "bits_of (b # bs) = word_bits 8 b @ bits_of bs"
  by (simp_all add: bits_of_def)

text \<open>
  What one run of a loop has consumed: the symbols \<open>xs\<close> were appended to the output, and the
  pending bits match no code word; or the next code word was the end-of-string symbol.
\<close>

definition consumed ::
  "bool list \<Rightarrow> bytes \<Rightarrow> (HuffmanError, u64 \<times> nat \<times> bytes) result \<Rightarrow> bool" where
  "consumed w out r \<longleftrightarrow>
     (case r of
        Inl e \<Rightarrow> e = EosInStream \<and> (\<exists>xs v. (\<forall>x\<in>set xs. x < 256) \<and> w = codes huff_code (xs @ [256]) @ v)
      | Inr (acc, nbits, out') \<Rightarrow>
          stuck huff_code 257 (word_bits nbits acc) \<and>
          (\<exists>xs. (\<forall>x\<in>set xs. x < 256) \<and> out' = out @ map of_nat xs
             \<and> w = codes huff_code xs @ word_bits nbits acc))"

lemma consumed_cons:
  assumes "consumed w (out @ [of_nat x]) r" "x < 256"
  shows "consumed (huff_code x @ w) out r"
proof -
  have *: "\<exists>ys. (\<forall>y\<in>set ys. y < 256) \<and> P ys" if "P (x # xs)" "\<forall>y\<in>set xs. y < 256" for P xs
    using that assms(2) by (intro exI [of _ "x # xs"]) auto
  show ?thesis
    using assms(1) unfolding consumed_def
    by (auto split: sum.splits simp: codes_simps intro!: *)
qed

lemma drain_consumed:
  "nbits \<le> 64 \<Longrightarrow> consumed (word_bits nbits acc) out (drain acc nbits out)"
proof (induction acc nbits out rule: drain.induct)
  case (1 acc nbits out)
  show ?case
  proof (cases "match_symbol acc nbits")
    case None
    with match_symbol_cases [of nbits acc] show ?thesis
      by (auto simp: drain.simps [where acc = acc and nbits = nbits] consumed_def codes_simps intro!: exI [of _ "[]"])
  next
    case (Some il)
    then obtain i l where il: "match_symbol acc nbits = Some (i, l)" by (cases il) auto
    then have i: "i < 257" "l = length (huff_code i)" "pfx (huff_code i) (word_bits nbits acc)"
      using match_symbol_cases [of nbits acc] by auto
    let ?acc = "acc AND (push_bit (nbits - l) 1 - 1)"
    have rest: "word_bits nbits acc = huff_code i @ word_bits (nbits - l) ?acc"
      using pfx_split [OF i(3)] 1(2) i(2) unfolding push_1_minus_1 by (simp add: drop_word_bits)
    show ?thesis
    proof (cases "i = 256")
      case True
      then have "\<exists>xs v. (\<forall>x\<in>set xs. x < 256) \<and> word_bits nbits acc = codes huff_code (xs @ [256]) @ v"
        using rest by (intro exI [of _ "[]"] exI [of _ "word_bits (nbits - l) ?acc"])
          (simp add: codes_simps)
      with True il show ?thesis
        by (simp add: drain.simps [where acc = acc and nbits = nbits] consumed_def)
    next
      case False
      then have "consumed (word_bits (nbits - l) ?acc) (out @ [of_nat i])
          (drain ?acc (nbits - l) (out @ [of_nat i]))"
        using 1(1) [OF il] 1(2) by simp
      with False i(1) il rest show ?thesis
        using consumed_cons [of "word_bits (nbits - l) ?acc" out i] by (simp add: drain.simps [where acc = acc and nbits = nbits])
    qed
  qed
qed

lemma decode_loop_consumed:
  assumes "stuck huff_code 257 (word_bits nbits acc)"
  shows "consumed (word_bits nbits acc @ bits_of buf) out (decode_loop buf acc nbits out)"
  using assms
proof (induction buf arbitrary: acc nbits out)
  case Nil
  then show ?case by (auto simp: consumed_def codes_simps intro!: exI [of _ "[]"])
next
  case (Cons b buf)
  let ?acc = "push_bit 8 acc OR ucast b"
  have n: "nbits < 30" using huff.stuck_short [OF Cons.prems] by simp
  then have w: "word_bits (nbits + 8) ?acc = word_bits nbits acc @ word_bits 8 b"
    by (intro word_bits_push) simp
  have d: "consumed (word_bits nbits acc @ word_bits 8 b) out (drain ?acc (nbits + 8) out)"
    using drain_consumed [of "nbits + 8" ?acc out] n w by simp
  show ?case
  proof (cases "drain ?acc (nbits + 8) out")
    case (Inl e)
    with d obtain xs v where "e = EosInStream" "\<forall>x\<in>set xs. x < 256"
      "word_bits nbits acc @ word_bits 8 b = codes huff_code (xs @ [256]) @ v"
      by (auto simp: consumed_def)
    then show ?thesis
      using Inl by (auto simp: consumed_def simp flip: append_assoc
          intro!: exI [of _ xs] exI [of _ "v @ bits_of buf"])
  next
    case (Inr r)
    then obtain a m o' where r: "drain ?acc (nbits + 8) out = Ok (a, m, o')" by (cases r) auto
    with d obtain xs where xs: "\<forall>x\<in>set xs. x < 256" "o' = out @ map of_nat xs"
      "word_bits nbits acc @ word_bits 8 b = codes huff_code xs @ word_bits m a"
      "stuck huff_code 257 (word_bits m a)"
      by (auto simp: consumed_def)
    have "consumed (word_bits m a @ bits_of buf) o' (decode_loop buf a m o')"
      by (rule Cons.IH) (rule xs(4))
    with xs(1,2) have "consumed (codes huff_code xs @ word_bits m a @ bits_of buf) out
        (decode_loop buf a m o')"
    proof (induction xs arbitrary: out)
      case (Cons x xs)
      then have "consumed (codes huff_code xs @ word_bits m a @ bits_of buf) (out @ [of_nat x])
          (decode_loop buf a m o')"
        by simp
      with Cons.prems(1) consumed_cons show ?case by (simp add: codes_simps)
    qed (simp add: codes_simps)
    with xs(3) r show ?thesis by (simp flip: append_assoc)
  qed
qed

lemma stuck_Nil: "stuck huff_code 257 []"
  using length_huff_code_bounds pfx_length by (fastforce simp: stuck_def)

lemma decode_loop_whole: "consumed (bits_of buf) [] (decode_loop buf 0 0 [])"
  using decode_loop_consumed [of 0 0 buf "[]"] stuck_Nil by (simp add: word_bits_def)

lemma padding_mask_iff:
  assumes "nbits \<le> 64"
  shows "acc AND mask nbits = (mask nbits :: u64) \<longleftrightarrow> list_all (\<lambda>b. b) (word_bits nbits acc)"
proof -
  have "acc AND mask nbits = (mask nbits :: u64) \<longleftrightarrow> (\<forall>i<nbits. bit acc i)"
    using assms by (auto simp: bit_eq_iff bit_simps) (metis less_le_trans)
  then show ?thesis by (auto simp: word_bits_def list_all_iff)
qed

lemma eos_code: "huff_code 256 = replicate 30 True"
proof -
  have "TABLE ! 256 = (1073741823, 30)" by (simp add: TABLE_def)
  moreover have "(1073741823 :: u32) = mask 30" by (simp add: mask_eq_exp_minus_1)
  ultimately have "huff_code 256 = word_bits 30 (mask 30 :: u32)" by (simp add: huff_code_def)
  also have "\<dots> = replicate 30 True"
    by (rule nth_equalityI) (auto simp: nth_word_bits bit_simps)
  finally show ?thesis .
qed

lemma padding_stuck:
  assumes "length pad < 8" "list_all (\<lambda>b. b) pad"
  shows "stuck huff_code 257 pad"
proof -
  have "pad = replicate (length pad) True"
    using assms(2) by (induction pad) auto
  then have pad: "huff_code 256 = pad @ replicate (30 - length pad) True"
    using replicate_add [of "length pad" "30 - length pad" True] assms(1) by (simp add: eos_code)
  have "\<not> pfx (huff_code i) pad" if "i < 257" for i
  proof
    assume *: "pfx (huff_code i) pad"
    then have "pfx (huff_code i) (huff_code 256)" unfolding pad by (rule pfx_extend)
    then have "i = 256" using huff_prefix_free [of i 256] that by simp
    with * pfx_length [OF *] assms(1) show False by (simp add: eos_code)
  qed
  then show ?thesis by (simp add: stuck_def)
qed

lemma map_unat_of_nat: "\<forall>x\<in>set xs. x < 256 \<Longrightarrow> map unat (map of_nat xs :: bytes) = xs"
  by (induction xs) (auto simp: unat_of_nat)

lemma unat_byte_less: "x \<in> set (map unat (bs :: bytes)) \<Longrightarrow> x < 256"
  using unsigned_less [where 'a = nat and 'b = 8] by auto

lemma decode_of_parse:
  assumes "bits_of buf = codes huff_code (map unat out) @ pad" "stuck huff_code 257 pad"
  shows "\<exists>acc. decode_loop buf 0 0 [] = Ok (acc, length pad, out) \<and> word_bits (length pad) acc = pad"
proof -
  have out: "\<forall>x\<in>set (map unat out). x < 257" "\<forall>x\<in>set (map unat out). x < 256"
    using unat_byte_less by fastforce+
  show ?thesis
  proof (cases "decode_loop buf 0 0 []")
    case (Inl e)
    then obtain xs v where xs: "\<forall>x\<in>set xs. x < 256" "bits_of buf = codes huff_code (xs @ [256]) @ v"
      using decode_loop_whole [of buf] by (auto simp: consumed_def)
    then have "\<forall>y\<in>set (xs @ [256]). y < 257" by auto
    with xs assms huff.parse_unique [OF _ assms(2) out(1), of "xs @ [256]" v]
    obtain zs where "map unat out = (xs @ [256]) @ zs" by auto
    then have "256 \<in> set (map unat out)" by simp
    with out(2) show ?thesis by blast
  next
    case (Inr r)
    then obtain acc n o' where r: "decode_loop buf 0 0 [] = Ok (acc, n, o')" by (cases r) auto
    then obtain xs where xs: "\<forall>x\<in>set xs. x < 256" "o' = map of_nat xs"
      "bits_of buf = codes huff_code xs @ word_bits n acc" "stuck huff_code 257 (word_bits n acc)"
      using decode_loop_whole [of buf] by (auto simp: consumed_def)
    then have "\<forall>y\<in>set xs. y < 257" by auto
    with xs assms out(1) huff.parse_unique [OF _ assms(2) out(1), of xs "word_bits n acc"]
      huff.parse_unique [OF _ xs(4) _ out(1), of xs pad]
    have "map unat out = xs" "pad = word_bits n acc" by auto
    moreover from this(1) have "o' = out" using xs(2) by (auto simp: comp_def)
    ultimately show ?thesis using r by auto
  qed
qed

section \<open>Properties\<close>

text \<open>
  C6: the Huffman decoder returns \<open>out\<close> exactly when the bits of the buffer are the
  code words of \<open>out\<close>, in order, followed by fewer than eight one bits; in particular the
  accumulator never loses a bit, and the decoding is unique.
\<close>

theorem decode_accepts_iff:
  "decode buf = Ok out \<longleftrightarrow>
     (\<exists>pad. bits_of buf = codes huff_code (map unat out) @ pad
        \<and> length pad < 8 \<and> list_all (\<lambda>b. b) pad)"
proof
  assume "decode buf = Ok out"
  then obtain acc n where r: "decode_loop buf 0 0 [] = Ok (acc, n, out)" "n < 8"
    "n = 0 \<or> acc AND mask n = mask n"
    unfolding decode_def push_1_minus_1 by (auto simp: rbind_Inr_iff Let_def not_le split: if_splits)
  then obtain xs where xs: "\<forall>x\<in>set xs. x < 256" "out = map of_nat xs"
    "bits_of buf = codes huff_code xs @ word_bits n acc"
    using decode_loop_whole [of buf] by (auto simp: consumed_def)
  moreover have "list_all (\<lambda>b. b) (word_bits n acc)"
    using r(2,3) padding_mask_iff [of n acc] by (auto simp: word_bits_def)
  ultimately show "\<exists>pad. bits_of buf = codes huff_code (map unat out) @ pad
        \<and> length pad < 8 \<and> list_all (\<lambda>b. b) pad"
    using r(2) map_unat_of_nat [OF xs(1)] by (intro exI [of _ "word_bits n acc"]) simp
next
  assume "\<exists>pad. bits_of buf = codes huff_code (map unat out) @ pad
        \<and> length pad < 8 \<and> list_all (\<lambda>b. b) pad"
  then obtain pad where pad: "bits_of buf = codes huff_code (map unat out) @ pad" "length pad < 8"
    "list_all (\<lambda>b. b) pad" by blast
  then obtain acc where "decode_loop buf 0 0 [] = Ok (acc, length pad, out)"
    "word_bits (length pad) acc = pad"
    using decode_of_parse padding_stuck by blast
  with pad show "decode buf = Ok out"
    using padding_mask_iff [of "length pad" acc] unfolding decode_def push_1_minus_1 by (simp add: Let_def)
qed

text \<open>
  The decoder reports the end-of-string symbol exactly when some sequence of byte
  code words in the buffer is followed by the code word of that symbol.
\<close>

lemma decode_rejects_eos_iff:
  "decode buf = Err EosInStream \<longleftrightarrow>
     (\<exists>out rest. bits_of buf = codes huff_code (map unat (out :: bytes)) @ huff_code 256 @ rest)"
proof
  assume "decode buf = Err EosInStream"
  then have "decode_loop buf 0 0 [] = Err EosInStream"
    by (auto simp: decode_def rbind_Inl_iff Let_def split: if_splits)
  then obtain xs v where xs: "\<forall>x\<in>set xs. x < 256" "bits_of buf = codes huff_code (xs @ [256]) @ v"
    using decode_loop_whole [of buf] by (auto simp: consumed_def)
  then show "\<exists>out rest. bits_of buf = codes huff_code (map unat (out :: bytes)) @ huff_code 256 @ rest"
    using map_unat_of_nat [OF xs(1)]
    by (intro exI [of _ "map of_nat xs"] exI [of _ v]) (simp add: codes_simps)
next
  assume "\<exists>out rest. bits_of buf = codes huff_code (map unat (out :: bytes)) @ huff_code 256 @ rest"
  then obtain out :: bytes and rest where
    *: "bits_of buf = codes huff_code (map unat out @ [256]) @ rest" by (auto simp: codes_simps)
  have bound: "\<forall>y\<in>set (map unat out @ [256]). y < 257"
    using unat_byte_less [of _ out] by fastforce
  show "decode buf = Err EosInStream"
  proof (cases "decode_loop buf 0 0 []")
    case (Inl e)
    then show ?thesis using decode_loop_whole [of buf] by (auto simp: decode_def consumed_def)
  next
    case (Inr r)
    then obtain acc n o' where "decode_loop buf 0 0 [] = Ok (acc, n, o')" by (cases r) auto
    then obtain xs where xs: "\<forall>x\<in>set xs. x < 256"
      "bits_of buf = codes huff_code xs @ word_bits n acc" "stuck huff_code 257 (word_bits n acc)"
      using decode_loop_whole [of buf] by (auto simp: consumed_def)
    then have "\<forall>x\<in>set xs. x < 257" by auto
    with xs * huff.parse_unique [OF _ xs(3) _ bound, of xs rest]
    obtain zs where "xs = (map unat out @ [256]) @ zs" by auto
    then have "256 \<in> set xs" by simp
    with xs(1) show ?thesis by blast
  qed
qed

end
