(* ===== verification/Qpack.thy ===== *)
theory Qpack
  imports Varint Huffman
begin

text \<open>
  \<^verbatim>\<open>outbound/masque/qpack.rs\<close>: prefix integers, string literals, H3 frames, the CONNECT
  request's field section, and the reader of the response's field section.  Positions are
  natural numbers; sums of positions and lengths that the source forms with \<^verbatim>\<open>checked_add\<close>
  carry the check against \<open>2 ^ 64\<close>.  What field lines mean is stated over the static table of
  RFC 9204, apart from the tables of the code.
\<close>

datatype QpackError = IntOutOfRange | IntContOutOfRange | IntTooLong | NameLenOverflow
  | NameOutOfRange | ValueLenOutOfRange | ValueLenOverflow | ValueOutOfRange | HuffmanFailed
  | PostBaseField | StatusMissing

section \<open>Encoding\<close>

text \<open>The \<^verbatim>\<open>while rest >= 128\<close> loop and the final byte.\<close>

function encode_cont :: "u64 \<Rightarrow> bytes" where
  "encode_cont rest =
     (if 128 \<le> rest then (ucast (rest AND 0x7f) OR 0x80) # encode_cont (drop_bit 7 rest)
      else [ucast rest])"
  by pat_completeness auto
termination
proof (relation "measure unat")
  fix rest :: u64
  assume "128 \<le> rest"
  then have "128 \<le> unat rest" by (simp add: word_le_nat_alt)
  then show "(drop_bit 7 rest, rest) \<in> measure unat"
    by (simp add: unat_div drop_bit_eq_div)
qed simp

declare encode_cont.simps [simp del]

definition encode_integer :: "bytes \<Rightarrow> u64 \<Rightarrow> nat \<Rightarrow> u8 \<Rightarrow> bytes" where
  "encode_integer out value prefix_bits prefix_max =
     (let max = push_bit prefix_bits 1 - 1 in
      if value < max then out @ [prefix_max OR ucast value]
      else out @ [prefix_max OR ucast max] @ encode_cont (value - max))"

definition encode_string :: "bytes \<Rightarrow> bytes \<Rightarrow> bytes" where
  "encode_string out s = encode_integer out (of_nat (length s)) 7 0x00 @ s"

definition write_frame :: "venc \<Rightarrow> bytes \<Rightarrow> u64 \<Rightarrow> bytes \<Rightarrow> bytes option" where
  "write_frame venc out frame_type payload =
     (case varint_write venc out frame_type of
        None \<Rightarrow> None
      | Some out1 \<Rightarrow> map_option (\<lambda>out2. out2 @ payload) (varint_write venc out1 (of_nat (length payload))))"

definition encode_connect_request :: "string \<Rightarrow> string \<Rightarrow> bytes" where
  "encode_connect_request authority bearer_token =
     (let out = [0x00, 0x00, 0xCF, 0x50];
          out = encode_string out (str_bytes authority);
          out = out @ [0x7F, 0x45]
      in encode_string out (str_bytes bearer_token))"

definition headers_frame :: "venc \<Rightarrow> bytes \<Rightarrow> bytes option" where
  "headers_frame venc qpack_payload = write_frame venc [] 0x01 qpack_payload"

definition data_frame :: "venc \<Rightarrow> bytes \<Rightarrow> bytes \<Rightarrow> bytes option" where
  "data_frame venc out payload = write_frame venc out 0x00 payload"

definition control_stream_prelude :: "venc \<Rightarrow> bytes option" where
  "control_stream_prelude venc = write_frame venc [0x00] 0x04 []"

section \<open>Decoding\<close>

text \<open>The \<^verbatim>\<open>loop\<close> over the continuation bytes.\<close>

function decode_cont :: "bytes \<Rightarrow> nat \<Rightarrow> nat \<Rightarrow> u64 \<Rightarrow> (QpackError, u64 \<times> nat) result" where
  "decode_cont buf p shift value =
     (if length buf \<le> p then Err IntContOutOfRange
      else
        let b = buf ! p; value = value + push_bit shift (ucast (b AND 0x7f)) in
        if b AND 0x80 = 0 then Ok (value, p + 1)
        else if 56 < shift + 7 then Err IntTooLong
        else decode_cont buf (p + 1) (shift + 7) value)"
  by pat_completeness auto
termination
  by (relation "measure (\<lambda>(buf, p, shift, value). length buf - p)") auto

declare decode_cont.simps [simp del]

definition decode_integer :: "bytes \<Rightarrow> nat \<Rightarrow> nat \<Rightarrow> (QpackError, u64 \<times> nat) result" where
  "decode_integer buf pos prefix_bits =
     (let max = push_bit prefix_bits 1 - 1 :: u64; mask = ucast max :: u8 in
      if length buf \<le> pos then Err IntOutOfRange
      else
        let value = ucast (buf ! pos AND mask) in
        if value < max then Ok (value, pos + 1)
        else decode_cont buf (pos + 1) 0 value)"

definition skip_integer :: "bytes \<Rightarrow> nat \<Rightarrow> nat \<Rightarrow> (QpackError, nat) result" where
  "skip_integer buf pos prefix_bits =
     rbind (decode_integer buf pos prefix_bits) (\<lambda>(_, p). Ok p)"

definition checked_add_usize :: "nat \<Rightarrow> u64 \<Rightarrow> nat option" where
  "checked_add_usize a b = (if a + unat b < 2 ^ 64 then Some (a + unat b) else None)"

definition decode_string :: "bytes \<Rightarrow> bool \<Rightarrow> (QpackError, bytes) result" where
  "decode_string raw huffman =
     (if huffman then rmap_err (\<lambda>_. HuffmanFailed) (decode raw) else Ok raw)"

definition read_literal_value :: "bytes \<Rightarrow> nat \<Rightarrow> (QpackError, bytes \<times> nat) result" where
  "read_literal_value payload pos =
     (if length payload \<le> pos then Err ValueLenOutOfRange
      else
        let huffman = (payload ! pos AND 0x80 \<noteq> 0) in
        rbind (decode_integer payload pos 7) (\<lambda>(len, start).
        rbind (ok_or ValueLenOverflow (checked_add_usize start len)) (\<lambda>end.
        if length payload < end then Err ValueOutOfRange
        else rbind (decode_string (slice payload start end) huffman) (\<lambda>v. Ok (v, end)))))"

definition skip_literal_value :: "bytes \<Rightarrow> nat \<Rightarrow> (QpackError, nat) result" where
  "skip_literal_value payload pos =
     rbind (decode_integer payload pos 7) (\<lambda>(len, start).
     rbind (ok_or ValueLenOverflow (checked_add_usize start len)) (\<lambda>end.
     if length payload < end then Err ValueOutOfRange else Ok end))"

definition static_status :: "u64 \<Rightarrow> u16 option" where
  "static_status idx =
     map_of [(24, 103), (25, 200), (26, 304), (27, 404), (28, 503), (63, 100), (64, 204),
       (65, 206), (66, 302), (67, 400), (68, 403), (69, 421), (70, 425), (71, 500)] idx"

record ResponseHeaders =
  resp_status :: u16
  resp_colo :: "string option"

text \<open>
  One turn of the \<^verbatim>\<open>while pos < payload.len()\<close> loop: the new position, status and colo.
\<close>

definition header_line ::
  "bytes \<Rightarrow> nat \<Rightarrow> u16 option \<Rightarrow> string option \<Rightarrow> (QpackError, nat \<times> u16 option \<times> string option) result"
  where
  "header_line payload pos status colo =
     (let b = payload ! pos in
      if b AND 0x80 \<noteq> 0 then
        rbind (decode_integer payload pos 6) (\<lambda>(idx, n).
          Ok (n,
              (if b AND 0x40 \<noteq> 0 then
                 (if idx = 25 then Some 200
                  else case static_status idx of Some code \<Rightarrow> Some code | None \<Rightarrow> status)
               else status),
              colo))
      else if b AND 0xc0 = 0x40 then
        rbind (decode_integer payload pos 4) (\<lambda>(_, n).
        rbind (skip_literal_value payload n) (\<lambda>pos. Ok (pos, status, colo)))
      else if b AND 0xe0 = 0x20 then
        let name_huffman = (b AND 0x08 \<noteq> 0) in
        rbind (decode_integer payload pos 3) (\<lambda>(name_len, n).
        rbind (ok_or NameLenOverflow (checked_add_usize n name_len)) (\<lambda>name_end.
        if length payload < name_end then Err NameOutOfRange
        else
          rbind (decode_string (slice payload n name_end) name_huffman) (\<lambda>name.
          rbind (read_literal_value payload name_end) (\<lambda>(value, new_pos).
            Ok (new_pos, status,
                if name = str_bytes ''cf-warp-colo'' then from_utf8 value else colo)))))
      else Err PostBaseField)"

lemma decode_cont_pos: "decode_cont buf p shift v0 = Ok (v, q) \<Longrightarrow> p < q \<and> q \<le> length buf"
proof (induction buf p shift v0 rule: decode_cont.induct)
  case (1 buf p shift v0)
  then show ?case
    using decode_cont.simps [of buf p shift v0] by (fastforce simp: Let_def split: if_splits)
qed

lemma decode_integer_pos: "decode_integer buf pos n = Ok (v, p) \<Longrightarrow> pos < p \<and> p \<le> length buf"
  by (auto simp: decode_integer_def Let_def dest!: decode_cont_pos split: if_splits)

lemma skip_literal_value_pos: "skip_literal_value buf pos = Ok p \<Longrightarrow> pos < p \<and> p \<le> length buf"
  by (auto simp: skip_literal_value_def rbind_Inr_iff ok_or_Inr_iff checked_add_usize_def
      dest!: decode_integer_pos split: if_splits)

lemma read_literal_value_pos:
  "read_literal_value buf pos = Ok (v, p) \<Longrightarrow> pos < p \<and> p \<le> length buf"
  by (auto simp: read_literal_value_def rbind_Inr_iff ok_or_Inr_iff checked_add_usize_def Let_def
      dest!: decode_integer_pos split: if_splits)

lemma header_line_pos: "header_line buf pos st co = Ok (p, st', co') \<Longrightarrow> pos < p \<and> p \<le> length buf"
  by (auto simp: header_line_def rbind_Inr_iff ok_or_Inr_iff checked_add_usize_def Let_def
      dest!: decode_integer_pos skip_literal_value_pos read_literal_value_pos split: if_splits)

function header_lines ::
  "bytes \<Rightarrow> nat \<Rightarrow> u16 option \<Rightarrow> string option \<Rightarrow> (QpackError, u16 option \<times> string option) result"
  where
  "header_lines payload pos status colo =
     (if pos < length payload then
        rbind (header_line payload pos status colo)
          (\<lambda>(pos, status, colo). header_lines payload pos status colo)
      else Ok (status, colo))"
  by pat_completeness auto
termination
  by (relation "measure (\<lambda>(payload, pos, status, colo). length payload - pos)")
     (auto dest!: header_line_pos)

declare header_lines.simps [simp del]

definition decode_headers :: "bytes \<Rightarrow> (QpackError, ResponseHeaders) result" where
  "decode_headers payload =
     rbind (skip_integer payload 0 8) (\<lambda>pos.
     rbind (skip_integer payload pos 7) (\<lambda>pos.
     rbind (header_lines payload pos None None) (\<lambda>(status, colo).
     rbind (ok_or StatusMissing status) (\<lambda>status.
       Ok \<lparr>resp_status = status, resp_colo = colo\<rparr>))))"

section \<open>Prefix integers\<close>

lemma seven_bits: "(0x7f :: 'a::len word) = mask 7"
  by (simp add: mask_eq_exp_minus_1)

lemma bit_eighth: "bit (0x80 :: int) n \<longleftrightarrow> n = 7"
proof -
  have "(0x80 :: int) = 2 ^ 7" by simp
  then show ?thesis by (simp only: bit_exp_iff) auto
qed

lemma cont_byte_high:
  "(ucast (rest AND 0x7f :: u64) OR 0x80 :: u8) AND 0x80 \<noteq> 0"
  "(ucast (rest AND 0x7f :: u64) OR 0x80 :: u8) AND 0x7f = ucast (rest AND 0x7f)"
proof -
  have "bit ((ucast (rest AND 0x7f) OR 0x80 :: u8) AND 0x80) 7"
    by (simp add: bit_and_iff bit_or_iff bit_eighth)
  then show "(ucast (rest AND 0x7f :: u64) OR 0x80 :: u8) AND 0x80 \<noteq> 0" by auto
  show "(ucast (rest AND 0x7f :: u64) OR 0x80 :: u8) AND 0x7f = ucast (rest AND 0x7f)"
    unfolding seven_bits by (rule bit_word_eqI) (auto simp: bit_simps bit_eighth)
qed

lemma last_byte_low:
  assumes "(rest :: u64) < 128"
  shows "(ucast rest :: u8) AND 0x80 = 0" "(ucast rest :: u8) AND 0x7f = ucast rest"
proof -
  have "take_bit 7 rest = rest"
    using assms by (simp add: word_less_nat_alt unsigned_take_bit_eq take_bit_nat_eq_self
        word_eq_iff_unsigned [where 'a = nat])
  then have *: "\<not> bit rest i" if "7 \<le> i" for i
    using that by (metis bit_take_bit_iff not_less)
  show "(ucast rest :: u8) AND 0x80 = 0"
    by (rule bit_word_eqI) (auto simp: bit_and_iff bit_eighth bit_ucast_iff *)
  have "i < 7" if "bit rest i" for i using that * not_le by blast
  then show "(ucast rest :: u8) AND 0x7f = ucast rest"
    unfolding seven_bits by (intro bit_word_eqI) (auto simp: bit_simps)
qed

lemma ucast_seven: "(ucast (ucast (rest AND 0x7f :: u64) :: u8) :: u64) = of_nat (unat rest mod 128)"
proof -
  have "(ucast (ucast (rest AND 0x7f :: u64) :: u8) :: u64) = take_bit 7 rest"
    unfolding seven_bits by (rule bit_word_eqI) (auto simp: bit_simps)
  also have "\<dots> = of_nat (unat (take_bit 7 rest))" by simp
  also have "unat (take_bit 7 rest) = unat rest mod 128"
    by (simp add: take_bit_eq_mod unat_mod)
  finally show ?thesis .
qed

lemma decode_cont_encode:
  assumes "k \<le> 8"
  shows "decode_cont (pre @ encode_cont rest @ post) (length pre) (7 * k) v0 =
    (if unat rest < 2 ^ (63 - 7 * k)
     then Ok (v0 + of_nat (unat rest * 2 ^ (7 * k)), length pre + length (encode_cont rest))
     else Err IntTooLong)"
  using assms
proof (induction rest arbitrary: pre k v0 rule: encode_cont.induct)
  case (1 rest)
  let ?r = "unat rest"
  show ?case
  proof (cases "128 \<le> rest")
    case False
    then have lo: "rest < 128" "?r < 128" by (simp_all add: word_less_nat_alt not_le)
    have "(2 :: nat) ^ 7 \<le> 2 ^ (63 - 7 * k)" using 1(2) by (intro power_increasing) auto
    then have "?r < 2 ^ (63 - 7 * k)" using lo(2) by simp
    moreover have "(ucast (ucast rest :: u8) :: u64) = rest"
      using lo(2) by (simp add: word_eq_iff_unsigned [where 'a = nat] unsigned_ucast_eq
          unsigned_take_bit_eq take_bit_nat_eq_self)
    ultimately show ?thesis
      using False last_byte_low [OF lo(1)]
      by (simp add: encode_cont.simps [of rest] decode_cont.simps [of _ "length pre"]
          push_bit_eq_mult)
  next
    case True
    let ?b = "ucast (rest AND 0x7f) OR 0x80 :: u8" and ?d = "drop_bit 7 rest"
    have hi: "128 \<le> ?r" using True by (simp add: word_le_nat_alt)
    have d: "unat ?d = ?r div 128" by (simp add: unat_div drop_bit_eq_div)
    have enc: "encode_cont rest = ?b # encode_cont ?d" using True by (simp add: encode_cont.simps [of rest])
    let ?v = "v0 + push_bit (7 * k) (of_nat (?r mod 128))"
    have step: "decode_cont (pre @ encode_cont rest @ post) (length pre) (7 * k) v0 =
      (if 56 < 7 * k + 7 then Err IntTooLong
       else decode_cont ((pre @ [?b]) @ encode_cont ?d @ post) (length (pre @ [?b])) (7 * Suc k) ?v)"
      using cont_byte_high [of rest]
      by (subst decode_cont.simps) (simp add: enc ucast_seven add.commute)
    show ?thesis
    proof (cases "k = 8")
      case True
      with hi step show ?thesis by simp
    next
      case False
      then have k: "Suc k \<le> 8" using 1(2) by simp
      have e: "(63 :: nat) - 7 * k = 7 + (63 - 7 * Suc k)" using k by simp
      have small: "?r div 128 < 2 ^ (63 - 7 * Suc k) \<longleftrightarrow> ?r < 2 ^ (63 - 7 * k)"
        unfolding e power_add by (simp add: div_less_iff_less_mult mult.commute)
      have "v0 + push_bit (7 * k) (of_nat m) + of_nat (q * 2 ^ (7 * Suc k))
          = v0 + of_nat ((m + q * 128) * 2 ^ (7 * k))" for m q
        by (simp add: push_bit_eq_mult power_add algebra_simps)
      from this [of "?r mod 128" "?r div 128"]
      have sum: "?v + of_nat (?r div 128 * 2 ^ (7 * Suc k)) = v0 + of_nat (?r * 2 ^ (7 * k))"
        by (simp only: mod_div_mult_eq)
      have n56: "\<not> 56 < 7 * k + 7" using k by simp
      show ?thesis
        unfolding step using n56 1(1) [OF True k, of "pre @ [?b]" ?v]
        unfolding d small sum by (simp add: enc)
    qed
  qed
qed

lemma encode_integer_append:
  "encode_integer out v n hi = out @ encode_integer [] v n hi"
  by (simp add: encode_integer_def Let_def)

lemma encode_integer_ne [simp]: "encode_integer [] v n hi \<noteq> []"
  by (simp add: encode_integer_def Let_def)

lemma ucast_push_mask: "n \<le> 8 \<Longrightarrow> ucast (push_bit n 1 - 1 :: u64) = (mask n :: u8)"
  unfolding push_1_minus_1 by (rule bit_word_eqI) (auto simp: bit_simps)

text \<open>The first byte keeps its flag bits, and its low bits are the value or all ones.\<close>

lemma hd_encode_integer:
  assumes "n \<le> 8"
  shows "hd (encode_integer [] v n hi) AND NOT (mask n) = hi AND NOT (mask n)"
proof -
  have "(ucast v :: u8) AND NOT (mask n) = 0" if "v < mask n"
  proof -
    have "take_bit n v = v"
      using that by (intro le_mask_take_bit) simp
    then have "i < n" if "bit v i" for i using that by (metis bit_take_bit_iff)
    then show ?thesis by (intro bit_word_eqI) (auto simp: bit_simps)
  qed
  moreover have "(ucast (mask n :: u64) :: u8) AND NOT (mask n) = 0"
    by (rule bit_word_eqI) (auto simp: bit_simps)
  ultimately show ?thesis
    unfolding encode_integer_def push_1_minus_1
    by (auto simp: Let_def bit.conj_disj_distrib2)
qed

lemma decode_integer_encode:
  assumes "0 < n" "n \<le> 8" "hi AND mask n = 0"
  shows "decode_integer (pre @ encode_integer [] v n hi @ post) (length pre) n =
    (if unat v < 2 ^ 63 + (2 ^ n - 1)
     then Ok (v, length pre + length (encode_integer [] v n hi)) else Err IntTooLong)"
proof -
  let ?m = "mask n :: u64"
  have m: "unat ?m = 2 ^ n - 1" using assms(2) by (simp add: unat_mask_eq)
  have m': "?m = push_bit n 1 - 1" by (simp only: push_1_minus_1)
  have low: "ucast ((hi OR ucast w) AND mask n) = w" if "w \<le> ?m" for w :: u64
  proof -
    have "(hi OR ucast w) AND mask n = (ucast w :: u8) AND mask n"
      using assms(3) by (simp add: bit.conj_disj_distrib2)
    then have "(ucast ((hi OR ucast w) AND mask n) :: u64) = take_bit n w"
      using assms(2) by (intro bit_word_eqI) (auto simp: bit_simps)
    then show ?thesis using le_mask_take_bit [OF that] by simp
  qed
  show ?thesis
  proof (cases "v < ?m")
    case True
    then have "unat v < 2 ^ 63 + (2 ^ n - 1)" using m by (simp add: word_less_nat_alt)
    with True low [of v] show ?thesis
      unfolding decode_integer_def encode_integer_def m' [symmetric]
      using ucast_push_mask [OF assms(2)] by (simp add: Let_def m')
  next
    case False
    then have le: "?m \<le> v" by simp
    then have "unat (v - ?m) = unat v - (2 ^ n - 1)" "2 ^ n - 1 \<le> unat v"
      using m by (simp_all add: unat_sub word_le_nat_alt)
    then have small: "unat (v - ?m) < 2 ^ 63 \<longleftrightarrow> unat v < 2 ^ 63 + (2 ^ n - 1)" by linarith
    let ?pre = "pre @ [hi OR ucast ?m]"
    have enc: "encode_integer [] v n hi = (hi OR ucast ?m) # encode_cont (v - ?m)"
      using False by (simp add: encode_integer_def Let_def m')
    have "decode_integer (pre @ encode_integer [] v n hi @ post) (length pre) n
        = decode_cont (?pre @ encode_cont (v - ?m) @ post) (length ?pre) (7 * 0) ?m"
      unfolding decode_integer_def enc using ucast_push_mask [OF assms(2)] low [of ?m]
      by (simp add: Let_def m')
    also have "\<dots> = (if unat (v - ?m) < 2 ^ 63
        then Ok (?m + of_nat (unat (v - ?m)), length ?pre + length (encode_cont (v - ?m)))
        else Err IntTooLong)"
      by (subst decode_cont_encode) simp_all
    finally show ?thesis by (simp only: small) (simp add: enc)
  qed
qed

text \<open>The value that the bytes of a prefix integer denote, over the natural numbers.\<close>

fun cont_val :: "bytes \<Rightarrow> nat" where
  "cont_val [] = 0"
| "cont_val (b # bs) = unat (b AND 0x7f) + 128 * cont_val bs"

lemma unat_seven: "unat (b AND 0x7f :: u8) < 128"
  unfolding seven_bits take_bit_eq_mask [symmetric]
  by (simp add: take_bit_eq_mod unat_mod)

lemma unat_byte_less64: "unat (b :: u8) < 18446744073709551616"
  using unsigned_less [of b, where 'a = nat] by simp

lemma decode_cont_exact:
  assumes "decode_cont buf p (7 * k) v0 = Ok (v, q)" "unat v0 < 2 ^ (7 * k) + 255" "k \<le> 8"
  shows "unat v = unat v0 + 2 ^ (7 * k) * cont_val (slice buf p q) \<and> q \<le> p + 9 - k"
  using assms
proof (induction "9 - k" arbitrary: k p v0)
  case (Suc d)
  let ?b = "buf ! p" and ?v = "v0 + push_bit (7 * k) (ucast (buf ! p AND 0x7f))"
  have p: "p < length buf" using Suc.prems(1) decode_cont_pos by fastforce
  note step = decode_cont.simps [of buf p "7 * k" v0]
  have "(2 :: nat) ^ (7 * k) \<le> 2 ^ 56" using Suc.prems(3) by (intro power_increasing) auto
  then have big: "(2 :: nat) ^ (7 * k) * 128 + 255 < 2 ^ 64" by simp
  have x: "2 ^ (7 * k) * unat (?b AND 0x7f) \<le> 2 ^ (7 * k) * 127"
    using unat_seven [of ?b] by (intro mult_left_mono) auto
  have "unat (push_bit (7 * k) (ucast (?b AND 0x7f) :: u64))
      = take_bit 64 (2 ^ (7 * k) * unat (?b AND 0x7f))"
    unfolding unsigned_push_bit_eq
    by (simp add: push_bit_eq_mult unsigned_ucast_eq take_bit_nat_eq_self unat_byte_less64 mult.commute)
  also have "\<dots> = 2 ^ (7 * k) * unat (?b AND 0x7f)"
    using x big by (intro take_bit_nat_eq_self) linarith
  finally have pb: "unat (push_bit (7 * k) (ucast (?b AND 0x7f) :: u64)) = 2 ^ (7 * k) * unat (?b AND 0x7f)" .
  have "unat v0 + 2 ^ (7 * k) * unat (?b AND 0x7f) < 2 ^ 64"
    using x big Suc.prems(2) by linarith
  then have v: "unat ?v = unat v0 + 2 ^ (7 * k) * unat (?b AND 0x7f)"
    unfolding unat_word_ariths(1) pb by simp
  have "(2 :: nat) ^ (7 * Suc k) = 2 ^ (7 * k) * 128" by (simp add: power_add)
  then have v': "unat ?v < 2 ^ (7 * Suc k) + 255"
    unfolding v using x Suc.prems(2) by linarith
  show ?case
  proof (cases "?b AND 0x80 = 0")
    case True
    then have "v = ?v" "q = Suc p" using Suc.prems(1) step p by (auto simp: Let_def)
    moreover have "slice buf p (Suc p) = [?b]" using p by (simp add: slice_def take_Suc_conv_app_nth hd_drop_conv_nth)
    ultimately show ?thesis using v Suc.prems(3) by simp
  next
    case False
    then have k: "Suc k \<le> 8" and rec: "decode_cont buf (Suc p) (7 * Suc k) ?v = Ok (v, q)"
      using Suc.prems(1) step p by (auto simp: Let_def add.commute split: if_splits)
    have "slice buf p q = ?b # slice buf (Suc p) q"
      using decode_cont_pos [OF rec] p by (simp add: slice_def Cons_nth_drop_Suc [symmetric] Suc_diff_Suc [symmetric] del: Suc_diff_Suc)
    then show ?thesis
      using Suc.hyps(1) [of "Suc k" "Suc p" ?v, OF _ rec v' k] Suc.hyps(2) v k
      by (simp add: algebra_simps power_add)
  qed
qed simp

lemma decode_integer_exact:
  assumes "decode_integer buf pos n = Ok (v, p)" "n \<le> 8"
  shows "pos < p \<and> p \<le> length buf \<and> p \<le> pos + 10 \<and>
    (let low = unat (buf ! pos AND mask n) in
     unat v = (if low < 2 ^ n - 1 then low else low + cont_val (slice buf (Suc pos) p)))"
proof -
  let ?low = "buf ! pos AND mask n"
  have bound: "unat ?low < 256" using unsigned_less [of ?low, where 'a = nat] by simp
  have low: "unat (ucast ?low :: u64) = unat ?low"
    using bound by (simp add: unsigned_ucast_eq take_bit_nat_eq_self)
  have lt: "ucast ?low < (mask n :: u64) \<longleftrightarrow> unat ?low < 2 ^ n - 1"
    using assms(2) by (simp add: word_less_nat_alt low unat_mask_eq)
  show ?thesis
  proof (cases "unat ?low < 2 ^ n - 1")
    case True
    then have "v = ucast ?low" "p = Suc pos" "pos < length buf"
      using assms ucast_push_mask [OF assms(2)] lt unfolding decode_integer_def push_1_minus_1
      by (auto simp: Let_def split: if_splits)
    with True low show ?thesis by (simp add: Let_def)
  next
    case False
    then have "decode_cont buf (Suc pos) (7 * 0) (ucast ?low) = Ok (v, p)"
      using assms ucast_push_mask [OF assms(2)] lt unfolding decode_integer_def push_1_minus_1
      by (auto simp: Let_def split: if_splits)
    from decode_cont_exact [OF this] decode_integer_pos [OF assms(1)] show ?thesis
      using False low bound by (simp add: Let_def)
  qed
qed

section \<open>Field lines\<close>

text \<open>
  The field lines of RFC 9204 the reader knows, with their flags: \<open>Indexed\<close> (static table?),
  \<open>NameRef\<close> (never indexed?, static?, Huffman value?), \<open>LiteralName\<close> (never indexed?, Huffman
  name?, Huffman value?); strings are the bytes on the wire.
\<close>

datatype field_line =
    Indexed bool u64
  | NameRef bool bool u64 bool bytes
  | LiteralName bool bool bytes bool bytes

definition flag :: "bool \<Rightarrow> u8 \<Rightarrow> u8" where
  "flag b m = (if b then m else 0)"

definition enc_value :: "bool \<Rightarrow> bytes \<Rightarrow> bytes" where
  "enc_value h raw = encode_integer [] (of_nat (length raw)) 7 (flag h 0x80) @ raw"

fun enc_line :: "field_line \<Rightarrow> bytes" where
  "enc_line (Indexed t i) = encode_integer [] i 6 (0x80 OR flag t 0x40)"
| "enc_line (NameRef nv t i h raw) =
     encode_integer [] i 4 (0x40 OR flag nv 0x20 OR flag t 0x10) @ enc_value h raw"
| "enc_line (LiteralName nv hn name hv raw) =
     encode_integer [] (of_nat (length name)) 3 (0x20 OR flag nv 0x10 OR flag hn 0x08)
     @ name @ enc_value hv raw"

fun index_fits :: "field_line \<Rightarrow> bool" where
  "index_fits (Indexed t i) \<longleftrightarrow> unat i < 2 ^ 63"
| "index_fits (NameRef nv t i h raw) \<longleftrightarrow> unat i < 2 ^ 63"
| "index_fits (LiteralName nv hn name hv raw) \<longleftrightarrow> True"

text \<open>What a line means for the two facts the reader is after.\<close>

fun line_effect ::
  "field_line \<Rightarrow> u16 option \<times> string option \<Rightarrow> (QpackError, u16 option \<times> string option) result" where
  "line_effect (Indexed t i) (st, co) =
     Ok (if t then (case static_status i of None \<Rightarrow> st | Some c \<Rightarrow> Some c) else st, co)"
| "line_effect (NameRef nv t i h raw) (st, co) = Ok (st, co)"
| "line_effect (LiteralName nv hn name hv raw) (st, co) =
     rbind (decode_string name hn) (\<lambda>name.
     rbind (decode_string raw hv) (\<lambda>v.
       Ok (st, if name = str_bytes ''cf-warp-colo'' then from_utf8 v else co)))"

fun lines_effect ::
  "field_line list \<Rightarrow> u16 option \<times> string option \<Rightarrow> (QpackError, u16 option \<times> string option) result" where
  "lines_effect [] sc = Ok sc"
| "lines_effect (l # ls) sc = rbind (line_effect l sc) (lines_effect ls)"

text \<open>Flags in the first byte: a test whose mask avoids the prefix bits sees only the flags.\<close>

lemma first_byte_flags:
  assumes "n \<le> 8" "m AND mask n = 0"
  shows "hd (encode_integer [] v n hi) AND m = hi AND m"
proof (rule bit_word_eqI)
  fix i
  assume i: "i < LENGTH(8)"
  have "bit (hd (encode_integer [] v n hi) AND NOT (mask n)) i \<longleftrightarrow> bit (hi AND NOT (mask n)) i"
    using hd_encode_integer [OF assms(1), of v hi] by simp
  moreover have "\<not> bit (m AND mask n) i" using assms(2) by simp
  ultimately show "bit (hd (encode_integer [] v n hi) AND m) i \<longleftrightarrow> bit (hi AND m) i"
    using i by (auto simp: bit_simps)
qed

lemma nth_prefix: "ys \<noteq> [] \<Longrightarrow> (xs @ ys @ zs) ! length xs = hd ys"
  by (cases ys) auto

lemma flag_flags [simp]:
  "(0x80 OR flag t 0x40) AND mask 6 = 0" "(0x40 OR flag a 0x20 OR flag b 0x10) AND mask 4 = 0"
  "(0x20 OR flag a 0x10 OR flag b 0x08) AND mask 3 = 0" "flag h 0x80 AND mask 7 = 0"
  by (simp_all add: flag_def mask_eq_exp_minus_1)

lemma unat_length: "length xs < 2 ^ 62 \<Longrightarrow> unat (of_nat (length xs) :: u64) = length xs"
  by (simp add: unat_of_nat)

lemma decode_integer_enc:
  assumes "0 < n" "n \<le> 8" "hi AND mask n = 0" "unat v < 2 ^ 63"
  shows "decode_integer (pre @ encode_integer [] v n hi @ post) (length pre) n =
    Ok (v, length pre + length (encode_integer [] v n hi))"
proof -
  have "unat v < 2 ^ 63 + (2 ^ n - 1)" using assms(4) by (rule trans_less_add1)
  then show ?thesis using decode_integer_encode [OF assms(1-3)] by simp
qed

lemma slice_mid:
  "slice (xs @ ys @ zs) (length xs) (length xs + length ys) = ys"
  by simp

lemma value_parts:
  assumes payload: "payload = pre @ enc_value h raw @ post" and small: "length payload < 2 ^ 62"
  shows "decode_integer payload (length pre) 7 =
     Ok (of_nat (length raw), length pre + (length (enc_value h raw) - length raw))"
  and "checked_add_usize (length pre + (length (enc_value h raw) - length raw)) (of_nat (length raw)) =
     Some (length pre + length (enc_value h raw))"
  and "slice payload (length pre + (length (enc_value h raw) - length raw))
     (length pre + length (enc_value h raw)) = raw"
  and "payload ! length pre AND 0x80 \<noteq> 0 \<longleftrightarrow> h"
  and "length pre < length payload"
proof -
  let ?e = "encode_integer [] (of_nat (length raw)) 7 (flag h 0x80)"
  have p: "payload = pre @ ?e @ raw @ post" by (simp add: payload enc_value_def)
  have raw: "unat (of_nat (length raw) :: u64) = length raw"
    using small by (intro unat_length) (simp add: p)
  have len: "length (enc_value h raw) = length ?e + length raw" by (simp add: enc_value_def)
  show "decode_integer payload (length pre) 7 =
     Ok (of_nat (length raw), length pre + (length (enc_value h raw) - length raw))"
    unfolding p len using raw small by (subst decode_integer_enc) (auto simp: p)
  show "checked_add_usize (length pre + (length (enc_value h raw) - length raw)) (of_nat (length raw)) =
     Some (length pre + length (enc_value h raw))"
    using raw small by (simp add: checked_add_usize_def len p)
  show "slice payload (length pre + (length (enc_value h raw) - length raw))
     (length pre + length (enc_value h raw)) = raw"
    using slice_mid [of "pre @ ?e" raw post] by (simp add: p len add.assoc)
  have "(payload ! length pre) AND 0x80 = flag h 0x80 AND 0x80"
    unfolding p by (subst nth_prefix) (auto intro!: first_byte_flags simp: mask_eq_exp_minus_1)
  then show "payload ! length pre AND 0x80 \<noteq> 0 \<longleftrightarrow> h" by (simp add: flag_def)
  show "length pre < length payload" by (simp add: p)
qed

lemma skip_literal_value_enc:
  assumes "payload = pre @ enc_value h raw @ post" "length payload < 2 ^ 62"
  shows "skip_literal_value payload (length pre) = Ok (length pre + length (enc_value h raw))"
proof -
  have "length pre + length (enc_value h raw) \<le> length payload" using assms(1) by simp
  then show ?thesis using value_parts [OF assms] by (simp add: skip_literal_value_def)
qed

lemma read_literal_value_enc:
  assumes "payload = pre @ enc_value h raw @ post" "length payload < 2 ^ 62"
  shows "read_literal_value payload (length pre) =
    rbind (decode_string raw h) (\<lambda>v. Ok (v, length pre + length (enc_value h raw)))"
proof -
  have "length pre + length (enc_value h raw) \<le> length payload" using assms(1) by simp
  then show ?thesis using value_parts [OF assms] by (simp add: read_literal_value_def Let_def)
qed

lemma static_status_25: "static_status 25 = Some 200"
  by (simp add: static_status_def)

lemma header_line_enc:
  assumes p: "payload = pre @ enc_line l @ post" and small: "length payload < 2 ^ 62"
    and fits: "index_fits l"
  shows "header_line payload (length pre) st co =
    rbind (line_effect l (st, co)) (\<lambda>(st, co). Ok (length pre + length (enc_line l), st, co))"
proof (cases l)
  case (Indexed t i)
  let ?e = "encode_integer [] i 6 (0x80 OR flag t 0x40)"
  have b: "(payload ! length pre) AND m = (0x80 OR flag t 0x40) AND m" if "m AND mask 6 = 0" for m
    using p that by (simp add: Indexed nth_prefix first_byte_flags)
  have "decode_integer payload (length pre) 6 = Ok (i, length pre + length ?e)"
    using p fits by (simp add: Indexed decode_integer_enc)
  then show ?thesis
    using b [of "0x80"] b [of "0x40"] static_status_25
    by (auto simp: Indexed header_line_def flag_def mask_eq_exp_minus_1 split: option.splits)
next
  case (NameRef nv t i h raw)
  let ?e = "encode_integer [] i 4 (0x40 OR flag nv 0x20 OR flag t 0x10)"
  have b: "(payload ! length pre) AND m = (0x40 OR flag nv 0x20 OR flag t 0x10) AND m"
    if "m AND mask 4 = 0" for m
    using p that by (simp add: NameRef nth_prefix first_byte_flags)
  have "decode_integer payload (length pre) 4 = Ok (i, length pre + length ?e)"
    using p fits by (simp add: NameRef decode_integer_enc)
  moreover have "skip_literal_value payload (length (pre @ ?e)) = Ok (length (pre @ ?e) + length (enc_value h raw))"
    using p small by (intro skip_literal_value_enc [where post = post]) (simp_all add: NameRef)
  ultimately show ?thesis
    using b [of "0x80"] b [of "0xc0"]
    by (auto simp: NameRef header_line_def flag_def mask_eq_exp_minus_1)
next
  case (LiteralName nv hn name hv raw)
  let ?e = "encode_integer [] (of_nat (length name)) 3 (0x20 OR flag nv 0x10 OR flag hn 0x08)"
  have b: "(payload ! length pre) AND m = (0x20 OR flag nv 0x10 OR flag hn 0x08) AND m"
    if "m AND mask 3 = 0" for m
    using p that by (simp add: LiteralName nth_prefix first_byte_flags)
  have len: "unat (of_nat (length name) :: u64) = length name"
    using p small by (intro unat_length) (simp add: LiteralName)
  have i: "decode_integer payload (length pre) 3 = Ok (of_nat (length name), length (pre @ ?e))"
    using p small len by (simp add: LiteralName decode_integer_enc)
  have c: "checked_add_usize (length (pre @ ?e)) (of_nat (length name)) = Some (length (pre @ ?e @ name))"
    using p small len by (simp add: LiteralName checked_add_usize_def)
  have s: "slice payload (length (pre @ ?e)) (length (pre @ ?e @ name)) = name"
    using slice_mid [of "pre @ ?e" name "enc_value hv raw @ post"]
    by (simp add: p LiteralName add.assoc)
  have r: "read_literal_value payload (length (pre @ ?e @ name)) =
      rbind (decode_string raw hv) (\<lambda>v. Ok (v, length (pre @ ?e @ name) + length (enc_value hv raw)))"
    using p small by (intro read_literal_value_enc [where post = post]) (simp_all add: LiteralName)
  have "header_line payload (length pre) st co =
    rbind (decode_string name hn) (\<lambda>name.
    rbind (rbind (decode_string raw hv)
        (\<lambda>v. Ok (v, length (pre @ ?e @ name') + length (enc_value hv raw)))) (\<lambda>(v, pos).
      Ok (pos, st, if name = str_bytes ''cf-warp-colo'' then from_utf8 v else co)))"
    if "name' = name" for name'
    unfolding header_line_def Let_def
    using b [of "0x80"] b [of "0xc0"] b [of "0xe0"] b [of "0x08"] i c s r p that
    by (auto simp: LiteralName flag_def mask_eq_exp_minus_1)
  then show ?thesis
    by (cases "decode_string name hn"; cases "decode_string raw hv")
       (simp_all add: LiteralName)
qed

lemma enc_line_ne [simp]: "enc_line l \<noteq> []"
  by (cases l) auto

lemma header_lines_enc:
  assumes "length (pre @ concat (map enc_line ls)) < 2 ^ 62" "list_all index_fits ls"
  shows "header_lines (pre @ concat (map enc_line ls)) (length pre) st co = lines_effect ls (st, co)"
  using assms
proof (induction ls arbitrary: pre st co)
  case Nil
  then show ?case by (simp add: header_lines.simps)
next
  case (Cons l ls)
  let ?payload = "pre @ concat (map enc_line (l # ls))"
  have line: "header_line ?payload (length pre) st co =
      rbind (line_effect l (st, co)) (\<lambda>(st, co). Ok (length pre + length (enc_line l), st, co))"
    using Cons.prems by (intro header_line_enc [where post = "concat (map enc_line ls)"]) auto
  have pos: "length pre < length ?payload" by simp
  have rest: "header_lines ?payload (length pre + length (enc_line l)) st co = lines_effect ls (st, co)"
    for st co
    using Cons.IH [of "pre @ enc_line l" st co] Cons.prems by simp
  show ?case
    unfolding header_lines.simps [of ?payload "length pre"] line using pos rest
    by (cases "line_effect l (st, co)") auto
qed

lemma static_section_prefix: "encode_integer [] 0 8 0 @ encode_integer [] 0 7 0 = [0, 0]"
  by (simp add: encode_integer_def)

lemma decode_headers_section:
  assumes "payload = encode_integer [] ric 8 0 @ encode_integer [] base 7 (flag sign 0x80)
      @ concat (map enc_line ls)"
    and "length payload < 2 ^ 62" "unat ric < 2 ^ 63" "unat base < 2 ^ 63"
    and "list_all index_fits ls"
  shows "decode_headers payload =
    rbind (lines_effect ls (None, None)) (\<lambda>(st, co).
    rbind (ok_or StatusMissing st) (\<lambda>st. Ok \<lparr>resp_status = st, resp_colo = co\<rparr>))"
proof -
  let ?a = "encode_integer [] ric 8 0" and ?b = "encode_integer [] base 7 (flag sign 0x80)"
  have a: "skip_integer payload 0 8 = Ok (length ?a)"
    using decode_integer_enc [of 8 0 ric "[]" "?b @ concat (map enc_line ls)"] assms(1,3)
    by (simp add: skip_integer_def)
  have b: "skip_integer payload (length ?a) 7 = Ok (length (?a @ ?b))"
    using decode_integer_enc [of 7 "flag sign 0x80" base ?a "concat (map enc_line ls)"] assms(1,4)
    by (simp add: skip_integer_def)
  have c: "header_lines payload (length (?a @ ?b)) None None = lines_effect ls (None, None)"
    using header_lines_enc [of "?a @ ?b" ls None None] assms(1,2,5) by simp
  show ?thesis unfolding decode_headers_def a rbind_simps b c ..
qed

text \<open>
  A status sent as a literal value with a reference to the name \<^verbatim>\<open>:status\<close> is skipped, and
  the response is then refused as having none.
\<close>

lemma status_by_name_reference_is_missed:
  "decode_headers ([0, 0] @ enc_line (NameRef False True 24 False (str_bytes ''201''))) = Err StatusMissing"
proof -
  let ?ls = "[NameRef False True 24 False (str_bytes ''201'')]"
  have "decode_headers ([0, 0] @ concat (map enc_line ?ls)) = rbind (lines_effect ?ls (None, None)) (\<lambda>(st, co).
    rbind (ok_or StatusMissing st) (\<lambda>st. Ok \<lparr>resp_status = st, resp_colo = co\<rparr>))"
    using static_section_prefix
    by (intro decode_headers_section [of _ 0 0 False])
       (simp_all add: flag_def encode_integer_def encode_cont.simps enc_value_def str_bytes_def)
  then show ?thesis by simp
qed

text \<open>
  What the lines mean by RFC 9204: the static table of its Appendix A, and the field a line stands
  for.  The client announces no dynamic table, so a reference into one means nothing; neither
  does an index outside the static table or an invalid Huffman string.
\<close>

definition static_table :: "(string \<times> string) list" where
  "static_table =
     [('':authority'', []), ('':path'', ''/''), (''age'', ''0''), (''content-disposition'', []),
      (''content-length'', ''0''), (''cookie'', []), (''date'', []), (''etag'', []),
      (''if-modified-since'', []), (''if-none-match'', []), (''last-modified'', []), (''link'', []),
      (''location'', []), (''referer'', []), (''set-cookie'', []), ('':method'', ''CONNECT''),
      ('':method'', ''DELETE''), ('':method'', ''GET''), ('':method'', ''HEAD''),
      ('':method'', ''OPTIONS''), ('':method'', ''POST''), ('':method'', ''PUT''),
      ('':scheme'', ''http''), ('':scheme'', ''https''), ('':status'', ''103''), ('':status'', ''200''),
      ('':status'', ''304''), ('':status'', ''404''), ('':status'', ''503''), (''accept'', ''*/*''),
      (''accept'', ''application/dns-message''), (''accept-encoding'', ''gzip, deflate, br''),
      (''accept-ranges'', ''bytes''), (''access-control-allow-headers'', ''cache-control''),
      (''access-control-allow-headers'', ''content-type''), (''access-control-allow-origin'', ''*''),
      (''cache-control'', ''max-age=0''), (''cache-control'', ''max-age=2592000''),
      (''cache-control'', ''max-age=604800''), (''cache-control'', ''no-cache''),
      (''cache-control'', ''no-store''), (''cache-control'', ''public, max-age=31536000''),
      (''content-encoding'', ''br''), (''content-encoding'', ''gzip''),
      (''content-type'', ''application/dns-message''), (''content-type'', ''application/javascript''),
      (''content-type'', ''application/json''),
      (''content-type'', ''application/x-www-form-urlencoded''), (''content-type'', ''image/gif''),
      (''content-type'', ''image/jpeg''), (''content-type'', ''image/png''),
      (''content-type'', ''text/css''), (''content-type'', ''text/html; charset=utf-8''),
      (''content-type'', ''text/plain''), (''content-type'', ''text/plain;charset=utf-8''),
      (''range'', ''bytes=0-''), (''strict-transport-security'', ''max-age=31536000''),
      (''strict-transport-security'', ''max-age=31536000; includesubdomains''),
      (''strict-transport-security'', ''max-age=31536000; includesubdomains; preload''),
      (''vary'', ''accept-encoding''), (''vary'', ''origin''),
      (''x-content-type-options'', ''nosniff''), (''x-xss-protection'', ''1; mode=block''),
      ('':status'', ''100''), ('':status'', ''204''), ('':status'', ''206''), ('':status'', ''302''),
      ('':status'', ''400''), ('':status'', ''403''), ('':status'', ''421''), ('':status'', ''425''),
      ('':status'', ''500''), (''accept-language'', []),
      (''access-control-allow-credentials'', ''FALSE''),
      (''access-control-allow-credentials'', ''TRUE''), (''access-control-allow-headers'', ''*''),
      (''access-control-allow-methods'', ''get''),
      (''access-control-allow-methods'', ''get, post, options''),
      (''access-control-allow-methods'', ''options''),
      (''access-control-expose-headers'', ''content-length''),
      (''access-control-request-headers'', ''content-type''),
      (''access-control-request-method'', ''get''), (''access-control-request-method'', ''post''),
      (''alt-svc'', ''clear''), (''authorization'', []),
      (''content-security-policy'', ''script-src 'none'; object-src 'none'; base-uri 'none'' @ [CHR 0x27]),
      (''early-data'', ''1''), (''expect-ct'', []), (''forwarded'', []), (''if-range'', []),
      (''origin'', []), (''purpose'', ''prefetch''), (''server'', []), (''timing-allow-origin'', ''*''),
      (''upgrade-insecure-requests'', ''1''), (''user-agent'', []), (''x-forwarded-for'', []),
      (''x-frame-options'', ''deny''), (''x-frame-options'', ''sameorigin'')]"

definition static_field :: "u64 \<Rightarrow> (string \<times> string) option" where
  "static_field i = (if unat i < length static_table then Some (static_table ! unat i) else None)"

definition string_of :: "bytes \<Rightarrow> bool \<Rightarrow> bytes option" where
  "string_of raw huffman = (case decode_string raw huffman of Inl e \<Rightarrow> None | Inr v \<Rightarrow> Some v)"

fun field_of :: "field_line \<Rightarrow> (bytes \<times> bytes) option" where
  "field_of (Indexed t i) = (if t then map_option (\<lambda>(n, v). (str_bytes n, str_bytes v)) (static_field i) else None)"
| "field_of (NameRef nv t i h raw) =
     (case (if t then static_field i else None, string_of raw h) of
        (Some (n, _), Some v) \<Rightarrow> Some (str_bytes n, v)
      | _ \<Rightarrow> None)"
| "field_of (LiteralName nv hn name hv raw) =
     (case (string_of name hn, string_of raw hv) of (Some n, Some v) \<Rightarrow> Some (n, v) | _ \<Rightarrow> None)"

definition last_value :: "string \<Rightarrow> (bytes \<times> bytes) list \<Rightarrow> bytes option" where
  "last_value name fs =
     (case rev (filter (\<lambda>f. fst f = str_bytes name) fs) of [] \<Rightarrow> None | f # _ \<Rightarrow> Some (snd f))"

definition decimal :: "bytes \<Rightarrow> u16" where
  "decimal ds = foldl (\<lambda>n d. 10 * n + (ucast d - 48)) 0 ds"

text \<open>The one way of sending a status that the reader does not know: with a literal value.\<close>

definition literal_status :: "field_line \<Rightarrow> bool" where
  "literal_status l \<longleftrightarrow>
     (case l of Indexed t i \<Rightarrow> False | _ \<Rightarrow> map_option fst (field_of l) = Some (str_bytes '':status''))"

lemma static_rows:
  "map (\<lambda>i. static_status (of_nat i)) [0..<99] =
     map (\<lambda>(n, v). if n = '':status'' then Some (decimal (str_bytes v)) else None) static_table"
  by code_simp

lemma static_names: "list_all (\<lambda>(n, v). n \<noteq> ''cf-warp-colo'') static_table"
  by code_simp

lemma static_field_row:
  assumes "static_field i = Some (n, v)"
  shows "str_bytes n \<noteq> str_bytes ''cf-warp-colo''"
    and "static_status i = (if str_bytes n = str_bytes '':status'' then Some (decimal (str_bytes v)) else None)"
proof -
  have len: "length static_table = 99" unfolding static_table_def by simp
  then have i: "unat i < 99" "static_table ! unat i = (n, v)"
    using assms by (auto simp: static_field_def split: if_splits)
  have "(n, v) \<in> set static_table" using i len nth_mem [of "unat i" static_table] by simp
  then show "str_bytes n \<noteq> str_bytes ''cf-warp-colo''"
    using static_names by (auto simp: list_all_iff)
  show "static_status i = (if str_bytes n = str_bytes '':status'' then Some (decimal (str_bytes v)) else None)"
    using arg_cong [OF static_rows, of "\<lambda>xs. xs ! unat i"] i len by simp
qed

lemma last_value_Cons:
  "last_value name (f # fs) = (case last_value name fs of
     None \<Rightarrow> if fst f = str_bytes name then Some (snd f) else None | Some v \<Rightarrow> Some v)"
  by (auto simp: last_value_def split: list.splits)

lemma status_not_colo: "str_bytes '':status'' \<noteq> str_bytes ''cf-warp-colo''"
  by code_simp

lemma line_effect_field:
  assumes "field_of l = Some (n, v)" "\<not> literal_status l"
  shows "line_effect l (st, co) =
    Ok (if n = str_bytes '':status'' then Some (decimal v) else st, if n = str_bytes ''cf-warp-colo'' then from_utf8 v else co)"
proof (cases l)
  case (Indexed t i)
  then obtain n' v' where "t" "static_field i = Some (n', v')" "n = str_bytes n'" "v = str_bytes v'"
    using assms(1) by (auto split: if_splits)
  then show ?thesis using static_field_row [of i n' v'] Indexed by simp
next
  case (NameRef nv t i h raw)
  then obtain n' v' where "static_field i = Some (n', v')" "n = str_bytes n'"
    using assms(1) by (auto split: if_splits option.splits)
  then show ?thesis
    using static_field_row(1) [of i n' v'] NameRef assms by (auto simp: literal_status_def)
next
  case (LiteralName nv hn name hv raw)
  then show ?thesis
    using assms by (auto simp: literal_status_def string_of_def split: sum.splits option.splits)
qed

lemma lines_effect_fields:
  assumes "map field_of ls = map Some fs" "list_all (\<lambda>l. \<not> literal_status l) ls"
  shows "lines_effect ls (st, co) =
    Ok (case last_value '':status'' fs of None \<Rightarrow> st | Some v \<Rightarrow> Some (decimal v),
        case last_value ''cf-warp-colo'' fs of None \<Rightarrow> co | Some v \<Rightarrow> from_utf8 v)"
  using assms
proof (induction ls arbitrary: fs st co)
  case Nil
  then show ?case by (simp add: last_value_def)
next
  case (Cons l ls)
  then obtain n v fs' where fs: "fs = (n, v) # fs'" "field_of l = Some (n, v)" "map field_of ls = map Some fs'"
    by (cases fs) auto
  show ?case
    using Cons.IH [OF fs(3)] Cons.prems(2) line_effect_field [OF fs(2)] status_not_colo
    by (auto simp: fs(1) last_value_Cons split: option.splits)
qed

lemma lines_effect_bad_literal:
  assumes "LiteralName nv hn name hv raw \<in> set ls" "string_of name hn = None \<or> string_of raw hv = None"
  shows "\<exists>e. lines_effect ls sc = Err e"
  using assms
proof (induction ls arbitrary: sc)
  case (Cons l ls)
  obtain st co where sc: "sc = (st, co)" by force
  show ?case
  proof (cases "line_effect l sc")
    case (Inr sc')
    then have "l \<noteq> LiteralName nv hn name hv raw"
      using Cons.prems(2) by (auto simp: sc string_of_def rbind_Inr_iff split: sum.splits)
    then show ?thesis using Cons Inr by auto
  qed simp
qed simp

section \<open>Properties\<close>

text \<open>
  C25: every prefix integer the encoder writes is read back with its value and end position,
  whatever surrounds it, except that a value of \<open>2 ^ 63 + 2 ^ n - 1\<close> or more needs more
  continuation bytes than the reader allows and is refused as too long.
\<close>

theorem prefix_integer_roundtrip:
  assumes "0 < n" "n \<le> 8" "hi AND mask n = 0"
  shows "decode_integer (pre @ encode_integer [] v n hi @ post) (length pre) n =
    (if unat v < 2 ^ 63 + (2 ^ n - 1)
     then Ok (v, length pre + length (encode_integer [] v n hi)) else Err IntTooLong)"
  using assms by (rule decode_integer_encode)

theorem prefix_integer_roundtrip_witness:
  "decode_integer ([0xAA] @ encode_integer [] 1337 5 0xE0 @ [0xBB]) 1 5 =
     Ok (1337, 1 + length (encode_integer [] 1337 5 0xE0))"
  using prefix_integer_roundtrip [of 5 "0xE0" "[0xAA]" 1337 "[0xBB]"]
  by (simp add: mask_eq_exp_minus_1)

text \<open>
  C39: whatever bytes the integer reader is given, when it succeeds it has consumed between one
  and ten bytes of the buffer and returns the exact value they denote: the 64-bit accumulation
  never wraps.
\<close>

theorem decode_integer_never_wraps:
  assumes "decode_integer buf pos n = Ok (v, p)" "n \<le> 8"
  shows "pos < p \<and> p \<le> length buf \<and> p \<le> pos + 10 \<and>
    (let low = unat (buf ! pos AND mask n) in
     unat v = (if low < 2 ^ n - 1 then low else low + cont_val (slice buf (Suc pos) p)))"
  using assms by (rule decode_integer_exact)

theorem decode_integer_never_wraps_witness:
  "decode_integer [0x1f, 0x9a, 0x0a] 0 5 = Ok (1337, 3) \<and>
   unat (1337 :: u64) = 31 + cont_val [0x9a, 0x0a]"
proof -
  have r: "decode_integer [0x1f, 0x9a, 0x0a] 0 5 = Ok (1337, 3)"
    by (simp add: decode_integer_def decode_cont.simps Let_def)
  with decode_integer_never_wraps [OF r] show ?thesis
    by (simp add: mask_eq_exp_minus_1 slice_def Let_def)
qed

text \<open>
  C7: the reader of response headers, run on any encoded field section (any prefix; indexed,
  name-reference and literal-name lines with any flags), returns what the lines mean by RFC 9204
  and its static table: the last value of \<^verbatim>\<open>:status\<close> and the last of \<^verbatim>\<open>cf-warp-colo\<close>, and the error for
  a missing status exactly if there is none.  This holds if every line stands for a field and
  \<^verbatim>\<open>:status\<close> is not sent with a literal value, which the reader would ignore.  An invalid Huffman
  string in a line with a literal name is an error in any case.
\<close>

theorem decode_headers_of_section:
  assumes "payload = encode_integer [] ric 8 0 @ encode_integer [] base 7 (flag sign 0x80)
      @ concat (map enc_line ls)"
    and "length payload < 2 ^ 62" "unat ric < 2 ^ 63" "unat base < 2 ^ 63"
    and "list_all index_fits ls"
  shows "(map field_of ls = map Some fs \<and> list_all (\<lambda>l. \<not> literal_status l) ls \<longrightarrow>
      decode_headers payload =
        (case last_value '':status'' fs of
           None \<Rightarrow> Err StatusMissing
         | Some v \<Rightarrow> Ok \<lparr>resp_status = decimal v,
             resp_colo = (case last_value ''cf-warp-colo'' fs of None \<Rightarrow> None | Some c \<Rightarrow> from_utf8 c)\<rparr>))
    \<and> (LiteralName nv hn name hv raw \<in> set ls \<and> (string_of name hn = None \<or> string_of raw hv = None) \<longrightarrow>
      (\<exists>e. decode_headers payload = Err e))"
proof (intro conjI impI; elim conjE)
  assume f: "map field_of ls = map Some fs" "list_all (\<lambda>l. \<not> literal_status l) ls"
  show "decode_headers payload = (case last_value '':status'' fs of None \<Rightarrow> Err StatusMissing
      | Some v \<Rightarrow> Ok \<lparr>resp_status = decimal v,
          resp_colo = (case last_value ''cf-warp-colo'' fs of None \<Rightarrow> None | Some c \<Rightarrow> from_utf8 c)\<rparr>)"
    unfolding decode_headers_section [OF assms] lines_effect_fields [OF f]
    by (simp split: option.splits)
next
  assume "LiteralName nv hn name hv raw \<in> set ls" "string_of name hn = None \<or> string_of raw hv = None"
  then obtain e where "lines_effect ls (None, None) = Err e" using lines_effect_bad_literal by blast
  then show "\<exists>e. decode_headers payload = Err e"
    unfolding decode_headers_section [OF assms] by simp
qed

theorem decode_headers_of_section_witness:
  "decode_headers ([0, 0] @ concat (map enc_line
      [Indexed True 25, NameRef False True 92 False (str_bytes ''cloudflare''),
       LiteralName False False (str_bytes ''cf-warp-colo'') False (str_bytes ''LAX'')])) =
     Ok \<lparr>resp_status = 200, resp_colo = Some ''LAX''\<rparr>"
proof -
  let ?ls = "[Indexed True 25, NameRef False True 92 False (str_bytes ''cloudflare''),
    LiteralName False False (str_bytes ''cf-warp-colo'') False (str_bytes ''LAX'')]"
  let ?fs = "[(str_bytes '':status'', str_bytes ''200''), (str_bytes ''server'', str_bytes ''cloudflare''),
    (str_bytes ''cf-warp-colo'', str_bytes ''LAX'')]"
  have f: "map field_of ?ls = map Some ?fs" "list_all (\<lambda>l. \<not> literal_status l) ?ls" by code_simp+
  have v: "last_value '':status'' ?fs = Some (str_bytes ''200'')" "last_value ''cf-warp-colo'' ?fs = Some (str_bytes ''LAX'')"
    "decimal (str_bytes ''200'') = 200" by code_simp+
  have p: "[0, 0] @ concat (map enc_line ?ls) = encode_integer [] 0 8 0 @ encode_integer [] 0 7 (flag False 0x80) @ concat (map enc_line ?ls)"
    "length ([0, 0] @ concat (map enc_line ?ls)) < 2 ^ 62"
    using static_section_prefix
    by (simp_all add: flag_def encode_integer_def encode_cont.simps enc_value_def str_bytes_def)
  have "decode_headers ([0, 0] @ concat (map enc_line ?ls)) =
      Ok \<lparr>resp_status = 200, resp_colo = from_utf8 (str_bytes ''LAX'')\<rparr>"
    using decode_headers_of_section [OF p, of ?fs] f v by simp
  moreover have "from_utf8 (str_bytes ''LAX'') = Some ''LAX''"
    unfolding from_utf8_def bytes_str_str_bytes
    using utf8_valid_ascii [of "str_bytes ''LAX''"] by (simp add: str_bytes_def char_byte_def)
  ultimately show ?thesis by simp
qed

text \<open>
  C37: the CONNECT request the client sends is the QPACK encoding, with an empty dynamic table,
  of the three lines \<^verbatim>\<open>:method = CONNECT\<close> (static 15), \<^verbatim>\<open>:authority\<close> (static 0) with the
  authority, and a never-indexed \<^verbatim>\<open>authorization\<close> (static 84) with the token.
\<close>

theorem connect_request_is_qpack:
  "encode_connect_request authority token =
     encode_integer [] 0 8 0 @ encode_integer [] 0 7 0 @ concat (map enc_line
       [Indexed True 15,
        NameRef False True 0 False (str_bytes authority),
        NameRef True True 84 False (str_bytes token)])"
  unfolding append_assoc [symmetric] static_section_prefix
  unfolding encode_connect_request_def encode_string_def Let_def
  by (subst (1 2) encode_integer_append)
     (simp add: enc_value_def flag_def, simp add: encode_integer_def encode_cont.simps)

end
