(* ===== verification/Streams.thy ===== *)
theory Streams
  imports Prelude
begin

text \<open>
  Asynchronous byte streams.  A receiving stream is the list of chunks that will arrive,
  followed by a clean end or an I/O error; where the chunk boundaries fall is up to the network,
  so the lemmas relate every operation to the concatenated content alone.  \<open>sread\<close> is one
  completed \<^verbatim>\<open>read\<close> (at most \<open>n\<close> bytes, none only at the end of the stream), \<open>read_exact\<close>
  repeats it until the buffer is full.  A sending side accepts bytes until its peer is gone.
\<close>

datatype IoErr = UnexpectedEof | BrokenPipe | ConnectionReset | ConnectionRefused | ConnectionAborted
  | NotConnected | TimedOut | WouldBlock | AlreadyExists | NotFound | InvalidInput | InvalidData
  | PermissionDenied | AddrInUse | AddrNotAvailable | Unsupported | OtherIo

record rstream =
  chunks :: "bytes list"
  tail_err :: "IoErr option"

definition content :: "rstream \<Rightarrow> bytes" where
  "content s = concat (chunks s)"

fun sread_chunks :: "nat \<Rightarrow> bytes list \<Rightarrow> bytes \<times> bytes list" where
  "sread_chunks n [] = ([], [])"
| "sread_chunks n (c # cs) = (if c = [] then sread_chunks n cs else (take n c, drop n c # cs))"

definition sread :: "nat \<Rightarrow> rstream \<Rightarrow> (IoErr, bytes \<times> rstream) result" where
  "sread n s =
     (if n = 0 then Ok ([], s)
      else
        let (d, cs) = sread_chunks n (chunks s) in
        if d = [] then (case tail_err s of None \<Rightarrow> Ok ([], s\<lparr>chunks := cs\<rparr>) | Some e \<Rightarrow> Err e)
        else Ok (d, s\<lparr>chunks := cs\<rparr>))"

text \<open>The abstraction: two streams with the same content and ending are the same stream.\<close>

definition stream_of :: "bytes \<Rightarrow> IoErr option \<Rightarrow> rstream \<Rightarrow> bool" where
  "stream_of w t s \<longleftrightarrow> content s = w \<and> tail_err s = t"

lemma sread_chunks_spec:
  "sread_chunks n cs = (d, cs') \<Longrightarrow> concat cs = d @ concat cs' \<and> length d \<le> n
     \<and> (0 < n \<longrightarrow> (d = [] \<longleftrightarrow> concat cs = []))"
  by (induction n cs rule: sread_chunks.induct) (auto split: if_splits)

lemma sread_Ok:
  assumes "0 < n" "stream_of w t s" "sread n s = Ok (d, s')"
  shows "\<exists>w'. w = d @ w' \<and> stream_of w' t s' \<and> length d \<le> n \<and> (d = [] \<longleftrightarrow> w = [])"
proof -
  obtain d' cs where r: "sread_chunks n (chunks s) = (d', cs)" by force
  with assms sread_chunks_spec [OF r] show ?thesis
    by (auto simp: sread_def stream_of_def content_def split: if_splits option.splits)
qed

lemma sread_Err:
  assumes "stream_of w t s" "sread n s = Err e"
  shows "w = [] \<and> t = Some e"
proof -
  obtain d' cs where r: "sread_chunks n (chunks s) = (d', cs)" by force
  with assms sread_chunks_spec [OF r] show ?thesis
    by (auto simp: sread_def stream_of_def content_def split: if_splits option.splits)
qed

lemma sread_nonempty:
  assumes "0 < n" "stream_of w t s" "w \<noteq> []"
  obtains d w' s' where "sread n s = Ok (d, s')" "w = d @ w'" "stream_of w' t s'" "d \<noteq> []"
    "length d \<le> n"
proof (cases "sread n s")
  case (Inl e)
  with assms sread_Err show thesis by blast
next
  case (Inr r)
  then obtain d s' where "sread n s = Ok (d, s')" by (cases r) auto
  with assms sread_Ok [OF assms(1,2)] that show thesis by blast
qed

lemma sread_empty:
  assumes "0 < n" "stream_of [] t s"
  shows "case t of Some e \<Rightarrow> sread n s = Err e
    | None \<Rightarrow> \<exists>s'. sread n s = Ok ([], s') \<and> stream_of [] t s'"
proof (cases "sread n s")
  case (Inl e)
  with assms sread_Err show ?thesis by fastforce
next
  case (Inr r)
  then obtain d s' where r: "sread n s = Ok (d, s')" by (cases r) auto
  with assms sread_Ok [OF assms r] have "d = []" "stream_of [] t s'" by auto
  moreover from this r assms have "t = None"
    by (auto simp: sread_def stream_of_def split: option.splits prod.splits if_splits)
  ultimately show ?thesis using r by simp
qed

function read_exact :: "nat \<Rightarrow> rstream \<Rightarrow> (IoErr, bytes \<times> rstream) result" where
  "read_exact n s =
     (if n = 0 then Ok ([], s)
      else
        rbind (sread n s) (\<lambda>(d, s).
        if d = [] then Err UnexpectedEof
        else rbind (read_exact (n - length d) s) (\<lambda>(r, s). Ok (d @ r, s))))"
  by pat_completeness auto
termination
  by (relation "measure fst") auto

declare read_exact.simps [simp del]

lemma read_exact_0 [simp]: "read_exact 0 s = Ok ([], s)"
  by (simp add: read_exact.simps)

definition end_err :: "IoErr option \<Rightarrow> IoErr" where
  "end_err t = (case t of None \<Rightarrow> UnexpectedEof | Some e \<Rightarrow> e)"

lemma read_exact_Ok:
  assumes "stream_of w t s" "n \<le> length w"
  shows "\<exists>s'. read_exact n s = Ok (take n w, s') \<and> stream_of (drop n w) t s'"
  using assms
proof (induction n s arbitrary: w rule: read_exact.induct)
  case (1 n s)
  show ?case
  proof (cases "n = 0")
    case True
    with 1 show ?thesis by simp
  next
    case False
    then have "w \<noteq> []" using 1(3) by auto
    with False obtain d w' s' where r: "sread n s = Ok (d, s')" "w = d @ w'" "stream_of w' t s'"
      "d \<noteq> []" "length d \<le> n"
      using sread_nonempty [OF _ 1(2)] by blast
    then have "\<exists>s''. read_exact (n - length d) s' = Ok (take (n - length d) w', s'')
        \<and> stream_of (drop (n - length d) w') t s''"
      using 1(1) [OF False, of "(d, s')" d s' w'] 1(3) by simp
    with False r show ?thesis by (auto simp: read_exact.simps [of n s])
  qed
qed

lemma read_exact_short:
  assumes "stream_of w t s" "length w < n"
  shows "read_exact n s = Err (end_err t)"
  using assms
proof (induction n s arbitrary: w rule: read_exact.induct)
  case (1 n s)
  then have n: "n \<noteq> 0" by simp
  show ?case
  proof (cases "w = []")
    case True
    with 1(2) sread_empty [of n t s] n show ?thesis
      by (auto simp: read_exact.simps [of n s] end_err_def split: option.splits)
  next
    case False
    with n obtain d w' s' where r: "sread n s = Ok (d, s')" "w = d @ w'" "stream_of w' t s'"
      "d \<noteq> []" "length d \<le> n"
      using sread_nonempty [OF _ 1(2)] by blast
    then have "read_exact (n - length d) s' = Err (end_err t)"
      using 1(1) [OF n, of "(d, s')" d s' w'] 1(3) by simp
    with n r show ?thesis by (simp add: read_exact.simps [of n s])
  qed
qed

section \<open>Sending\<close>

record wsink =
  written :: bytes
  room :: "nat option"

text \<open>\<^verbatim>\<open>write_all\<close>: a peer that goes away has taken a prefix of the bytes.\<close>

definition write_all :: "bytes \<Rightarrow> wsink \<Rightarrow> wsink \<times> (IoErr, unit) result" where
  "write_all bs k =
     (case room k of
        None \<Rightarrow> (k\<lparr>written := written k @ bs\<rparr>, Ok ())
      | Some r \<Rightarrow>
          if length bs \<le> r then (k\<lparr>written := written k @ bs, room := Some (r - length bs)\<rparr>, Ok ())
          else (k\<lparr>written := written k @ take r bs, room := Some 0\<rparr>, Err BrokenPipe))"

definition open_sink :: wsink where
  "open_sink = \<lparr>written = [], room = None\<rparr>"

lemma write_all_open [simp]:
  "room k = None \<Longrightarrow> write_all bs k = (k\<lparr>written := written k @ bs\<rparr>, Ok ())"
  by (simp add: write_all_def)

section \<open>Polling\<close>

text \<open>The answer of a polled operation.\<close>

datatype 'a poll = Ready 'a | Pending

section \<open>Single bytes\<close>

lemma read_exact_append:
  assumes "stream_of (p @ w) t s" "length p = n"
  shows "\<exists>s'. read_exact n s = Ok (p, s') \<and> stream_of w t s'"
  using read_exact_Ok [OF assms(1), of n] assms(2) by simp

definition read_u8 :: "rstream \<Rightarrow> (IoErr, u8 \<times> rstream) result" where
  "read_u8 s = rbind (read_exact 1 s) (\<lambda>(bs, s). Ok (hd bs, s))"

lemma read_u8_Cons:
  assumes "stream_of (b # w) t s"
  shows "\<exists>s'. read_u8 s = Ok (b, s') \<and> stream_of w t s'"
  using read_exact_append [of "[b]" w t s 1] assms by (auto simp: read_u8_def)

lemma read_u8_end: "stream_of [] t s \<Longrightarrow> read_u8 s = Err (end_err t)"
  using read_exact_short [of "[]" t s 1] by (simp add: read_u8_def)

end
