(* ===== verification/H3_Stream.thy ===== *)
theory H3_Stream
  imports Qpack Streams "HOL-Library.Sublist"
begin

text \<open>
  \<^verbatim>\<open>outbound/masque/mod.rs\<close>: the H3 stream of one CONNECT.  The CONNECT exchange, the two
  directions of the framing pump, the pump's result and how the framed stream reports it to its
  reader.  The QUIC integer codec is the parameter pair of \<open>Varint\<close>; received bytes are
  streams in arbitrary chunks, and the theorems show that the chunking never matters.
\<close>

section \<open>Frame headers\<close>

definition RELAY_BUF :: nat where
  "RELAY_BUF = 64 * 1024"

definition MAX_HEADERS_FRAME_SIZE :: nat where
  "MAX_HEADERS_FRAME_SIZE = 64 * 1024"

definition read_varint_or_eof :: "vdec \<Rightarrow> rstream \<Rightarrow> (IoErr, u64 option \<times> rstream) result" where
  "read_varint_or_eof vdec recv =
     rbind (sread 1 recv) (\<lambda>(first, recv).
     case first of
       [] \<Rightarrow> Ok (None, recv)
     | b # _ \<Rightarrow>
         rbind (read_exact (varint_len b - 1) recv) (\<lambda>(rest, recv).
           Ok (map_option fst (varint_read vdec (b # rest)), recv)))"

definition read_varint :: "vdec \<Rightarrow> rstream \<Rightarrow> (IoErr, u64 \<times> rstream) result" where
  "read_varint vdec recv =
     rbind (read_varint_or_eof vdec recv) (\<lambda>(v, recv).
       rbind (ok_or UnexpectedEof v) (\<lambda>v. Ok (v, recv)))"

section \<open>The CONNECT exchange\<close>

datatype ExchangeError = ExchangeIo IoErr | HeadersTooLarge u64 | TooManyFrames
  | BadHeaders QpackError | ConnectRejected u16

definition checked_headers_len :: "u64 \<Rightarrow> (ExchangeError, nat) result" where
  "checked_headers_len len =
     (if MAX_HEADERS_FRAME_SIZE < unat len then Err (HeadersTooLarge len) else Ok (unat len))"

function discard_frame :: "rstream \<Rightarrow> nat \<Rightarrow> (IoErr, rstream) result" where
  "discard_frame recv remaining =
     (if remaining = 0 then Ok recv
      else
        let chunk = min remaining RELAY_BUF in
        rbind (read_exact chunk recv) (\<lambda>(_, recv). discard_frame recv (remaining - chunk)))"
  by pat_completeness auto
termination
  by (relation "measure snd") (auto simp: RELAY_BUF_def)

declare discard_frame.simps [simp del]

text \<open>The \<^verbatim>\<open>'frames\<close> loop with the number of turns left.\<close>

fun find_headers :: "vdec \<Rightarrow> nat \<Rightarrow> rstream \<Rightarrow> (ExchangeError, bytes \<times> rstream) result" where
  "find_headers vdec 0 recv = Err TooManyFrames"
| "find_headers vdec (Suc n) recv =
     rbind (rmap_err ExchangeIo (read_varint vdec recv)) (\<lambda>(frame_type, recv).
     rbind (rmap_err ExchangeIo (read_varint vdec recv)) (\<lambda>(len, recv).
     if frame_type = 0x01 then
       rbind (checked_headers_len len) (\<lambda>len.
       rmap_err ExchangeIo (read_exact len recv))
     else
       rbind (rmap_err ExchangeIo (discard_frame recv (unat len))) (\<lambda>recv.
       find_headers vdec n recv)))"

definition MAX_SKIPPED_FRAMES :: nat where
  "MAX_SKIPPED_FRAMES = 8"

text \<open>The request is written first; \<open>None\<close> would be the panic of the integer codec.\<close>

definition exchange ::
  "venc \<Rightarrow> vdec \<Rightarrow> wsink \<Rightarrow> rstream \<Rightarrow> string \<Rightarrow> string
     \<Rightarrow> (wsink \<times> (ExchangeError, string option \<times> rstream) result) option" where
  "exchange venc vdec send recv authority token =
     map_option
       (\<lambda>headers.
          case write_all headers send of
            (send, Inl e) \<Rightarrow> (send, Err (ExchangeIo e))
          | (send, Inr _) \<Rightarrow>
              (send,
               rbind (find_headers vdec MAX_SKIPPED_FRAMES recv) (\<lambda>(payload, recv).
               rbind (rmap_err BadHeaders (decode_headers payload)) (\<lambda>headers.
               if resp_status headers \<noteq> 200 then Err (ConnectRejected (resp_status headers))
               else Ok (resp_colo headers, recv)))))
       (headers_frame venc (encode_connect_request authority token))"

section \<open>The framing pump\<close>

text \<open>
  The inner loop of \<^verbatim>\<open>drain_download\<close>: payload of one frame, delivered as it arrives.  It
  returns the sink, and either the I/O error or the stream after the frame.
\<close>

function drain_payload ::
  "u64 \<Rightarrow> nat \<Rightarrow> rstream \<Rightarrow> wsink \<Rightarrow> wsink \<times> (IoErr, rstream) result" where
  "drain_payload frame_type remaining recv out =
     (if remaining = 0 then (out, Ok recv)
      else
        case sread (min remaining RELAY_BUF) recv of
          Inl e \<Rightarrow> (out, Err e)
        | Inr (data, recv) \<Rightarrow>
            if data = [] then (out, Err UnexpectedEof)
            else
              case (if frame_type = 0x00 then write_all data out else (out, Ok ())) of
                (out, Inl e) \<Rightarrow> (out, Err e)
              | (out, Inr _) \<Rightarrow> drain_payload frame_type (remaining - length data) recv out)"
  by pat_completeness auto
termination
  by (relation "measure (\<lambda>(ft, remaining, recv, out). remaining)") auto

declare drain_payload.simps [simp del]

lemma content_less_of_sread:
  assumes "sread n s = Ok (d, s')" "d \<noteq> []"
  shows "length (content s') < length (content s)"
  using sread_Ok [of n "content s" "tail_err s" s d s'] assms
  by (cases "n = 0") (auto simp: stream_of_def sread_def)

lemma content_le_of_read_exact:
  "read_exact n s = Ok (d, s') \<Longrightarrow> length (content s') \<le> length (content s)"
  using read_exact_Ok [of "content s" "tail_err s" s n] read_exact_short [of "content s" "tail_err s" s n]
  by (cases "n \<le> length (content s)") (auto simp: stream_of_def)

lemma content_of_read_varint_or_eof:
  assumes "read_varint_or_eof vdec s = Ok (v, s')"
  shows "length (content s') \<le> length (content s)"
    and "v \<noteq> None \<Longrightarrow> length (content s') < length (content s)"
proof -
  obtain d s1 where d: "sread 1 s = Ok (d, s1)"
    using assms by (auto simp: read_varint_or_eof_def rbind_Inr_iff)
  have len: "length (content s1) \<le> length (content s)"
    using sread_Ok [of 1 "content s" "tail_err s" s d s1] d by (auto simp: stream_of_def)
  have "length (content s') \<le> length (content s) \<and>
      (v \<noteq> None \<longrightarrow> length (content s') < length (content s))"
  proof (cases d)
    case Nil
    then show ?thesis using assms d len by (simp add: read_varint_or_eof_def)
  next
    case (Cons b bs)
    then obtain r where "read_exact (varint_len b - 1) s1 = Ok (r, s')"
      using assms d by (auto simp: read_varint_or_eof_def rbind_Inr_iff)
    then show ?thesis
      using content_le_of_read_exact content_less_of_sread [OF d] Cons by fastforce
  qed
  then show "length (content s') \<le> length (content s)"
    and "v \<noteq> None \<Longrightarrow> length (content s') < length (content s)" by auto
qed

lemma content_of_read_varint: "read_varint vdec s = Ok (v, s') \<Longrightarrow> length (content s') \<le> length (content s)"
  using content_of_read_varint_or_eof(1) [of vdec s]
  by (fastforce simp: read_varint_def rbind_Inr_iff)

lemma content_of_drain_payload:
  "drain_payload ft n s out = (out', Ok s') \<Longrightarrow> length (content s') \<le> length (content s)"
proof (induction ft n s out rule: drain_payload.induct)
  case (1 ft n s out)
  show ?case
  proof (cases "n = 0")
    case True
    with 1(2) show ?thesis by (simp add: drain_payload.simps)
  next
    case False
    with 1(2) obtain d s1 o1 where *: "sread (min n RELAY_BUF) s = Ok (d, s1)" "d \<noteq> []"
      "(if ft = 0x00 then write_all d out else (out, Ok ())) = (o1, Ok ())"
      "drain_payload ft (n - length d) s1 o1 = (out', Ok s')"
      by (subst (asm) drain_payload.simps) (auto split: sum.splits prod.splits if_splits)
    then show ?thesis
      using 1(1) [OF False *(1) _ *(2) *(3) [symmetric]] content_less_of_sread [OF *(1,2)]
      by fastforce
  qed
qed

function drain_download :: "vdec \<Rightarrow> rstream \<Rightarrow> wsink \<Rightarrow> wsink \<times> (IoErr, unit) result" where
  "drain_download vdec recv out =
     (case read_varint_or_eof vdec recv of
        Inl e \<Rightarrow> (out, Err e)
      | Inr (None, _) \<Rightarrow> (out, Ok ())
      | Inr (Some frame_type, recv) \<Rightarrow>
          (case read_varint vdec recv of
             Inl e \<Rightarrow> (out, Err e)
           | Inr (remaining, recv) \<Rightarrow>
               (case drain_payload frame_type (unat remaining) recv out of
                  (out, Inl e) \<Rightarrow> (out, Err e)
                | (out, Inr recv) \<Rightarrow> drain_download vdec recv out)))"
  by pat_completeness auto
termination
proof (relation "measure (\<lambda>(vdec, recv, out). length (content recv))", goal_cases)
  case (2 vdec recv out y x1 x2 ft y' x1a x2a xb yb s')
  then show ?case
    using content_of_read_varint_or_eof(2) [of vdec recv "Some ft" x2]
      content_of_read_varint [of vdec x2 x1a x2a] content_of_drain_payload [of ft "unat x1a" x2a out xb s']
    by fastforce
qed simp

declare drain_download.simps [simp del]

text \<open>\<^verbatim>\<open>drain_upload\<close>: each read becomes one DATA frame; \<open>None\<close> is a panic of the codec.\<close>

function drain_upload :: "venc \<Rightarrow> rstream \<Rightarrow> wsink \<Rightarrow> (wsink \<times> (IoErr, unit) result) option" where
  "drain_upload venc input send =
     (case sread RELAY_BUF input of
        Inl e \<Rightarrow> Some (send, Err e)
      | Inr (data, input) \<Rightarrow>
          if data = [] then Some (send, Ok ())
          else
            case data_frame venc [] data of
              None \<Rightarrow> None
            | Some frame \<Rightarrow>
                (case write_all frame send of
                   (send, Inl _) \<Rightarrow> Some (send, Err OtherIo)
                 | (send, Inr _) \<Rightarrow> drain_upload venc input send))"
  by pat_completeness auto
termination
  by (relation "measure (\<lambda>(venc, input, send). length (content input))")
     (auto dest: content_less_of_sread)

declare drain_upload.simps [simp del]

text \<open>
  \<^verbatim>\<open>pump\<close>: the results of the two directions, and which of them \<^verbatim>\<open>select!\<close> sees first.
  \<open>finish\<close> is the outcome of closing the sending side after a clean upload.
\<close>

definition upload_result :: "(IoErr, unit) result \<Rightarrow> (IoErr, unit) result \<Rightarrow> (IoErr, unit) result" where
  "upload_result drained finish = (case drained of Inl e \<Rightarrow> Err e | Inr _ \<Rightarrow> finish)"

definition pump ::
  "bool \<Rightarrow> (IoErr, unit) result \<Rightarrow> (IoErr, unit) result \<Rightarrow> (IoErr, unit) result \<Rightarrow> (IoErr, unit) result" where
  "pump download_first download drained finish =
     (if download_first then download
      else rbind (upload_result drained finish) (\<lambda>_. download))"

text \<open>\<^verbatim>\<open>FramedStream::poll_read\<close>: \<open>filled\<close> is what the inner read added to the buffer.\<close>

datatype inner_read = InnerPending | InnerErr IoErr | InnerRead bytes

record framed_stream =
  pump_task :: "(IoErr, unit) result poll option"

definition framed_poll_read ::
  "framed_stream \<Rightarrow> nat \<Rightarrow> inner_read \<Rightarrow> framed_stream \<times> (IoErr, bytes) result poll" where
  "framed_poll_read st remaining io =
     (case io of
        InnerPending \<Rightarrow> (st, Pending)
      | InnerErr e \<Rightarrow> (st, Ready (Err e))
      | InnerRead filled \<Rightarrow>
          if remaining \<noteq> 0 \<and> filled = [] then
            (case pump_task st of
               None \<Rightarrow> (st, Ready (Ok []))
             | Some Pending \<Rightarrow> (st, Pending)
             | Some (Ready r) \<Rightarrow>
                 (st\<lparr>pump_task := None\<rparr>, Ready (rbind r (\<lambda>_. Ok []))))
          else (st, Ready (Ok filled)))"

section \<open>Frames on the wire\<close>

text \<open>A frame with any valid (not only the shortest) coding of its two integers.\<close>

definition is_frame :: "vdec \<Rightarrow> u64 \<Rightarrow> bytes \<Rightarrow> bytes \<Rightarrow> bytes \<Rightarrow> bytes \<Rightarrow> bool" where
  "is_frame vdec ft payload b1 b2 bs \<longleftrightarrow>
     bs = b1 @ b2 @ payload \<and> vdec b1 = Some (ft, []) \<and> vdec b2 = Some (of_nat (length payload), [])
     \<and> length payload < 2 ^ 62"

fun wire_frames :: "vdec \<Rightarrow> (u64 \<times> bytes) list \<Rightarrow> bytes \<Rightarrow> bool" where
  "wire_frames vdec [] bs \<longleftrightarrow> bs = []"
| "wire_frames vdec ((ft, payload) # fs) bs \<longleftrightarrow>
     (\<exists>b1 b2 b rest. is_frame vdec ft payload b1 b2 b \<and> bs = b @ rest \<and> wire_frames vdec fs rest)"

lemma wire_frames_ConsI:
  "is_frame vdec ft payload b1 b2 b \<Longrightarrow> wire_frames vdec fs rest \<Longrightarrow>
     wire_frames vdec ((ft, payload) # fs) (b @ rest)"
  by auto

definition data_of :: "(u64 \<times> bytes) list \<Rightarrow> bytes" where
  "data_of fs = concat (map (\<lambda>(ft, payload). if ft = 0 then payload else []) fs)"

lemma data_of_simps [simp]:
  "data_of [] = []"
  "data_of ((ft, payload) # fs) = (if ft = 0 then payload else []) @ data_of fs"
  by (simp_all add: data_of_def)

lemma drain_payload_whole:
  assumes "stream_of (p @ w) t s" "room out = None"
  shows "\<exists>s'. drain_payload ft (length p) s out =
      (out\<lparr>written := written out @ (if ft = 0 then p else [])\<rparr>, Ok s') \<and> stream_of w t s'"
  using assms
proof (induction "length p" arbitrary: p s out rule: less_induct)
  case less
  show ?case
  proof (cases "p = []")
    case True
    with less.prems show ?thesis by (simp add: drain_payload.simps)
  next
    case False
    let ?n = "min (length p) RELAY_BUF"
    have n: "0 < ?n" using False by (simp add: RELAY_BUF_def)
    obtain d w' s' where r: "sread ?n s = Ok (d, s')" "p @ w = d @ w'" "stream_of w' t s'"
      "d \<noteq> []" "length d \<le> ?n"
      using sread_nonempty [OF n less.prems(1)] False by blast
    obtain p' where p': "p = d @ p'" "w' = p' @ w"
      using r(2,5) by (metis append_eq_append_conv_if append_take_drop_id le_trans min.cobounded1)
    let ?out = "out\<lparr>written := written out @ (if ft = 0 then d else [])\<rparr>"
    have step: "drain_payload ft (length p) s out = drain_payload ft (length p - length d) s' ?out"
      using r(1,4) False less.prems(2) by (simp add: drain_payload.simps [of ft "length p" s])
    obtain s'' where "drain_payload ft (length p') s' ?out =
        (?out\<lparr>written := written ?out @ (if ft = 0 then p' else [])\<rparr>, Ok s'')" "stream_of w t s''"
      using less.hyps [of p' s' ?out] r p' less.prems(2) by auto
    then show ?thesis unfolding step using p' by auto
  qed
qed

lemma drain_payload_cut:
  assumes "stream_of p t s" "length p < n" "room out = None"
  shows "drain_payload ft n s out =
      (out\<lparr>written := written out @ (if ft = 0 then p else [])\<rparr>, Err (end_err t))"
  using assms
proof (induction "length p" arbitrary: p n s out rule: less_induct)
  case less
  let ?n = "min n RELAY_BUF"
  have n: "0 < ?n" "n \<noteq> 0" using less.prems by (auto simp: RELAY_BUF_def)
  show ?case
  proof (cases "p = []")
    case True
    with less.prems(1) n sread_empty [of ?n t s] show ?thesis
      by (auto simp: drain_payload.simps [of ft n s] end_err_def split: option.splits)
  next
    case False
    obtain d w' s' where r: "sread ?n s = Ok (d, s')" "p = d @ w'" "stream_of w' t s'"
      "d \<noteq> []" "length d \<le> ?n"
      using sread_nonempty [OF n(1) less.prems(1) False] by blast
    let ?out = "out\<lparr>written := written out @ (if ft = 0 then d else [])\<rparr>"
    have "drain_payload ft (n - length d) s' ?out =
        (?out\<lparr>written := written ?out @ (if ft = 0 then w' else [])\<rparr>, Err (end_err t))"
      using less.hyps [of w' s' "n - length d" ?out] r less.prems by simp
    then show ?thesis
      using r n less.prems(3) by (auto simp: drain_payload.simps [of ft n s])
  qed
qed

context quic_varint
begin

lemma header_bytes: "vdec b = Some (v, []) \<Longrightarrow> b \<noteq> [] \<and> length b = varint_len (hd b)"
  using dec_defined [of b] dec_rest [of b v "[]"] by auto

lemma read_varint_or_eof_value:
  assumes "stream_of (b @ w) t s" "vdec b = Some (v, [])"
  shows "\<exists>s'. read_varint_or_eof vdec s = Ok (Some v, s') \<and> stream_of w t s'"
proof -
  obtain x xs where b: "b = x # xs" "length xs = varint_len x - 1"
    using header_bytes [OF assms(2)] by (cases b) auto
  obtain d w' s1 where r: "sread 1 s = Ok (d, s1)" "b @ w = d @ w'" "stream_of w' t s1" "d \<noteq> []" "length d \<le> 1"
    using sread_nonempty [OF _ assms(1)] b(1) by (metis append_is_Nil_conv list.distinct(1) zero_less_one)
  then have d: "d = [x]" "w' = xs @ w" using b(1) by (cases d; auto)+
  then obtain s' where "read_exact (varint_len x - 1) s1 = Ok (xs, s')" "stream_of w t s'"
    using read_exact_Ok [OF r(3), of "varint_len x - 1"] b(2) by auto
  then show ?thesis
    using r(1) d b(1) assms(2) by (auto simp: read_varint_or_eof_def varint_read_def)
qed

lemma read_varint_or_eof_end:
  assumes "stream_of [] t s"
  shows "case t of Some e \<Rightarrow> read_varint_or_eof vdec s = Err e
    | None \<Rightarrow> \<exists>s'. read_varint_or_eof vdec s = Ok (None, s')"
  using sread_empty [OF _ assms, of 1] by (auto simp: read_varint_or_eof_def split: option.splits)

lemma read_varint_or_eof_cut:
  assumes "stream_of (take k b) t s" "vdec b = Some (v, [])" "0 < k" "k < length b"
  shows "read_varint_or_eof vdec s = Err (end_err t)"
proof -
  obtain x xs where b: "b = x # xs" "length xs = varint_len x - 1"
    using header_bytes [OF assms(2)] by (cases b) auto
  obtain d w' s1 where r: "sread 1 s = Ok (d, s1)" "take k b = d @ w'" "stream_of w' t s1" "d \<noteq> []" "length d \<le> 1"
    using sread_nonempty [OF _ assms(1)] assms(3) b(1) by (metis take_eq_Nil list.distinct(1) zero_less_one less_irrefl)
  then have d: "d = [x]" "w' = take (k - 1) xs" using b(1) assms(3) by (cases d; cases k; auto)+
  then have "read_exact (varint_len x - 1) s1 = Err (end_err t)"
    using read_exact_short [OF r(3), of "varint_len x - 1"] b assms(3,4) by auto
  then show ?thesis
    using r(1) d by (simp add: read_varint_or_eof_def)
qed

lemma read_varint_value:
  assumes "stream_of (b @ w) t s" "vdec b = Some (v, [])"
  shows "\<exists>s'. read_varint vdec s = Ok (v, s') \<and> stream_of w t s'"
  using read_varint_or_eof_value [OF assms] by (auto simp: read_varint_def)

lemma read_varint_cut:
  assumes "stream_of (take k b) t s" "vdec b = Some (v, [])" "k < length b"
  shows "read_varint vdec s = Err (end_err t)"
proof (cases "k = 0")
  case True
  then show ?thesis
    using read_varint_or_eof_end [of t s] assms(1)
    by (auto simp: read_varint_def end_err_def split: option.splits)
next
  case False
  then show ?thesis
    using read_varint_or_eof_cut [OF assms(1,2)] assms(3) by (simp add: read_varint_def)
qed

lemma drain_download_step:
  assumes "stream_of (b @ w) t s" "is_frame vdec ft p b1 b2 b" "room out = None"
  shows "\<exists>s'. drain_download vdec s out =
      drain_download vdec s' (out\<lparr>written := written out @ (if ft = 0 then p else [])\<rparr>)
    \<and> stream_of w t s'"
proof -
  have f: "stream_of (b1 @ b2 @ p @ w) t s" "vdec b1 = Some (ft, [])"
    "vdec b2 = Some (of_nat (length p), [])" "unat (of_nat (length p) :: u64) = length p"
    using assms(1,2) by (auto simp: is_frame_def unat_length)
  obtain s1 where 1: "read_varint_or_eof vdec s = Ok (Some ft, s1)" "stream_of (b2 @ p @ w) t s1"
    using read_varint_or_eof_value [OF f(1,2)] by auto
  obtain s2 where 2: "read_varint vdec s1 = Ok (of_nat (length p), s2)" "stream_of (p @ w) t s2"
    using read_varint_value [OF 1(2) f(3)] by auto
  obtain s3 where 3: "drain_payload ft (length p) s2 out =
      (out\<lparr>written := written out @ (if ft = 0 then p else [])\<rparr>, Ok s3)" "stream_of w t s3"
    using drain_payload_whole [OF 2(2) assms(3)] by blast
  show ?thesis
    using 3 by (intro exI [of _ s3]) (simp add: drain_download.simps [of vdec s] 1 2 f(4))
qed

lemma drain_download_frames:
  assumes "wire_frames vdec fs bs" "stream_of (bs @ w) t s" "room out = None"
  shows "\<exists>s'. drain_download vdec s out =
      drain_download vdec s' (out\<lparr>written := written out @ data_of fs\<rparr>) \<and> stream_of w t s'"
  using assms
proof (induction fs arbitrary: bs s out)
  case Nil
  then show ?case by (intro exI [of _ s]) simp
next
  case (Cons f fs)
  obtain ft p where f: "f = (ft, p)" by force
  then obtain b1 b2 b rest where b: "is_frame vdec ft p b1 b2 b" "bs = b @ rest" "wire_frames vdec fs rest"
    using Cons.prems(1) by auto
  let ?out = "out\<lparr>written := written out @ (if ft = 0 then p else [])\<rparr>"
  obtain s1 where s1: "drain_download vdec s out = drain_download vdec s1 ?out" "stream_of (rest @ w) t s1"
    using drain_download_step [of b "rest @ w" t s ft p b1 b2 out] b(1,2) Cons.prems(2,3) by auto
  obtain s2 where "drain_download vdec s1 ?out =
      drain_download vdec s2 (?out\<lparr>written := written ?out @ data_of fs\<rparr>)" "stream_of w t s2"
    using Cons.IH [OF b(3) s1(2), of ?out] Cons.prems(3) by auto
  with s1 show ?case by (auto simp: f)
qed

lemma drain_download_end:
  assumes "stream_of [] t s"
  shows "drain_download vdec s out = (out, case t of None \<Rightarrow> Ok () | Some e \<Rightarrow> Err e)"
  using read_varint_or_eof_end [OF assms]
  by (auto simp: drain_download.simps [of vdec s] split: option.splits)

lemma drain_download_cut:
  assumes "stream_of (take k b) t s" "is_frame vdec ft p b1 b2 b" "0 < k" "k < length b" "room out = None"
  shows "drain_download vdec s out =
    (out\<lparr>written := written out @ (if ft = 0 then drop (length (b1 @ b2)) (take k b) else [])\<rparr>,
     Err (end_err t))"
proof -
  have f: "b = b1 @ b2 @ p" "vdec b1 = Some (ft, [])"
    "vdec b2 = Some (of_nat (length p), [])" "unat (of_nat (length p) :: u64) = length p"
    using assms(2) by (auto simp: is_frame_def unat_length)
  consider "k < length b1" | "length b1 \<le> k" "k < length (b1 @ b2)" | "length (b1 @ b2) \<le> k"
    by fastforce
  then show ?thesis
  proof cases
    case 1
    then have "read_varint_or_eof vdec s = Err (end_err t)"
      using read_varint_or_eof_cut [OF _ f(2) assms(3)] assms(1) f(1) by simp
    with 1 f(1) show ?thesis by (simp add: drain_download.simps [of vdec s])
  next
    case 2
    then have "stream_of (b1 @ take (k - length b1) b2) t s" using assms(1) f(1) by simp
    then obtain s1 where 1: "read_varint_or_eof vdec s = Ok (Some ft, s1)"
      "stream_of (take (k - length b1) b2) t s1"
      using read_varint_or_eof_value f(2) by blast
    then have "read_varint vdec s1 = Err (end_err t)"
      using read_varint_cut [OF 1(2) f(3)] 2 by simp
    with 1 2 f(1) show ?thesis by (simp add: drain_download.simps [of vdec s])
  next
    case 3
    let ?q = "take (k - length (b1 @ b2)) p"
    have cut: "take k b = b1 @ b2 @ ?q" using 3 f(1) by simp
    then obtain s1 where 1: "read_varint_or_eof vdec s = Ok (Some ft, s1)" "stream_of (b2 @ ?q) t s1"
      using read_varint_or_eof_value [of b1 "b2 @ ?q" t s ft] f(2) assms(1) by auto
    obtain s2 where 2: "read_varint vdec s1 = Ok (of_nat (length p), s2)" "stream_of ?q t s2"
      using read_varint_value [OF 1(2) f(3)] by auto
    have "length ?q < length p" using 3 assms(4) f(1) by simp
    then show ?thesis
      using drain_payload_cut [OF 2(2) _ assms(5), of "length p" ft] cut f(4)
      by (simp add: drain_download.simps [of vdec s] 1 2)
  qed
qed

text \<open>
  A download that has got as far as the first \<open>k\<close> bytes has delivered a prefix of the data, with all
  of the frames that lie within them.
\<close>

lemma drain_download_until:
  assumes "wire_frames vdec fs bs" "stream_of (take k bs) t s" "room out = None"
  shows "\<exists>w. written (fst (drain_download vdec s out)) = written out @ w \<and> prefix w (data_of fs)"
  using assms
proof (induction fs arbitrary: bs s out k)
  case Nil
  then show ?case using drain_download_end [of t s out] by simp
next
  case (Cons f fs)
  obtain ft p where f: "f = (ft, p)" by force
  then obtain b1 b2 b rest where b: "is_frame vdec ft p b1 b2 b" "bs = b @ rest" "wire_frames vdec fs rest"
    using Cons.prems(1) by auto
  have "drop (length (b1 @ b2)) b = p" using b(1) by (simp add: is_frame_def)
  then have part: "prefix (drop (length (b1 @ b2)) (take k b)) p" by (simp only: drop_take take_is_prefix)
  consider "k = 0" | "0 < k" "k < length b" | "length b \<le> k" by linarith
  then show ?case
  proof cases
    case 1
    then show ?thesis using Cons.prems(2) drain_download_end [of t s out] by simp
  next
    case 2
    then have "stream_of (take k b) t s" using Cons.prems(2) b(2) by simp
    from drain_download_cut [OF this b(1) 2 Cons.prems(3)] part show ?thesis by (auto simp: f prefix_def)
  next
    case 3
    have "wire_frames vdec [f] b" using wire_frames_ConsI [OF b(1), of "[]" "[]"] by (simp add: f)
    moreover have "stream_of (b @ take (k - length b) rest) t s" using Cons.prems(2) b(2) 3 by simp
    ultimately obtain s' where s': "drain_download vdec s out =
        drain_download vdec s' (out\<lparr>written := written out @ data_of [f]\<rparr>)" "stream_of (take (k - length b) rest) t s'"
      using drain_download_frames Cons.prems(3) by blast
    from Cons.IH [OF b(3) s'(2), of "out\<lparr>written := written out @ data_of [f]\<rparr>"] Cons.prems(3)
    show ?thesis by (auto simp: s'(1) f)
  qed
qed

lemma drain_download_until_frames:
  assumes "wire_frames vdec fs bs" "wire_frames vdec fs' bs'" "stream_of (take k (bs @ bs')) t s" "room out = None"
    and "length bs \<le> k"
  shows "\<exists>w. written (fst (drain_download vdec s out)) = written out @ data_of fs @ w \<and> prefix w (data_of fs')"
proof -
  have "stream_of (bs @ take (k - length bs) bs') t s" using assms(3,5) by simp
  then obtain s' where s': "drain_download vdec s out =
      drain_download vdec s' (out\<lparr>written := written out @ data_of fs\<rparr>)" "stream_of (take (k - length bs) bs') t s'"
    using drain_download_frames [OF assms(1) _ assms(4)] by blast
  show ?thesis
    using drain_download_until [OF assms(2) s'(2), of "out\<lparr>written := written out @ data_of fs\<rparr>"] assms(4)
    by (auto simp: s'(1))
qed

lemma frame_written:
  assumes "length payload < 2 ^ 62" "unat ft < 2 ^ 62"
  shows "\<exists>b1 b2. write_frame venc out ft payload = Some (out @ b1 @ b2 @ payload)
    \<and> is_frame vdec ft payload b1 b2 (b1 @ b2 @ payload)"
proof -
  obtain b1 where 1: "venc ft = Some b1" "vdec (b1 @ []) = Some (ft, [])"
    using enc_obtain [OF assms(2)] by metis
  have "unat (of_nat (length payload) :: u64) < 2 ^ 62"
    using assms(1) unat_length [of payload] by simp
  then obtain b2 where 2: "venc (of_nat (length payload)) = Some b2"
    "vdec (b2 @ []) = Some (of_nat (length payload), [])"
    using enc_obtain by metis
  show ?thesis using 1 2 assms(1)
    by (intro exI [of _ b1] exI [of _ b2]) (simp add: write_frame_def varint_write_def is_frame_def)
qed

lemma drain_upload_frames:
  assumes "stream_of w t s" "room send = None"
  shows "\<exists>ps bs. drain_upload venc s send =
      Some (send\<lparr>written := written send @ bs\<rparr>, case t of None \<Rightarrow> Ok () | Some e \<Rightarrow> Err e)
    \<and> wire_frames vdec (map (Pair 0) ps) bs \<and> concat ps = w
    \<and> (\<forall>p\<in>set ps. p \<noteq> [] \<and> length p \<le> RELAY_BUF)"
  using assms
proof (induction "length w" arbitrary: w s send rule: less_induct)
  case less
  have buf: "0 < RELAY_BUF" by (simp add: RELAY_BUF_def)
  show ?case
  proof (cases "w = []")
    case True
    with sread_empty [OF buf, of t s] less.prems
    show ?thesis
      by (intro exI [of _ "[]"]) (auto simp: drain_upload.simps [of venc s] split: option.splits)
  next
    case False
    obtain d w' s' where r: "sread RELAY_BUF s = Ok (d, s')" "w = d @ w'" "stream_of w' t s'"
      "d \<noteq> []" "length d \<le> RELAY_BUF"
      using sread_nonempty [OF buf less.prems(1) False] by blast
    obtain b1 b2 where f: "data_frame venc [] d = Some (b1 @ b2 @ d)" "is_frame vdec 0 d b1 b2 (b1 @ b2 @ d)"
      using frame_written [of d 0 "[]"] r(5) by (auto simp: data_frame_def RELAY_BUF_def)
    let ?send = "send\<lparr>written := written send @ b1 @ b2 @ d\<rparr>"
    obtain ps bs where ps: "drain_upload venc s' ?send =
        Some (?send\<lparr>written := written ?send @ bs\<rparr>, case t of None \<Rightarrow> Ok () | Some e \<Rightarrow> Err e)"
      "wire_frames vdec (map (Pair 0) ps) bs" "concat ps = w'"
      "\<forall>p\<in>set ps. p \<noteq> [] \<and> length p \<le> RELAY_BUF"
      using less.hyps [of w' s' ?send] r less.prems(2) by auto
    have "wire_frames vdec (map (Pair 0) (d # ps)) ((b1 @ b2 @ d) @ bs)"
      using wire_frames_ConsI [OF f(2) ps(2)] by simp
    moreover have "drain_upload venc s send = drain_upload venc s' ?send"
      using r(1,4) f(1) less.prems(2) by (simp add: drain_upload.simps [of venc s])
    ultimately show ?thesis
      using ps r by (intro exI [of _ "d # ps"] exI [of _ "(b1 @ b2 @ d) @ bs"]) auto
  qed
qed

lemma discard_frame_whole:
  assumes "stream_of (p @ w) t s"
  shows "\<exists>s'. discard_frame s (length p) = Ok s' \<and> stream_of w t s'"
  using assms
proof (induction "length p" arbitrary: p s rule: less_induct)
  case less
  show ?case
  proof (cases "p = []")
    case True
    with less.prems show ?thesis by (simp add: discard_frame.simps)
  next
    case False
    let ?n = "min (length p) RELAY_BUF"
    have n: "0 < ?n" "?n \<le> length p" using False by (auto simp: RELAY_BUF_def)
    obtain s1 where 1: "read_exact ?n s = Ok (take ?n p, s1)" "stream_of (drop ?n p @ w) t s1"
      using read_exact_Ok [OF less.prems, of ?n] n by auto
    obtain s' where "discard_frame s1 (length (drop ?n p)) = Ok s'" "stream_of w t s'"
      using less.hyps [OF _ 1(2)] n False by auto
    moreover have "length (drop ?n p) = length p - ?n" by simp
    ultimately show ?thesis
      using 1 False by (simp add: discard_frame.simps [of s "length p"] Let_def)
  qed
qed

lemma find_headers_skip:
  assumes "stream_of (b @ w) t s" "is_frame vdec ft p b1 b2 b" "ft \<noteq> 1"
  shows "\<exists>s'. find_headers vdec (Suc n) s = find_headers vdec n s' \<and> stream_of w t s'"
proof -
  have f: "stream_of (b1 @ b2 @ p @ w) t s" "vdec b1 = Some (ft, [])"
    "vdec b2 = Some (of_nat (length p), [])" "unat (of_nat (length p) :: u64) = length p"
    using assms(1,2) by (auto simp: is_frame_def unat_length)
  obtain s1 where 1: "read_varint vdec s = Ok (ft, s1)" "stream_of (b2 @ p @ w) t s1"
    using read_varint_value [OF f(1,2)] by auto
  obtain s2 where 2: "read_varint vdec s1 = Ok (of_nat (length p), s2)" "stream_of (p @ w) t s2"
    using read_varint_value [OF 1(2) f(3)] by auto
  obtain s3 where 3: "discard_frame s2 (length p) = Ok s3" "stream_of w t s3"
    using discard_frame_whole [OF 2(2)] by blast
  show ?thesis using 1 2 3 f(4) assms(3) by (intro exI [of _ s3]) simp
qed

lemma find_headers_spec:
  assumes "wire_frames vdec fs bs" "\<forall>(ft, p)\<in>set fs. ft \<noteq> 1" "is_frame vdec 1 payload b1 b2 b"
    and "length payload \<le> MAX_HEADERS_FRAME_SIZE" "stream_of (bs @ b @ rest) t s"
  shows "if length fs < n then \<exists>s'. find_headers vdec n s = Ok (payload, s') \<and> stream_of rest t s'
    else find_headers vdec n s = Err TooManyFrames"
  using assms
proof (induction n arbitrary: fs bs s)
  case (Suc n)
  show ?case
  proof (cases fs)
    case Nil
    then have f: "stream_of (b1 @ b2 @ payload @ rest) t s" "vdec b1 = Some (1, [])"
      "vdec b2 = Some (of_nat (length payload), [])"
      "unat (of_nat (length payload) :: u64) = length payload"
      using Suc.prems by (auto simp: is_frame_def unat_length)
    obtain s1 where 1: "read_varint vdec s = Ok (1, s1)" "stream_of (b2 @ payload @ rest) t s1"
      using read_varint_value [OF f(1,2)] by auto
    obtain s2 where 2: "read_varint vdec s1 = Ok (of_nat (length payload), s2)" "stream_of (payload @ rest) t s2"
      using read_varint_value [OF 1(2) f(3)] by auto
    obtain s3 where "read_exact (length payload) s2 = Ok (payload, s3)" "stream_of rest t s3"
      using read_exact_Ok [OF 2(2), of "length payload"] by auto
    with 1 2 f(4) Suc.prems(4) Nil show ?thesis by (simp add: checked_headers_len_def)
  next
    case (Cons f fs')
    obtain ft p where f: "f = (ft, p)" by force
    then obtain c1 c2 c r where c: "is_frame vdec ft p c1 c2 c" "bs = c @ r" "wire_frames vdec fs' r"
      using Suc.prems(1) Cons by auto
    obtain s1 where s1: "find_headers vdec (Suc n) s = find_headers vdec n s1" "stream_of (r @ b @ rest) t s1"
      using find_headers_skip [of c "r @ b @ rest" t s ft p c1 c2 n] c(1,2) Suc.prems(2,5) Cons f by auto
    with Suc.IH [OF c(3) _ Suc.prems(3,4) s1(2)] Suc.prems(2) Cons show ?thesis by auto
  qed
qed simp

end

section \<open>Properties\<close>

text \<open>
  C16: whatever the chunking, a received stream of whole frames is delivered as the
  concatenation of the payloads of its DATA frames, other frames being dropped; the download
  ends cleanly exactly when the stream itself ends cleanly at a frame boundary.
\<close>

theorem download_delivers_data:
  assumes "quic_varint venc vdec" "wire_frames vdec fs bs" "stream_of bs t recv"
  shows "drain_download vdec recv open_sink =
    (\<lparr>written = data_of fs, room = None\<rparr>, case t of None \<Rightarrow> Ok () | Some e \<Rightarrow> Err e)"
proof -
  obtain s' where "drain_download vdec recv open_sink =
      drain_download vdec s' (open_sink\<lparr>written := written open_sink @ data_of fs\<rparr>)" "stream_of [] t s'"
    using quic_varint.drain_download_frames [OF assms(1,2), of "[]" t recv open_sink] assms(3)
    by (auto simp: open_sink_def)
  then show ?thesis
    using quic_varint.drain_download_end [OF assms(1)] by (simp add: open_sink_def)
qed

lemma rfc_frames_example:
  "wire_frames rfc_dec [(0, [1, 2]), (0x21, [9]), (0, [3])] ([0, 2, 1, 2] @ [0x21, 1, 9] @ [0, 1, 3])"
proof -
  have "is_frame rfc_dec 0 [1, 2] [0] [2] [0, 2, 1, 2]" "is_frame rfc_dec 0x21 [9] [0x21] [1] [0x21, 1, 9]"
    "is_frame rfc_dec 0 [3] [0] [1] [0, 1, 3]"
    by (simp_all add: is_frame_def rfc_dec_def varint_len_def be_val_def)
  then show ?thesis using wire_frames_ConsI by (metis append_Nil2 wire_frames.simps(1))
qed

theorem download_delivers_data_witness:
  "drain_download rfc_dec
     \<lparr>chunks = [[0, 2, 1], [2, 0x21], [1, 9, 0, 1], [3]], tail_err = None\<rparr> open_sink =
   (\<lparr>written = [1, 2, 3], room = None\<rparr>, Ok ())"
  using download_delivers_data [OF rfc.quic_varint_axioms rfc_frames_example, of None
      "\<lparr>chunks = [[0, 2, 1], [2, 0x21], [1, 9, 0, 1], [3]], tail_err = None\<rparr>"]
  by (simp add: stream_of_def content_def)

text \<open>
  C19: a stream that breaks off inside a frame, at any byte of its header or payload, is
  reported as an error (an unexpected end, or the stream's own error), after everything that
  arrived before has been delivered, including the received part of the cut DATA frame.
\<close>

theorem download_reports_truncation:
  assumes "quic_varint venc vdec" "wire_frames vdec fs bs" "is_frame vdec ft payload b1 b2 b"
    and "0 < k" "k < length b" "stream_of (bs @ take k b) t recv"
  shows "drain_download vdec recv open_sink =
    (\<lparr>written = data_of fs @ (if ft = 0 then drop (length (b1 @ b2)) (take k b) else []), room = None\<rparr>,
     Err (end_err t))"
proof -
  obtain s' where "drain_download vdec recv open_sink =
      drain_download vdec s' (open_sink\<lparr>written := written open_sink @ data_of fs\<rparr>)"
    "stream_of (take k b) t s'"
    using quic_varint.drain_download_frames [OF assms(1,2,6), of open_sink] by (auto simp: open_sink_def)
  then show ?thesis
    using quic_varint.drain_download_cut [OF assms(1) _ assms(3-5)] by (simp add: open_sink_def)
qed

theorem download_reports_truncation_witness:
  "drain_download rfc_dec
     \<lparr>chunks = [[0, 2, 1, 2, 0x21, 1, 9, 0], [1, 3, 0, 3], [7, 8]], tail_err = None\<rparr> open_sink =
   (\<lparr>written = [1, 2, 3, 7, 8], room = None\<rparr>, Err UnexpectedEof)"
proof -
  have "is_frame rfc_dec 0 [7, 8, 9] [0] [3] [0, 3, 7, 8, 9]"
    by (simp add: is_frame_def rfc_dec_def varint_len_def be_val_def)
  from download_reports_truncation [OF rfc.quic_varint_axioms rfc_frames_example this, of 4 None
      "\<lparr>chunks = [[0, 2, 1, 2, 0x21, 1, 9, 0], [1, 3, 0, 3], [7, 8]], tail_err = None\<rparr>"]
  show ?thesis by (simp add: stream_of_def content_def end_err_def)
qed

text \<open>
  C9: the two directions fit together: uploading a stream writes DATA frames of at most
  64 KiB from which, however the network regroups them, the download at the other end recovers
  exactly the uploaded bytes.
\<close>

theorem upload_then_download:
  assumes "quic_varint venc vdec" "stream_of w None input"
  shows "\<exists>sent. drain_upload venc input open_sink = Some (\<lparr>written = sent, room = None\<rparr>, Ok ())
    \<and> (\<forall>recv. stream_of sent None recv \<longrightarrow>
         drain_download vdec recv open_sink = (\<lparr>written = w, room = None\<rparr>, Ok ()))"
proof -
  obtain ps bs where up: "drain_upload venc input open_sink =
      Some (open_sink\<lparr>written := written open_sink @ bs\<rparr>, Ok ())"
    "wire_frames vdec (map (Pair 0) ps) bs" "concat ps = w"
    using quic_varint.drain_upload_frames [OF assms(1,2), of open_sink] by (auto simp: open_sink_def)
  have data: "data_of (map (Pair 0) ps) = w" using up(3) by (simp add: data_of_def comp_def)
  have "drain_download vdec recv open_sink = (\<lparr>written = w, room = None\<rparr>, Ok ())"
    if "stream_of bs None recv" for recv
    using quic_varint.drain_download_frames [OF assms(1) up(2), of "[]" None recv open_sink] that
      quic_varint.drain_download_end [OF assms(1)] data by (auto simp: open_sink_def)
  then show ?thesis using up(1) by (intro exI [of _ bs]) (simp add: open_sink_def)
qed

theorem upload_then_download_witness:
  "\<exists>sent. drain_upload rfc_enc \<lparr>chunks = [[1, 2], [3]], tail_err = None\<rparr> open_sink =
      Some (\<lparr>written = sent, room = None\<rparr>, Ok ())
    \<and> (\<forall>recv. stream_of sent None recv \<longrightarrow>
         drain_download rfc_dec recv open_sink = (\<lparr>written = [1, 2, 3], room = None\<rparr>, Ok ()))"
  by (rule upload_then_download [OF rfc.quic_varint_axioms]) (simp add: stream_of_def content_def)

text \<open>
  C10: the CONNECT exchange sends one HEADERS frame with the encoded request and, after fewer
  than eight other frames, reads one HEADERS frame of at most 64 KiB: it succeeds exactly if
  its field section has status 200, returning the colo and the stream positioned behind the
  frame, and fails with the decoder's error or the other status otherwise; after eight other
  frames it gives up.
\<close>

theorem exchange_outcome:
  assumes "quic_varint venc vdec" "wire_frames vdec fs bs" "\<forall>(ft, p)\<in>set fs. ft \<noteq> 1"
    and "is_frame vdec 1 payload b1 b2 b" "length payload \<le> MAX_HEADERS_FRAME_SIZE"
    and "stream_of (bs @ b @ rest) t recv"
    and "length (encode_connect_request authority token) < 2 ^ 62"
  shows "\<exists>sent recv'. wire_frames vdec [(1, encode_connect_request authority token)] sent
    \<and> stream_of rest t recv'
    \<and> exchange venc vdec open_sink recv authority token =
        Some (\<lparr>written = sent, room = None\<rparr>,
          if length fs < 8 then
            (case decode_headers payload of
               Inl e \<Rightarrow> Err (BadHeaders e)
             | Inr h \<Rightarrow> if resp_status h = 200 then Ok (resp_colo h, recv')
                        else Err (ConnectRejected (resp_status h)))
          else Err TooManyFrames)"
proof -
  let ?req = "encode_connect_request authority token"
  obtain c1 c2 where c: "headers_frame venc ?req = Some (c1 @ c2 @ ?req)"
    "is_frame vdec 1 ?req c1 c2 (c1 @ c2 @ ?req)"
    using quic_varint.frame_written [OF assms(1,7), of 1 "[]"] by (auto simp: headers_frame_def)
  have sent: "wire_frames vdec [(1, ?req)] (c1 @ c2 @ ?req)"
    using wire_frames_ConsI [OF c(2), of "[]" "[]"] by simp
  note find = quic_varint.find_headers_spec [OF assms(1-6), of 8]
  have ex: "\<exists>recv'. stream_of rest t recv'"
    by (intro exI [of _ "\<lparr>chunks = [rest], tail_err = t\<rparr>"]) (simp add: stream_of_def content_def)
  obtain recv' where r: "stream_of rest t recv'"
    "find_headers vdec 8 recv = (if length fs < 8 then Ok (payload, recv') else Err TooManyFrames)"
    using find ex by (auto split: if_splits)
  show ?thesis
  proof (intro exI [of _ "c1 @ c2 @ ?req"] exI [of _ recv'] conjI sent r(1))
    show "exchange venc vdec open_sink recv authority token =
        Some (\<lparr>written = c1 @ c2 @ ?req, room = None\<rparr>,
          if length fs < 8 then
            (case decode_headers payload of
               Inl e \<Rightarrow> Err (BadHeaders e)
             | Inr h \<Rightarrow> if resp_status h = 200 then Ok (resp_colo h, recv')
                        else Err (ConnectRejected (resp_status h)))
          else Err TooManyFrames)"
      using c(1) r(2) by (cases "decode_headers payload")
        (auto simp: exchange_def open_sink_def MAX_SKIPPED_FRAMES_def)
  qed
qed

lemma plain_success_headers: "decode_headers [0, 0, 0xD9] = Ok \<lparr>resp_status = 200, resp_colo = None\<rparr>"
  by (simp add: decode_headers_def skip_integer_def decode_integer_def header_lines.simps
      header_line_def Let_def)

theorem exchange_outcome_witness:
  "\<exists>sent recv'. wire_frames rfc_dec [(1, encode_connect_request ''1.1.1.1:443'' ''t'')] sent
    \<and> stream_of [9] None recv'
    \<and> exchange rfc_enc rfc_dec open_sink \<lparr>chunks = [[1], [3, 0, 0], [0xD9, 9]], tail_err = None\<rparr>
        ''1.1.1.1:443'' ''t'' = Some (\<lparr>written = sent, room = None\<rparr>, Ok (None, recv'))"
proof -
  have f: "is_frame rfc_dec 1 [0, 0, 0xD9] [1] [3] [1, 3, 0, 0, 0xD9]"
    by (simp add: is_frame_def rfc_dec_def varint_len_def be_val_def)
  show ?thesis
    using exchange_outcome [OF rfc.quic_varint_axioms, of "[]" "[]" "[0, 0, 0xD9]" "[1]" "[3]"
        "[1, 3, 0, 0, 0xD9]" "[9]" None "\<lparr>chunks = [[1], [3, 0, 0], [0xD9, 9]], tail_err = None\<rparr>"
        "''1.1.1.1:443''" "''t''"] f plain_success_headers
    by (simp add: stream_of_def content_def MAX_HEADERS_FRAME_SIZE_def encode_connect_request_def
        encode_string_def encode_integer_def str_bytes_def del: wire_frames.simps(2))
qed

text \<open>
  The framed stream reports the end of the data only when the pump has finished without
  error (or its result was already reported), and a pump that failed makes the read fail; the
  pump in turn succeeds only if the download direction ended cleanly.
\<close>

lemma eof_only_after_clean_download:
  assumes "framed_poll_read \<lparr>pump_task = Some task\<rparr> remaining io = (st', Ready (Ok []))" "remaining \<noteq> 0"
    and "task = Ready (pump first download drained finish) \<or> task = Pending"
  shows "download = Ok () \<and> pump_task st' = None"
  using assms
  by (auto simp: framed_poll_read_def pump_def upload_result_def rbind_Inr_iff
      split: inner_read.splits poll.splits if_splits sum.splits)

lemma eof_only_after_clean_download_witness:
  "framed_poll_read \<lparr>pump_task = Some (Ready (pump False (Ok ()) (Ok ()) (Ok ())))\<rparr> 16 (InnerRead []) =
     (\<lparr>pump_task = None\<rparr>, Ready (Ok [])) \<and> (Ok () :: (IoErr, unit) result) = Ok ()"
proof -
  have r: "framed_poll_read \<lparr>pump_task = Some (Ready (pump False (Ok ()) (Ok ()) (Ok ())))\<rparr> 16 (InnerRead []) =
     (\<lparr>pump_task = None\<rparr>, Ready (Ok []))"
    by (simp add: framed_poll_read_def pump_def upload_result_def)
  from eof_only_after_clean_download [OF r, of False "Ok ()" "Ok ()" "Ok ()"] r show ?thesis by simp
qed

end
