(* ===== verification/Net_Addr.thy ===== *)
theory Net_Addr
  imports Rust_Std
begin

text \<open>
  Addresses of \<^verbatim>\<open>std::net\<close>: an IPv4 address is its four octets, an IPv6 address its eight
  16-bit segments.  Also the textual forms the program relies on: the standard library's
  recursive-descent parser (an optional result and the rest of the input) and \<^verbatim>\<open>Display\<close>.
\<close>

datatype IpAddr =
    V4 u8 u8 u8 u8
  | V6 u16 u16 u16 u16 u16 u16 u16 u16

datatype SocketAddr = SockAddr (sa_ip: IpAddr) (sa_port: u16)

fun is_ipv4 :: "IpAddr \<Rightarrow> bool" where
  "is_ipv4 (V4 a b c d) = True"
| "is_ipv4 (V6 a b c d e f g h) = False"

fun octets :: "IpAddr \<Rightarrow> bytes" where
  "octets (V4 a b c d) = [a, b, c, d]"
| "octets (V6 a b c d e f g h) = concat (map to_be16 [a, b, c, d, e, f, g, h])"

fun v4_of_octets :: "bytes \<Rightarrow> IpAddr option" where
  "v4_of_octets [a, b, c, d] = Some (V4 a b c d)"
| "v4_of_octets _ = None"

fun v6_of_octets :: "bytes \<Rightarrow> IpAddr option" where
  "v6_of_octets [a0, a1, b0, b1, c0, c1, d0, d1, e0, e1, f0, f1, g0, g1, h0, h1] =
     Some (V6 (from_be16 a0 a1) (from_be16 b0 b1) (from_be16 c0 c1) (from_be16 d0 d1)
       (from_be16 e0 e1) (from_be16 f0 f1) (from_be16 g0 g1) (from_be16 h0 h1))"
| "v6_of_octets _ = None"

definition addr_len :: "IpAddr \<Rightarrow> nat" where
  "addr_len ip = (if is_ipv4 ip then 4 else 16)"

lemma length_octets [simp]: "length (octets ip) = addr_len ip"
  by (cases ip) (auto simp: addr_len_def)

lemma ip_of_octets [simp]:
  "is_ipv4 ip \<Longrightarrow> v4_of_octets (octets ip) = Some ip"
  "\<not> is_ipv4 ip \<Longrightarrow> v6_of_octets (octets ip) = Some ip"
  by (cases ip; simp add: to_be16_def)+

lemma v4_of_octets_Some: "v4_of_octets bs = Some ip \<longleftrightarrow> is_ipv4 ip \<and> bs = octets ip"
  by (induction bs rule: v4_of_octets.induct; cases ip) auto

lemma list4:
  assumes "length xs = 4"
  shows "xs = [xs ! 0, xs ! 1, xs ! 2, xs ! 3]"
  using assms by (intro nth_equalityI) (auto simp: less_Suc_eq numeral_eq_Suc)

lemma v4_of_octets_defined: "length bs = 4 \<Longrightarrow> \<exists>ip. v4_of_octets bs = Some ip"
  by (metis list4 v4_of_octets.simps(1))

lemma list16:
  assumes "length xs = 16"
  obtains a0 a1 b0 b1 c0 c1 d0 d1 e0 e1 f0 f1 g0 g1 h0 h1 where
    "xs = [a0, a1, b0, b1, c0, c1, d0, d1, e0, e1, f0, f1, g0, g1, h0, h1]"
proof -
  have "length xs = Suc (Suc (Suc (Suc (Suc (Suc (Suc (Suc (Suc (Suc (Suc (Suc (Suc (Suc (Suc (Suc 0)))))))))))))))"
    using assms by simp
  then show thesis
    by (auto simp only: length_Suc_conv length_0_conv intro: that)
qed

lemma v6_of_octets_defined: "length bs = 16 \<Longrightarrow> \<exists>ip. v6_of_octets bs = Some ip \<and> \<not> is_ipv4 ip"
  by (erule list16) auto

section \<open>Parsing\<close>

definition hex_val :: "char \<Rightarrow> nat option" where
  "hex_val c =
     (let n = of_char c :: nat in
      if 48 \<le> n \<and> n \<le> 57 then Some (n - 48)
      else if 97 \<le> n \<and> n \<le> 102 then Some (n - 87)
      else if 65 \<le> n \<and> n \<le> 70 then Some (n - 55)
      else None)"

definition is_hex :: "char \<Rightarrow> bool" where
  "is_hex c \<longleftrightarrow> hex_val c \<noteq> None"

definition hex_num :: "string \<Rightarrow> nat" where
  "hex_num s = foldl (\<lambda>a c. 16 * a + the (hex_val c)) 0 s"

text \<open>\<^verbatim>\<open>read_number\<close> in radix 10 (at most three digits, no leading zero) and 16 (at most four).\<close>

definition read_dec8 :: "string \<Rightarrow> (u8 \<times> string) option" where
  "read_dec8 s =
     (let ds = takeWhile is_digit s in
      if ds = [] \<or> 3 < length ds \<or> (hd ds = CHR ''0'' \<and> 1 < length ds) \<or> 255 < dec_val ds then None
      else Some (of_nat (dec_val ds), drop (length ds) s))"

definition read_hex16 :: "string \<Rightarrow> (u16 \<times> string) option" where
  "read_hex16 s =
     (let ds = takeWhile is_hex s in
      if ds = [] \<or> 4 < length ds then None
      else Some (of_nat (hex_num ds), drop (length ds) s))"

definition read_char :: "char \<Rightarrow> string \<Rightarrow> string option" where
  "read_char c s = (case s of [] \<Rightarrow> None | x # xs \<Rightarrow> if x = c then Some xs else None)"

text \<open>\<^verbatim>\<open>read_separator\<close>: the separator precedes every item but the first.\<close>

definition read_sep :: "char \<Rightarrow> bool \<Rightarrow> (string \<Rightarrow> ('a \<times> string) option) \<Rightarrow> string \<Rightarrow> ('a \<times> string) option" where
  "read_sep c first p s =
     (if first then p s else (case read_char c s of None \<Rightarrow> None | Some s \<Rightarrow> p s))"

definition read_ipv4 :: "string \<Rightarrow> (IpAddr \<times> string) option" where
  "read_ipv4 s =
     (case read_sep (CHR ''.'') True read_dec8 s of None \<Rightarrow> None | Some (a, s) \<Rightarrow>
     (case read_sep (CHR ''.'') False read_dec8 s of None \<Rightarrow> None | Some (b, s) \<Rightarrow>
     (case read_sep (CHR ''.'') False read_dec8 s of None \<Rightarrow> None | Some (c, s) \<Rightarrow>
     (case read_sep (CHR ''.'') False read_dec8 s of None \<Rightarrow> None | Some (d, s) \<Rightarrow>
       Some (V4 a b c d, s)))))"

text \<open>\<^verbatim>\<open>read_groups\<close>: at most \<open>limit\<close> groups; whether an embedded IPv4 address ended them.\<close>

fun read_groups :: "nat \<Rightarrow> bool \<Rightarrow> string \<Rightarrow> u16 list \<times> bool \<times> string" where
  "read_groups 0 first s = ([], False, s)"
| "read_groups (Suc n) first s =
     (case (if n = 0 then None else read_sep (CHR '':'') first read_ipv4 s) of
        Some (ip, s) \<Rightarrow>
          (case octets ip of
             [a, b, c, d] \<Rightarrow> ([from_be16 a b, from_be16 c d], True, s)
           | _ \<Rightarrow> ([], True, s))
      | None \<Rightarrow>
          (case read_sep (CHR '':'') first read_hex16 s of
             None \<Rightarrow> ([], False, s)
           | Some (g, s) \<Rightarrow>
               let (gs, v4, s) = read_groups n False s in (g # gs, v4, s)))"

fun v6_of_segments :: "u16 list \<Rightarrow> IpAddr option" where
  "v6_of_segments [a, b, c, d, e, f, g, h] = Some (V6 a b c d e f g h)"
| "v6_of_segments _ = None"

definition read_ipv6 :: "string \<Rightarrow> (IpAddr \<times> string) option" where
  "read_ipv6 s =
     (let (head, head_v4, s1) = read_groups 8 True s in
      if length head = 8 then map_option (\<lambda>ip. (ip, s1)) (v6_of_segments head)
      else if head_v4 then None
      else
        case read_char (CHR '':'') s1 of None \<Rightarrow> None | Some s2 \<Rightarrow>
        (case read_char (CHR '':'') s2 of None \<Rightarrow> None | Some s3 \<Rightarrow>
           let (tail, _, s4) = read_groups (8 - (length head + 1)) True s3 in
           map_option (\<lambda>ip. (ip, s4))
             (v6_of_segments (head @ replicate (8 - (length head + length tail)) 0 @ tail))))"

definition parse_ip :: "string \<Rightarrow> IpAddr option" where
  "parse_ip s =
     (case (case read_ipv4 s of Some r \<Rightarrow> Some r | None \<Rightarrow> read_ipv6 s) of
        Some (ip, []) \<Rightarrow> Some ip
      | _ \<Rightarrow> None)"

section \<open>Printing\<close>

definition hex_digit :: "nat \<Rightarrow> char" where
  "hex_digit n = (if n < 10 then char_of (48 + n) else char_of (87 + n))"

fun show_hex :: "nat \<Rightarrow> string" where
  "show_hex n = (if n < 16 then [hex_digit n] else show_hex (n div 16) @ [hex_digit (n mod 16)])"

declare show_hex.simps [simp del]

definition show_v4 :: "u8 \<Rightarrow> u8 \<Rightarrow> u8 \<Rightarrow> u8 \<Rightarrow> string" where
  "show_v4 a b c d = show_u8 a @ ''.'' @ show_u8 b @ ''.'' @ show_u8 c @ ''.'' @ show_u8 d"

text \<open>The first longest run of zero segments: its start and length.\<close>

fun zero_run :: "u16 list \<Rightarrow> nat \<Rightarrow> nat \<times> nat \<Rightarrow> nat \<times> nat \<Rightarrow> nat \<times> nat" where
  "zero_run [] i cur longest = longest"
| "zero_run (g # gs) i cur longest =
     (if g = 0 then
        let cur = (if snd cur = 0 then (i, 1) else (fst cur, Suc (snd cur)));
            longest = (if snd longest < snd cur then cur else longest)
        in zero_run gs (Suc i) cur longest
      else zero_run gs (Suc i) (0, 0) longest)"

definition show_segments :: "u16 list \<Rightarrow> string" where
  "show_segments gs = join_with (CHR '':'') (map (\<lambda>g. show_hex (unat g)) gs)"

fun show_ip :: "IpAddr \<Rightarrow> string" where
  "show_ip (V4 a b c d) = show_v4 a b c d"
| "show_ip (V6 a b c d e f g h) =
     (let gs = [a, b, c, d, e, f, g, h] in
      if take 5 gs = [0, 0, 0, 0, 0] \<and> f = 0xffff then
        ''::ffff:'' @ show_v4 (ucast (drop_bit 8 g)) (ucast g) (ucast (drop_bit 8 h)) (ucast h)
      else
        let (start, len) = zero_run gs 0 (0, 0) (0, 0) in
        if 1 < len then show_segments (take start gs) @ ''::'' @ show_segments (drop (start + len) gs)
        else show_segments gs)"

fun show_socket_addr :: "SocketAddr \<Rightarrow> string" where
  "show_socket_addr (SockAddr ip port) =
     (if is_ipv4 ip then show_ip ip @ '':'' @ show_u16 port
      else ''['' @ show_ip ip @ '']:'' @ show_u16 port)"

section \<open>Facts\<close>

lemma takeWhile_show_nat:
  "s = [] \<or> \<not> is_digit (hd s) \<Longrightarrow> takeWhile is_digit (show_nat n @ s) = show_nat n"
  using show_nat_digits [of n] by (cases s) (auto simp: takeWhile_append2 list_all_iff)

lemma length_show_nat_byte: "n < 256 \<Longrightarrow> length (show_nat n) \<le> 3"
  by (subst show_nat.simps, subst show_nat.simps, subst show_nat.simps) simp

lemma hd_show_nat_zero: "0 < n \<Longrightarrow> hd (show_nat n) \<noteq> CHR ''0''"
proof (induction n rule: show_nat.induct)
  case (1 n)
  have "digit_char m \<noteq> CHR ''0''" if "0 < m" "m < 10" for m
  proof
    assume "digit_char m = CHR ''0''"
    then have "(of_char (digit_char m) :: nat) = of_char (CHR ''0'')" by simp
    with that show False by (simp add: digit_char_def of_char_of take_bit_nat_eq_self)
  qed
  with 1 show ?case
    by (subst show_nat.simps) (auto simp: hd_append)
qed

lemma read_dec8_show:
  assumes "s = [] \<or> \<not> is_digit (hd s)"
  shows "read_dec8 (show_u8 a @ s) = Some (a, s)"
proof -
  have a: "unat a < 256" using unsigned_less [of a, where 'a = nat] by simp
  have "\<not> (hd (show_nat (unat a)) = CHR ''0'' \<and> 1 < length (show_nat (unat a)))"
    using hd_show_nat_zero [of "unat a"]
    by (cases "unat a = 0") (auto simp: show_nat.simps)
  then show ?thesis
    using a length_show_nat_byte [OF a] assms
    by (auto simp: read_dec8_def show_u8_def takeWhile_show_nat Let_def)
qed

lemma read_ipv4_show:
  assumes "s = [] \<or> \<not> is_digit (hd s)"
  shows "read_ipv4 (show_v4 a b c d @ s) = Some (V4 a b c d, s)"
proof -
  have dot: "\<not> is_digit (CHR ''.'')" by (simp add: is_digit_def)
  show ?thesis
    using read_dec8_show [OF assms] dot
    by (simp add: read_ipv4_def show_v4_def read_sep_def read_char_def read_dec8_show)
qed

lemma parse_ip_show_v4: "is_ipv4 ip \<Longrightarrow> parse_ip (show_ip ip) = Some ip"
  using read_ipv4_show [of "[]"] by (cases ip) (auto simp: parse_ip_def)

section \<open>The target of a connection\<close>

text \<open>\<^verbatim>\<open>outbound/mod.rs\<close>: \<^verbatim>\<open>Host\<close> and its parser.\<close>

datatype Host = Domain string | Ip IpAddr

definition parse_host :: "string \<Rightarrow> Host" where
  "parse_host s = (case parse_ip s of Some ip \<Rightarrow> Ip ip | None \<Rightarrow> Domain s)"

end
