(* ===== verification/Ttl_Cache.thy ===== *)
theory Ttl_Cache
  imports Prelude
begin

text \<open>
  Hash maps as association lists with distinct keys (the order stands for the unspecified
  iteration order), and the contract of a bounded cache whose entries expire.  The contract is a
  locale; what it gives its clients (a hit is always the latest value stored under the key,
  within its lifetime) is proved once here, and both DNS caches of the program satisfy it.
\<close>

type_synonym ('k, 'v) hmap = "('k \<times> 'v) list"

definition hm_ok :: "('k, 'v) hmap \<Rightarrow> bool" where
  "hm_ok m \<longleftrightarrow> distinct (map fst m)"

definition hm_remove :: "'k \<Rightarrow> ('k, 'v) hmap \<Rightarrow> ('k, 'v) hmap" where
  "hm_remove k m = filter (\<lambda>e. fst e \<noteq> k) m"

definition hm_insert :: "'k \<Rightarrow> 'v \<Rightarrow> ('k, 'v) hmap \<Rightarrow> ('k, 'v) hmap" where
  "hm_insert k v m = (k, v) # hm_remove k m"

definition hm_retain :: "('v \<Rightarrow> bool) \<Rightarrow> ('k, 'v) hmap \<Rightarrow> ('k, 'v) hmap" where
  "hm_retain P m = filter (\<lambda>e. P (snd e)) m"

lemma hm_ok_Nil [simp]: "hm_ok []"
  by (simp add: hm_ok_def)

lemma hm_ok_filter: "hm_ok m \<Longrightarrow> hm_ok (filter P m)"
  by (simp add: hm_ok_def distinct_map_filter)

lemma hm_ok_ops [simp]:
  "hm_ok m \<Longrightarrow> hm_ok (hm_remove k m)"
  "hm_ok m \<Longrightarrow> hm_ok (hm_insert k v m)"
  "hm_ok m \<Longrightarrow> hm_ok (hm_retain P m)"
  by (auto simp: hm_remove_def hm_insert_def hm_retain_def hm_ok_filter)
     (auto simp: hm_ok_def distinct_map_filter)

lemma map_of_hm_remove [simp]: "map_of (hm_remove k m) = (map_of m)(k := None)"
  by (induction m) (auto simp: hm_remove_def)

lemma map_of_hm_insert [simp]: "map_of (hm_insert k v m) = (map_of m)(k \<mapsto> v)"
  by (auto simp: hm_insert_def)

lemma map_of_filter_snd:
  "hm_ok m \<Longrightarrow> map_of (hm_retain P m) k =
     (case map_of m k of None \<Rightarrow> None | Some v \<Rightarrow> if P v then Some v else None)"
proof (induction m)
  case (Cons e m)
  then have "hm_ok m" "map_of m (fst e) = None"
    by (auto simp: hm_ok_def map_of_eq_None_iff)
  with Cons.IH show ?case
    by (cases e) (auto simp: hm_retain_def split: option.splits)
qed (simp add: hm_retain_def)

lemma length_hm_remove: "length (hm_remove k m) \<le> length m"
  by (simp add: hm_remove_def)

lemma length_hm_remove_in: "k \<in> fst ` set m \<Longrightarrow> length (hm_remove k m) < length m"
  unfolding hm_remove_def by (elim imageE, rule length_filter_less) auto

lemma length_hm_insert:
  "length (hm_insert k v m) \<le> (if k \<in> fst ` set m then length m else Suc (length m))"
  using length_hm_remove [of k m] length_hm_remove_in [of k m]
  by (cases "k \<in> fst ` set m") (simp_all add: hm_insert_def)

lemma length_hm_retain: "length (hm_retain P m) \<le> length m"
  by (simp add: hm_retain_def)

lemma hm_remove_absent: "k \<notin> fst ` set m \<Longrightarrow> hm_remove k m = m"
  by (induction m) (auto simp: hm_remove_def)

text \<open>Sums over the entries, split at a key.\<close>

definition hm_sum :: "('v \<Rightarrow> nat) \<Rightarrow> ('k, 'v) hmap \<Rightarrow> nat" where
  "hm_sum f m = sum_list (map (\<lambda>e. f (snd e)) m)"

lemma hm_sum_insert: "hm_sum f (hm_insert k v m) = f v + hm_sum f (hm_remove k m)"
  by (simp add: hm_sum_def hm_insert_def)

lemma hm_sum_remove:
  "hm_ok m \<Longrightarrow> map_of m k = Some v \<Longrightarrow> hm_sum f m = f v + hm_sum f (hm_remove k m)"
proof (induction m)
  case (Cons e m)
  show ?case
  proof (cases "fst e = k")
    case True
    with Cons.prems have "v = snd e" "k \<notin> fst ` set m" by (auto simp: hm_ok_def split: if_splits)
    then show ?thesis using True hm_remove_absent [of k m] by (simp add: hm_sum_def hm_remove_def)
  next
    case False
    with Cons have "hm_sum f m = f v + hm_sum f (hm_remove k m)" by (auto simp: hm_ok_def split: if_splits)
    with False show ?thesis by (simp add: hm_sum_def hm_remove_def)
  qed
qed simp

lemma map_of_None_remove: "map_of m k = None \<Longrightarrow> hm_remove k m = m"
  by (auto intro!: hm_remove_absent simp: map_of_eq_None_iff)

lemma set_hm_remove: "set (hm_remove k m) \<subseteq> set m"
  by (auto simp: hm_remove_def)

lemma set_hm_insert: "set (hm_insert k v m) = insert (k, v) (set (hm_remove k m))"
  by (simp add: hm_insert_def)

lemma hm_sum_retain:
  "\<forall>e\<in>set m. \<not> P (snd e) \<longrightarrow> f (snd e) = 0 \<Longrightarrow> hm_sum f (hm_retain P m) = hm_sum f m"
  by (induction m) (auto simp: hm_sum_def hm_retain_def)

section \<open>Bounded caches with expiry\<close>

text \<open>
  \<open>get c now k\<close> reads at time \<open>now\<close>; \<open>put c now k v ttl\<close> stores at time \<open>now\<close>, and the
  entry lives for \<open>life ttl\<close>.  Storing may evict other entries.
\<close>

definition cache_run ::
  "('c \<Rightarrow> nat \<Rightarrow> 'k \<Rightarrow> 'v \<Rightarrow> 't \<Rightarrow> 'c) \<Rightarrow> 'c \<Rightarrow> (nat \<times> 'k \<times> 'v \<times> 't) list \<Rightarrow> 'c" where
  "cache_run put c ps = foldl (\<lambda>c (t, k, v, ttl). put c t k v ttl) c ps"

locale ttl_cache =
  fixes inv :: "'c \<Rightarrow> bool" and empty :: 'c and size :: "'c \<Rightarrow> nat" and cap :: nat
    and get :: "'c \<Rightarrow> nat \<Rightarrow> 'k \<Rightarrow> 'v option"
    and put :: "'c \<Rightarrow> nat \<Rightarrow> 'k \<Rightarrow> 'v \<Rightarrow> 't \<Rightarrow> 'c"
    and life :: "'t \<Rightarrow> nat"
  assumes inv_empty: "inv empty"
    and inv_put: "inv c \<Longrightarrow> inv (put c now k v ttl)"
    and size_cap: "inv c \<Longrightarrow> size c \<le> cap"
    and get_empty: "get empty now k = None"
    and get_put_same: "inv c \<Longrightarrow>
      get (put c t k v ttl) now k = (if now < t + life ttl then Some v else None)"
    and get_put_other: "inv c \<Longrightarrow> k' \<noteq> k \<Longrightarrow>
      get (put c t k v ttl) now k' = get c now k' \<or> get (put c t k v ttl) now k' = None"
begin

lemma run_snoc: "cache_run put empty (ps @ [(t, k, v, ttl)]) = put (cache_run put empty ps) t k v ttl"
  by (simp add: cache_run_def)

lemma run_inv: "inv (cache_run put empty ps)"
proof (induction ps rule: rev_induct)
  case Nil
  then show ?case by (simp add: cache_run_def inv_empty)
next
  case (snoc p ps)
  then show ?case by (cases p) (simp add: run_snoc inv_put)
qed

lemma run_size: "size (cache_run put empty ps) \<le> cap"
  using run_inv size_cap by blast

lemma hit_is_latest:
  assumes "get (cache_run put empty ps) now k = Some v"
  shows "\<exists>as t ttl bs. ps = as @ (t, k, v, ttl) # bs \<and> k \<notin> (\<lambda>(t, k, v, ttl). k) ` set bs
    \<and> now < t + life ttl"
  using assms
proof (induction ps rule: rev_induct)
  case Nil
  then show ?case by (simp add: cache_run_def get_empty)
next
  case (snoc p ps)
  obtain t k' v' ttl where p: "p = (t, k', v', ttl)" by (cases p) auto
  show ?case
  proof (cases "k' = k")
    case True
    with snoc.prems p run_inv [of ps] have "v' = v" "now < t + life ttl"
      by (auto simp: run_snoc get_put_same split: if_splits)
    with p True have "ps @ [p] = ps @ (t, k, v, ttl) # []
      \<and> k \<notin> (\<lambda>(t, k, v, ttl). k) ` set [] \<and> now < t + life ttl" by simp
    then show ?thesis by blast
  next
    case False
    with snoc.prems p have "get (cache_run put empty ps) now k = Some v"
      using get_put_other [OF run_inv [of ps], of k k' t v' ttl now] by (auto simp: run_snoc)
    with snoc.IH obtain as t1 ttl1 bs where "ps = as @ (t1, k, v, ttl1) # bs"
      "k \<notin> (\<lambda>(t, k, v, ttl). k) ` set bs" "now < t1 + life ttl1" by blast
    with p False have "ps @ [p] = as @ (t1, k, v, ttl1) # (bs @ [p])
      \<and> k \<notin> (\<lambda>(t, k, v, ttl). k) ` set (bs @ [p]) \<and> now < t1 + life ttl1" by auto
    then show ?thesis by blast
  qed
qed

end

end
