(* ===== verification/Dns.thy ===== *)
theory Dns
  imports Net_Addr Ttl_Cache
begin

text \<open>
  \<^verbatim>\<open>dns.rs\<close>: the query encoder, the response parser, the answer cache of a network stack, and
  the resolver's retry loop.  Instants are natural numbers of nanoseconds; the network is a
  sequence of events seen by the resolver's socket.
\<close>

section \<open>Messages\<close>

datatype RecordType = A | Aaaa

fun qtype :: "RecordType \<Rightarrow> u16" where
  "qtype A = 1"
| "qtype Aaaa = 28"

datatype DnsError = BadNameLength | BadLabelLength | NameOverrun | PointerOverrun
  | ResponseTooShort | IdMismatch | NotAResponse | TruncatedResponse | NxDomain | Rcode u16
  | QuestionOverrun | AnswerOverrun | RdataOverrun

definition trim_end_dots :: "string \<Rightarrow> string" where
  "trim_end_dots s = rev (dropWhile (\<lambda>c. c = CHR ''.'') (rev s))"

fun encode_labels :: "string list \<Rightarrow> (DnsError, bytes) result" where
  "encode_labels [] = Ok []"
| "encode_labels (label # labels) =
     (if label = [] \<or> 63 < length label then Err BadLabelLength
      else rbind (encode_labels labels)
        (\<lambda>rest. Ok (of_nat (length label) # str_bytes label @ rest)))"

definition encode_dns_query :: "u16 \<Rightarrow> string \<Rightarrow> RecordType \<Rightarrow> (DnsError, bytes) result" where
  "encode_dns_query qid name record_type =
     (let msg = to_be16 qid @ to_be16 0x0100 @ to_be16 1 @ replicate 6 0;
          name = trim_end_dots name
      in if name = [] \<or> 253 < length name then Err BadNameLength
         else
           rbind (encode_labels (split_on (CHR ''.'') name)) (\<lambda>labels.
             Ok (msg @ labels @ [0] @ to_be16 (qtype record_type) @ to_be16 1)))"

function skip_name :: "bytes \<Rightarrow> nat \<Rightarrow> (DnsError, nat) result" where
  "skip_name buf pos =
     (if length buf \<le> pos then Err NameOverrun
      else
        let len = buf ! pos in
        if len = 0 then Ok (pos + 1)
        else if len AND 0xC0 = 0xC0 then
          (if length buf \<le> pos + 1 then Err PointerOverrun else Ok (pos + 2))
        else skip_name buf (pos + 1 + unat len))"
  by pat_completeness auto
termination
  by (relation "measure (\<lambda>(buf, pos). length buf - pos)") auto

declare skip_name.simps [simp del]

fun skip_questions :: "nat \<Rightarrow> bytes \<Rightarrow> nat \<Rightarrow> (DnsError, nat) result" where
  "skip_questions 0 buf pos = Ok pos"
| "skip_questions (Suc n) buf pos =
     rbind (skip_name buf pos) (\<lambda>pos.
     if length buf < pos + 4 then Err QuestionOverrun
     else skip_questions n buf (pos + 4))"

text \<open>One turn of the answer loop: the new position and the address with its TTL, if any.\<close>

definition parse_answer ::
  "RecordType \<Rightarrow> bytes \<Rightarrow> nat \<Rightarrow> (DnsError, nat \<times> (IpAddr \<times> u32) option) result" where
  "parse_answer record_type buf pos =
     rbind (skip_name buf pos) (\<lambda>pos.
     if length buf < pos + 10 then Err AnswerOverrun
     else
       let rtype = from_be16 (buf ! pos) (buf ! (pos + 1));
           ttl = from_be32 (buf ! (pos + 4)) (buf ! (pos + 5)) (buf ! (pos + 6)) (buf ! (pos + 7));
           rdlength = unat (from_be16 (buf ! (pos + 8)) (buf ! (pos + 9)));
           pos = pos + 10
       in
       if length buf < pos + rdlength then Err RdataOverrun
       else
         Ok (pos + rdlength,
             if record_type = A \<and> rtype = 1 \<and> rdlength = 4 then
               Some (V4 (buf ! pos) (buf ! (pos + 1)) (buf ! (pos + 2)) (buf ! (pos + 3)), ttl)
             else if record_type = Aaaa \<and> rtype = 28 \<and> rdlength = 16 then
               map_option (\<lambda>ip. (ip, ttl)) (v6_of_octets (slice buf pos (pos + 16)))
             else None))"

fun parse_answers ::
  "RecordType \<Rightarrow> nat \<Rightarrow> bytes \<Rightarrow> nat \<Rightarrow> IpAddr list \<Rightarrow> u32 \<Rightarrow> (DnsError, IpAddr list \<times> u32) result" where
  "parse_answers rt 0 buf pos addrs min_ttl = Ok (addrs, min_ttl)"
| "parse_answers rt (Suc n) buf pos addrs min_ttl =
     rbind (parse_answer rt buf pos) (\<lambda>(pos, found).
     case found of
       None \<Rightarrow> parse_answers rt n buf pos addrs min_ttl
     | Some (ip, ttl) \<Rightarrow> parse_answers rt n buf pos (addrs @ [ip]) (min min_ttl ttl))"

definition parse_dns_response ::
  "bytes \<Rightarrow> u16 \<Rightarrow> RecordType \<Rightarrow> (DnsError, IpAddr list \<times> u32) result" where
  "parse_dns_response buf expected_id record_type =
     (if length buf < 12 then Err ResponseTooShort
      else if from_be16 (buf ! 0) (buf ! 1) \<noteq> expected_id then Err IdMismatch
      else
        let flags = from_be16 (buf ! 2) (buf ! 3) in
        if flags AND 0x8000 = 0 then Err NotAResponse
        else if flags AND 0x0200 \<noteq> 0 then Err TruncatedResponse
        else if flags AND 0x000f = 3 then Err NxDomain
        else if flags AND 0x000f \<noteq> 0 then Err (Rcode (flags AND 0x000f))
        else
          let qdcount = unat (from_be16 (buf ! 4) (buf ! 5));
              ancount = unat (from_be16 (buf ! 6) (buf ! 7))
          in rbind (skip_questions qdcount buf 12) (\<lambda>pos.
               parse_answers record_type ancount buf pos [] (- 1)))"

section \<open>The cache\<close>

definition secs :: "nat \<Rightarrow> nat" where
  "secs n = n * 10 ^ 9"

definition CACHE_MIN_TTL :: nat where
  "CACHE_MIN_TTL = 5"

definition CACHE_MAX_TTL :: nat where
  "CACHE_MAX_TTL = 300"

record CacheEntry =
  entry_addrs :: "IpAddr list"
  expires_at :: nat

type_synonym dns_key = "SocketAddr \<times> string \<times> RecordType"
type_synonym DnsCache = "(dns_key, CacheEntry) hmap"

definition dns_get :: "DnsCache \<Rightarrow> nat \<Rightarrow> dns_key \<Rightarrow> IpAddr list option" where
  "dns_get cache now key =
     (case map_of cache key of
        None \<Rightarrow> None
      | Some entry \<Rightarrow> if now < expires_at entry then Some (entry_addrs entry) else None)"

definition clamp_ttl :: "u32 \<Rightarrow> nat" where
  "clamp_ttl ttl_secs = max CACHE_MIN_TTL (min CACHE_MAX_TTL (unat ttl_secs))"

text \<open>The clock is read for the clean-up (\<open>now\<close>) and again for the insertion (\<open>later\<close>).\<close>

definition dns_put :: "DnsCache \<Rightarrow> nat \<Rightarrow> nat \<Rightarrow> dns_key \<Rightarrow> IpAddr list \<Rightarrow> u32 \<Rightarrow> DnsCache" where
  "dns_put cache now later key addrs ttl_secs =
     (let cache =
        (if 512 \<le> length cache then
           let cache = hm_retain (\<lambda>e. now < expires_at e) cache in
           if 512 \<le> length cache then [] else cache
         else cache)
      in hm_insert key \<lparr>entry_addrs = addrs, expires_at = later + secs (clamp_ttl ttl_secs)\<rparr> cache)"

section \<open>The resolver\<close>

datatype ResolveError = QueryError DnsError | BindFailed | SendFailed | ResponseError DnsError
  | ReceiveFailed

text \<open>What one turn of the receive loop can see, with the clock readings of the cache update.\<close>

datatype recv_event = Received bytes SocketAddr nat nat | RetryTimer bool | RecvError

text \<open>
  The loop from the first send on.  It yields the result and the cache once it returns, and the
  number of queries sent; \<open>None\<close> while it still waits.  \<open>RetryTimer ok\<close> says whether the
  repeated send succeeds.
\<close>

fun resolve_loop ::
  "SocketAddr \<Rightarrow> u16 \<Rightarrow> RecordType \<Rightarrow> dns_key \<Rightarrow> DnsCache \<Rightarrow> nat \<Rightarrow> recv_event list
     \<Rightarrow> ((ResolveError, IpAddr list) result \<times> DnsCache) option \<times> nat" where
  "resolve_loop server qid rt key cache sent [] = (None, sent)"
| "resolve_loop server qid rt key cache sent (Received dgram from now later # evs) =
     (if from = server then
        (case parse_dns_response (take 512 dgram) qid rt of
           Inl e \<Rightarrow> (Some (Err (ResponseError e), cache), sent)
         | Inr (addrs, ttl) \<Rightarrow>
             let cache_ttl = (if addrs = [] then of_nat CACHE_MIN_TTL else ttl)
             in (Some (Ok addrs, dns_put cache now later key addrs cache_ttl), sent))
      else resolve_loop server qid rt key cache sent evs)"
| "resolve_loop server qid rt key cache sent (RecvError # evs) =
     (Some (Err ReceiveFailed, cache), sent)"
| "resolve_loop server qid rt key cache sent (RetryTimer ok # evs) =
     (if ok then resolve_loop server qid rt key cache (Suc sent) evs
      else (Some (Err SendFailed, cache), sent))"

text \<open>\<open>bound\<close> and \<open>first_send\<close>: whether binding the socket and the first send succeed.\<close>

definition resolve_inner ::
  "DnsCache \<Rightarrow> nat \<Rightarrow> SocketAddr \<Rightarrow> string \<Rightarrow> RecordType \<Rightarrow> u16 \<Rightarrow> bool \<Rightarrow> bool \<Rightarrow> recv_event list
     \<Rightarrow> ((ResolveError, IpAddr list) result \<times> DnsCache) option \<times> nat" where
  "resolve_inner cache now server name rt qid bound first_send evs =
     (let key = (server, to_ascii_lowercase name, rt) in
      case dns_get cache now key of
        Some addrs \<Rightarrow> (Some (Ok addrs, cache), 0)
      | None \<Rightarrow>
          (case encode_dns_query qid name rt of
             Inl e \<Rightarrow> (Some (Err (QueryError e), cache), 0)
           | Inr query \<Rightarrow>
               if \<not> bound then (Some (Err BindFailed, cache), 0)
               else if \<not> first_send then (Some (Err SendFailed, cache), 0)
               else resolve_loop server qid rt key cache 1 evs))"

section \<open>Names on the wire\<close>

text \<open>A name as it may stand in a message: labels up to the root or up to a pointer.\<close>

inductive wire_name :: "bytes \<Rightarrow> bool" where
  root: "wire_name [0]"
| pointer: "p AND 0xC0 = 0xC0 \<Longrightarrow> wire_name [p, q]"
| label: "l \<noteq> 0 \<Longrightarrow> l AND 0xC0 \<noteq> 0xC0 \<Longrightarrow> length body = unat l \<Longrightarrow> wire_name n \<Longrightarrow>
    wire_name (l # body @ n)"

lemma wire_name_ne: "wire_name n \<Longrightarrow> n \<noteq> []"
  by (induction rule: wire_name.induct) auto

lemma skip_name_wire:
  "wire_name n \<Longrightarrow> skip_name (pre @ n @ post) (length pre) = Ok (length pre + length n)"
proof (induction arbitrary: pre rule: wire_name.induct)
  case root
  then show ?case by (simp add: skip_name.simps)
next
  case (pointer p q)
  moreover have "p \<noteq> 0" using pointer by auto
  ultimately show ?case by (simp add: skip_name.simps)
next
  case (label l body n)
  have "skip_name (pre @ (l # body @ n) @ post) (length pre)
      = skip_name ((pre @ l # body) @ n @ post) (length (pre @ l # body))"
    using label.hyps by (subst skip_name.simps) (simp add: add.assoc)
  also have "\<dots> = Ok (length (pre @ l # body) + length n)" by (rule label.IH)
  finally show ?case by simp
qed

lemma skip_name_pos: "skip_name buf pos = Ok p \<Longrightarrow> pos < p"
proof (induction buf pos rule: skip_name.induct)
  case (1 buf pos)
  then show ?case
    using skip_name.simps [of buf pos] by (fastforce simp: Let_def split: if_splits)
qed

text \<open>The labels of an uncompressed name.\<close>

function read_labels :: "bytes \<Rightarrow> string list" where
  "read_labels [] = []"
| "read_labels (l # bs) =
     (if l = 0 then [] else bytes_str (take (unat l) bs) # read_labels (drop (unat l) bs))"
  by pat_completeness auto
termination
  by (relation "measure length") auto

lemma label_length_byte:
  assumes "0 < n" "n \<le> 63"
  shows "(of_nat n :: u8) \<noteq> 0" "(of_nat n :: u8) AND 0xC0 \<noteq> 0xC0" "unat (of_nat n :: u8) = n"
proof -
  show n: "unat (of_nat n :: u8) = n" using assms by (simp add: unat_of_nat)
  then show "(of_nat n :: u8) \<noteq> 0" using assms(1) by auto
  have "\<not> bit (of_nat n :: u8) 7"
  proof
    assume "bit (of_nat n :: u8) 7"
    then have "bit (unat (of_nat n :: u8)) 7" by (simp add: bit_unsigned_iff)
    then have "bit n 7" using n by simp
    then show False using assms(2) by (simp add: bit_iff_odd)
  qed
  moreover have "bit (0xC0 :: u8) 7" by simp
  ultimately show "(of_nat n :: u8) AND 0xC0 \<noteq> 0xC0" by (metis bit_and_iff)
qed

lemma encode_labels_wire:
  "encode_labels labels = Ok bs \<Longrightarrow>
     wire_name (bs @ [0]) \<and> read_labels (bs @ 0 # rest) = labels
     \<and> length bs = sum_list (map (\<lambda>l. Suc (length l)) labels)"
proof (induction labels arbitrary: bs)
  case Nil
  then show ?case by (auto intro: wire_name.root)
next
  case (Cons l ls)
  then obtain r where r: "encode_labels ls = Ok r" "bs = of_nat (length l) # str_bytes l @ r"
    "0 < length l" "length l \<le> 63"
    by (auto simp: rbind_Inr_iff split: if_splits)
  note len = label_length_byte [OF r(3,4)]
  have "wire_name (of_nat (length l) # str_bytes l @ (r @ [0]))"
    using Cons.IH [OF r(1)] len by (intro wire_name.label) auto
  with Cons.IH [OF r(1)] len r show ?case by simp
qed

lemma encode_labels_defined:
  "(\<forall>l\<in>set labels. l \<noteq> [] \<and> length l \<le> 63) \<longleftrightarrow> (\<exists>bs. encode_labels labels = Ok bs)"
  by (induction labels) (auto simp: rbind_Inr_iff)

lemma length_join_with: "ps \<noteq> [] \<Longrightarrow> Suc (length (join_with d ps)) = sum_list (map (\<lambda>p. Suc (length p)) ps)"
  by (induction d ps rule: join_with.induct) auto

section \<open>Responses on the wire\<close>

record dns_rr =
  rr_name :: bytes
  rr_type :: u16
  rr_class :: u16
  rr_ttl :: u32
  rr_data :: bytes

definition enc_rr :: "dns_rr \<Rightarrow> bytes" where
  "enc_rr r = rr_name r @ to_be16 (rr_type r) @ to_be16 (rr_class r) @ to_be32 (rr_ttl r)
     @ to_be16 (of_nat (length (rr_data r))) @ rr_data r"

definition wf_rr :: "dns_rr \<Rightarrow> bool" where
  "wf_rr r \<longleftrightarrow> wire_name (rr_name r) \<and> length (rr_data r) < 65536"

definition rr_addr :: "RecordType \<Rightarrow> dns_rr \<Rightarrow> IpAddr option" where
  "rr_addr rt r =
     (if rt = A \<and> rr_type r = 1 then v4_of_octets (rr_data r)
      else if rt = Aaaa \<and> rr_type r = 28 then v6_of_octets (rr_data r)
      else None)"

lemma v4_of_octets_length: "v4_of_octets bs = Some ip \<Longrightarrow> length bs = 4"
  by (induction bs rule: v4_of_octets.induct) auto

lemma v6_of_octets_length: "v6_of_octets bs = Some ip \<Longrightarrow> length bs = 16 \<and> \<not> is_ipv4 ip"
  by (induction bs rule: v6_of_octets.induct) auto

lemma nth4: "length d = 4 \<Longrightarrow> v4_of_octets d = Some (V4 (d ! 0) (d ! 1) (d ! 2) (d ! 3))"
  by (metis list4 v4_of_octets.simps(1))

lemma parse_answer_enc:
  assumes "wf_rr r" "buf = pre @ enc_rr r @ post"
  shows "parse_answer rt buf (length pre) =
    Ok (length pre + length (enc_rr r), map_option (\<lambda>ip. (ip, rr_ttl r)) (rr_addr rt r))"
proof -
  let ?x = "pre @ rr_name r" and ?d = "rr_data r"
  let ?h = "to_be16 (rr_type r) @ to_be16 (rr_class r) @ to_be32 (rr_ttl r) @ to_be16 (of_nat (length ?d))"
  have buf: "buf = ?x @ ?h @ ?d @ post" by (simp add: assms(2) enc_rr_def)
  have name: "skip_name buf (length pre) = Ok (length ?x)"
    using skip_name_wire [of "rr_name r" pre] assms by (simp add: wf_rr_def enc_rr_def)
  have nth: "buf ! (length ?x + k) = (?h @ ?d @ post) ! k" for k
    unfolding buf by (rule nth_append_shift)
  have len: "unat (of_nat (length ?d) :: u16) = length ?d"
    using assms(1) by (simp add: wf_rr_def unat_of_nat)
  have fields: "buf ! length ?x = ucast (drop_bit 8 (rr_type r))" "buf ! (length ?x + 1) = ucast (rr_type r)"
    "from_be32 (buf ! (length ?x + 4)) (buf ! (length ?x + 5)) (buf ! (length ?x + 6)) (buf ! (length ?x + 7)) = rr_ttl r"
    "unat (from_be16 (buf ! (length ?x + 8)) (buf ! (length ?x + 9))) = length ?d"
    using nth [of 0] nth [of 1] len
    by (simp add: to_be16_def, simp add: to_be16_def,
        unfold nth, simp add: to_be16_def to_be32_def, simp add: to_be16_def to_be32_def)
  have data: "buf ! (length ?x + 10 + k) = (?d @ post) ! k" for k
    using nth_append_shift [of "?x @ ?h" "?d @ post" k] by (simp add: buf add.assoc)
  have sl: "length ?d = 16 \<Longrightarrow> slice buf (length ?x + 10) (length ?x + 10 + 16) = ?d"
    using slice_append_middle [of "?x @ ?h" ?d post] by (simp add: buf add.assoc)
  have v4: "length ?d = 4 \<Longrightarrow> Some (V4 (buf ! (length ?x + 10)) (buf ! (length ?x + 10 + 1))
      (buf ! (length ?x + 10 + 2)) (buf ! (length ?x + 10 + 3))) = v4_of_octets ?d"
    by (simp only: data data [of 0, unfolded add_0_right]) (simp add: nth4 nth_append)
  have "length buf = length ?x + 10 + length ?d + length post" by (simp add: buf)
  then show ?thesis
    unfolding parse_answer_def name rbind_simps Let_def fields from_be16_to_be16
    using v4 sl v4_of_octets_length [of ?d] v6_of_octets_length [of ?d]
    by (cases rt) (auto simp: rr_addr_def enc_rr_def map_option_case split: option.splits)
qed

lemma parse_answers_enc:
  assumes "list_all wf_rr rs"
  shows "parse_answers rt (length rs) (pre @ concat (map enc_rr rs) @ post) (length pre) addrs m =
    Ok (addrs @ List.map_filter (rr_addr rt) rs,
        Min (insert m (rr_ttl ` {r \<in> set rs. rr_addr rt r \<noteq> None})))"
  using assms
proof (induction rs arbitrary: pre addrs m)
  case Nil
  then show ?case by (simp add: List.map_filter_simps)
next
  case (Cons r rs)
  let ?buf = "pre @ concat (map enc_rr (r # rs)) @ post"
  have one: "parse_answer rt ?buf (length pre) =
      Ok (length (pre @ enc_rr r), map_option (\<lambda>ip. (ip, rr_ttl r)) (rr_addr rt r))"
    using parse_answer_enc [of r ?buf pre] Cons.prems by simp
  have rest: "parse_answers rt (length rs) ?buf (length (pre @ enc_rr r)) addrs m =
    Ok (addrs @ List.map_filter (rr_addr rt) rs,
        Min (insert m (rr_ttl ` {r \<in> set rs. rr_addr rt r \<noteq> None})))" for addrs m
    using Cons.IH [of "pre @ enc_rr r" addrs m] Cons.prems by simp
  show ?case
  proof (cases "rr_addr rt r")
    case None
    then have "{x \<in> set (r # rs). rr_addr rt x \<noteq> None} = {x \<in> set rs. rr_addr rt x \<noteq> None}" by auto
    with None one rest show ?thesis by (simp add: List.map_filter_simps)
  next
    case (Some ip)
    then have "{x \<in> set (r # rs). rr_addr rt x \<noteq> None} = insert r {x \<in> set rs. rr_addr rt x \<noteq> None}" by auto
    moreover have "Min (insert (min m (rr_ttl r)) (rr_ttl ` {x \<in> set rs. rr_addr rt x \<noteq> None}))
        = Min (insert m (insert (rr_ttl r) (rr_ttl ` {x \<in> set rs. rr_addr rt x \<noteq> None})))"
      by (cases "{x \<in> set rs. rr_addr rt x \<noteq> None} = {}") (auto simp: Min_insert min.assoc simp del: Collect_empty_eq)
    ultimately show ?thesis using Some one rest by (simp add: List.map_filter_simps)
  qed
qed

definition enc_question :: "bytes \<times> bytes \<Rightarrow> bytes" where
  "enc_question q = fst q @ snd q"

lemma skip_questions_enc:
  assumes "list_all (\<lambda>q. wire_name (fst q) \<and> length (snd q) = 4) qs"
  shows "skip_questions (length qs) (pre @ concat (map enc_question qs) @ post) (length pre) =
    Ok (length pre + length (concat (map enc_question qs)))"
  using assms
proof (induction qs arbitrary: pre)
  case (Cons q qs)
  let ?buf = "pre @ concat (map enc_question (q # qs)) @ post"
  have q: "length (enc_question q) = length (fst q) + 4"
    using Cons.prems by (simp add: enc_question_def)
  have "skip_name ?buf (length pre) = Ok (length pre + length (fst q))"
    using skip_name_wire [of "fst q" pre "snd q @ concat (map enc_question qs) @ post"] Cons.prems
    by (simp add: enc_question_def [of q])
  moreover have "skip_questions (length qs) ?buf (length (pre @ enc_question q)) =
      Ok (length (pre @ enc_question q) + length (concat (map enc_question qs)))"
    using Cons.IH [of "pre @ enc_question q"] Cons.prems by simp
  ultimately show ?case by (simp add: q add.assoc)
qed simp

text \<open>What the parser can ever return.\<close>

lemma parse_answer_family:
  assumes "parse_answer rt buf pos = Ok (p, Some (ip, ttl))"
  shows "is_ipv4 ip = (rt = A)"
  using assms v6_of_octets_length
  by (cases rt) (auto simp: parse_answer_def rbind_Inr_iff Let_def split: if_splits)

lemma parse_answers_family:
  "parse_answers rt n buf pos addrs m = Ok (as, t) \<Longrightarrow> \<forall>ip\<in>set addrs. is_ipv4 ip = (rt = A) \<Longrightarrow>
     (\<forall>ip\<in>set as. is_ipv4 ip = (rt = A)) \<and> length as \<le> length addrs + n"
proof (induction n arbitrary: pos addrs m)
  case (Suc n)
  then obtain p found where p: "parse_answer rt buf pos = Ok (p, found)"
    by (auto simp: rbind_Inr_iff)
  show ?case
  proof (cases found)
    case None
    with Suc.IH [of p addrs m] Suc.prems p show ?thesis by auto
  next
    case (Some x)
    then obtain ip ttl where f: "found = Some (ip, ttl)" by (cases x) auto
    then have "is_ipv4 ip = (rt = A)" using parse_answer_family p by blast
    with f Suc.IH [of p "addrs @ [ip]" "min m ttl"] Suc.prems p show ?thesis by auto
  qed
qed auto

section \<open>The cache keeps its contract\<close>

definition dns_life :: "nat \<times> u32 \<Rightarrow> nat" where
  "dns_life dt = fst dt + secs (clamp_ttl (snd dt))"

text \<open>A store as the contract sees it: the second clock reading is \<open>d\<close> after the first.\<close>

definition dns_store :: "DnsCache \<Rightarrow> nat \<Rightarrow> dns_key \<Rightarrow> IpAddr list \<Rightarrow> nat \<times> u32 \<Rightarrow> DnsCache" where
  "dns_store cache t key addrs dt = dns_put cache t (t + fst dt) key addrs (snd dt)"

definition dns_cache_ok :: "DnsCache \<Rightarrow> bool" where
  "dns_cache_ok c \<longleftrightarrow> hm_ok c \<and> length c \<le> 512"

lemma dns_put_ok: "dns_cache_ok c \<Longrightarrow> dns_cache_ok (dns_put c now later k v ttl)"
proof -
  assume c: "dns_cache_ok c"
  let ?c = "if 512 \<le> length c then (let c = hm_retain (\<lambda>e. now < expires_at e) c in
       if 512 \<le> length c then [] else c) else c"
  have "hm_ok ?c \<and> length ?c < 512" using c by (auto simp: dns_cache_ok_def Let_def)
  then have "length (hm_insert k v' ?c) \<le> 512" "hm_ok (hm_insert k v' ?c)" for v'
    using length_hm_insert [of k v' ?c] by (auto split: if_splits)
  then show ?thesis unfolding dns_put_def dns_cache_ok_def Let_def by auto
qed

lemma dns_put_other:
  assumes "dns_cache_ok c" "k' \<noteq> k"
  shows "map_of (dns_put c now later k v ttl) k' = map_of c k' \<or> map_of (dns_put c now later k v ttl) k' = None"
  using assms map_of_filter_snd [of c "\<lambda>e. now < expires_at e" k']
  by (auto simp: dns_put_def dns_cache_ok_def Let_def split: option.splits if_splits)

lemma dns_get_put_same:
  "dns_get (dns_put c t later k v ttl) now k = (if now < later + secs (clamp_ttl ttl) then Some v else None)"
  by (simp add: dns_get_def dns_put_def Let_def)

interpretation dns_cache: ttl_cache dns_cache_ok "[]" length 512 dns_get dns_store dns_life
proof
  fix c t now k k' v dt
  show "dns_cache_ok []" by (simp add: dns_cache_ok_def)
  show "dns_get [] now k = None" by (simp add: dns_get_def)
  assume c: "dns_cache_ok c"
  then show "dns_cache_ok (dns_store c now k v dt)" by (simp add: dns_store_def dns_put_ok)
  show "length c \<le> 512" using c by (simp add: dns_cache_ok_def)
  show "dns_get (dns_store c t k v dt) now k = (if now < t + dns_life dt then Some v else None)"
    by (simp add: dns_store_def dns_get_put_same dns_life_def add.assoc)
  assume "k' \<noteq> k"
  then show "dns_get (dns_store c t k v dt) now k' = dns_get c now k' \<or> dns_get (dns_store c t k v dt) now k' = None"
    using dns_put_other [OF c, of k' k t "t + fst dt" v "snd dt"] by (auto simp: dns_get_def dns_store_def)
qed

text \<open>The names DNS can carry: RFC 1035, section 2.3.4, final dots aside.\<close>

definition dns_name_ok :: "string \<Rightarrow> bool" where
  "dns_name_ok name =
     (1 \<le> length (trim_end_dots name) \<and> length (trim_end_dots name) \<le> 253
      \<and> list_all (\<lambda>l. 1 \<le> length l \<and> length l \<le> 63) (split_on (CHR ''.'') (trim_end_dots name)))"

section \<open>Properties\<close>

text \<open>
  The query encoder accepts exactly the names of 1 to 253 bytes (final dots aside) whose
  labels have 1 to 63 bytes, and the message it builds carries the identifier, one question
  whose uncompressed labels spell the name, and the record type, in at most 271 bytes.
\<close>

lemma dns_query_carries_name:
  "case encode_dns_query qid name rt of
     Inl e \<Rightarrow> \<not> dns_name_ok name
   | Inr msg \<Rightarrow>
       dns_name_ok name
       \<and> take 2 msg = to_be16 qid
       \<and> join_with (CHR ''.'') (read_labels (drop 12 msg)) = trim_end_dots name
       \<and> skip_name msg 12 = Ok (length msg - 4)
       \<and> drop (length msg - 4) msg = to_be16 (qtype rt) @ to_be16 1
       \<and> length msg \<le> 271"
proof (cases "encode_dns_query qid name rt")
  case (Inl e)
  then show ?thesis
    using encode_labels_defined [of "split_on (CHR ''.'') (trim_end_dots name)"]
    by (auto simp: encode_dns_query_def dns_name_ok_def list_all_iff Let_def rbind_Inl_iff Suc_le_eq
        split: if_splits)
next
  case (Inr msg)
  let ?n = "trim_end_dots name" and ?h = "to_be16 qid @ to_be16 0x0100 @ to_be16 1 @ replicate 6 0"
  let ?t = "to_be16 (qtype rt) @ to_be16 1"
  obtain bs where bs: "encode_labels (split_on (CHR ''.'') ?n) = Ok bs" "msg = ?h @ (bs @ [0]) @ ?t"
    "length ?n \<le> 253" "?n \<noteq> []"
    using Inr by (auto simp: encode_dns_query_def Let_def rbind_Inr_iff split: if_splits)
  have ok: "dns_name_ok name"
    using encode_labels_defined [of "split_on (CHR ''.'') ?n"] bs
    by (auto simp: dns_name_ok_def list_all_iff Suc_le_eq)
  have h: "length ?h = 12" "length ?t = 4" by simp_all
  note wire = encode_labels_wire [OF bs(1)]
  have "length bs = Suc (length ?n)"
    using wire length_join_with [of "split_on (CHR ''.'') ?n" "CHR ''.''"] by (simp add: join_with_split_on)
  moreover have "skip_name msg 12 = Ok (12 + length (bs @ [0]))"
    using skip_name_wire [of "bs @ [0]" ?h ?t] wire h unfolding bs(2) by simp
  moreover have "drop 12 msg = bs @ 0 # ?t" "drop (length msg - 4) msg = ?t" "take 2 msg = to_be16 qid"
    using h unfolding bs(2) by simp_all
  ultimately show ?thesis
    using Inr wire bs(3) h ok unfolding bs(2) by (simp add: join_with_split_on)
qed

text \<open>
  C20: the response parser, run on any well-formed positive response (names in any form,
  compressed or not, any records, anything after the answers), returns the addresses of the
  answers of the requested type in order and the least of their TTLs.
\<close>

theorem dns_response_parsed:
  assumes "buf = (to_be16 qid @ to_be16 flags @ to_be16 (of_nat (length qs)) @ to_be16 (of_nat (length rs))
      @ other_counts) @ concat (map enc_question qs) @ concat (map enc_rr rs) @ extra"
    and "length other_counts = 4" "length qs < 65536" "length rs < 65536"
    and "flags AND 0x8000 \<noteq> 0" "flags AND 0x0200 = 0" "flags AND 0x000f = 0"
    and "list_all (\<lambda>q. wire_name (fst q) \<and> length (snd q) = 4) qs" "list_all wf_rr rs"
  shows "parse_dns_response buf qid rt =
    Ok (List.map_filter (rr_addr rt) rs,
        Min (insert (- 1) (rr_ttl ` {r \<in> set rs. rr_addr rt r \<noteq> None})))"
proof -
  let ?h = "to_be16 qid @ to_be16 flags @ to_be16 (of_nat (length qs)) @ to_be16 (of_nat (length rs)) @ other_counts"
  let ?qs = "concat (map enc_question qs)" and ?rs = "concat (map enc_rr rs)"
  have len: "length ?h = 12" using assms(2) by simp
  have head: "12 \<le> length buf" "from_be16 (buf ! 0) (buf ! 1) = qid" "from_be16 (buf ! 2) (buf ! 3) = flags"
    "unat (from_be16 (buf ! 4) (buf ! 5)) = length qs" "unat (from_be16 (buf ! 6) (buf ! 7)) = length rs"
    using assms(2-4) unfolding assms(1) by (simp_all add: to_be16_def unat_of_nat)
  have q: "skip_questions (length qs) buf 12 = Ok (length (?h @ ?qs))"
    using skip_questions_enc [OF assms(8), of ?h "?rs @ extra"] len unfolding assms(1) by simp
  have a: "parse_answers rt (length rs) buf (length (?h @ ?qs)) [] (- 1) =
      Ok (List.map_filter (rr_addr rt) rs,
        Min (insert (- 1) (rr_ttl ` {r \<in> set rs. rr_addr rt r \<noteq> None})))"
    using parse_answers_enc [OF assms(9), of rt "?h @ ?qs" extra "[]" "- 1"] unfolding assms(1) by simp
  show ?thesis
    using head(1) assms(5-7) unfolding parse_dns_response_def Let_def head(2-5) q rbind_simps a by simp
qed

theorem dns_response_parsed_witness:
  "parse_dns_response
     ([0x12, 0x34, 0x81, 0x80, 0, 1, 0, 2, 0, 0, 0, 0]
      @ [1, 97, 0, 0, 1, 0, 1]
      @ [0xC0, 12, 0, 5, 0, 1, 0, 0, 0, 9, 0, 1, 0]
      @ [0xC0, 12, 0, 1, 0, 1, 0, 0, 0, 60, 0, 4, 192, 0, 2, 1]) 0x1234 A =
   Ok ([V4 192 0 2 1], 60)"
proof -
  let ?q = "([1, 97, 0], [0, 1, 0, 1]) :: bytes \<times> bytes"
  let ?r1 = "\<lparr>rr_name = [0xC0, 12], rr_type = 5, rr_class = 1, rr_ttl = 9, rr_data = [0]\<rparr>"
  let ?r2 = "\<lparr>rr_name = [0xC0, 12], rr_type = 1, rr_class = 1, rr_ttl = 60, rr_data = [192, 0, 2, 1]\<rparr>"
  have n: "wire_name [1, 97, 0]" "wire_name [0xC0, 12]"
    using wire_name.label [of 1 "[97]" "[0]"] by (simp_all add: wire_name.root wire_name.pointer)
  have bytes: "(4660 :: u8) = 0x34" "(33152 :: u8) = 0x80" by simp_all
  have set: "{r \<in> set [?r1, ?r2]. rr_addr A r \<noteq> None} = {?r2}" by (auto simp: rr_addr_def)
  show ?thesis
    using dns_response_parsed [of _ "0x1234" "0x8180" "[?q]" "[?r1, ?r2]" "[0, 0, 0, 0]" "[]" A, OF refl] n
    unfolding set
    by (simp add: enc_question_def enc_rr_def wf_rr_def to_be16_def to_be32_def rr_addr_def
        List.map_filter_simps bytes)
qed

text \<open>
  Whatever the bytes, an accepted response has the expected identifier, is a response, is
  not truncated and has no error code, and yields at most as many addresses as it announces
  answers, all of the requested family.
\<close>

lemma dns_response_sound:
  assumes "parse_dns_response buf qid rt = Ok (addrs, ttl)"
  shows "from_be16 (buf ! 0) (buf ! 1) = qid \<and>
    (let flags = from_be16 (buf ! 2) (buf ! 3) in
       flags AND 0x8000 \<noteq> 0 \<and> flags AND 0x0200 = 0 \<and> flags AND 0x000f = 0) \<and>
    length addrs \<le> unat (from_be16 (buf ! 6) (buf ! 7)) \<and> (\<forall>ip\<in>set addrs. is_ipv4 ip = (rt = A))"
  using assms
  by (auto simp: parse_dns_response_def Let_def rbind_Inr_iff dest!: parse_answers_family
      split: if_splits)

lemma dns_response_sound_witness:
  "is_ipv4 (V4 192 0 2 1) = (A = A) \<and>
   parse_dns_response ([0, 7, 0x80, 0, 0, 0, 0, 1, 0, 0, 0, 0]
      @ [0, 0, 1, 0, 1, 0, 0, 0, 60, 0, 4, 192, 0, 2, 1]) 7 A = Ok ([V4 192 0 2 1], 60)"
proof -
  have r: "parse_dns_response ([0, 7, 0x80, 0, 0, 0, 0, 1, 0, 0, 0, 0]
      @ [0, 0, 1, 0, 1, 0, 0, 0, 60, 0, 4, 192, 0, 2, 1]) 7 A = Ok ([V4 192 0 2 1], 60)"
    by (simp add: parse_dns_response_def parse_answer_def skip_name.simps from_be16_def from_be32_def
        Let_def)
  have "\<forall>ip\<in>set [V4 192 0 2 1]. is_ipv4 ip = (A = A)"
    using dns_response_sound [OF r] by (elim conjE)
  then have "is_ipv4 (V4 192 0 2 1) = (A = A)" by (rule bspec) simp
  with r show ?thesis by (intro conjI)
qed

text \<open>
  C30: however many answers have been stored, and in whatever order of clock readings, the
  cache holds at most 512 entries, and a hit returns the addresses most recently stored under
  the key, at a time before their TTL (clamped to 5 to 300 seconds) has run out.
\<close>

theorem dns_cache_hit_is_fresh:
  "length (cache_run dns_store [] ps) \<le> 512 \<and>
   (dns_get (cache_run dns_store [] ps) now k = Some v \<longrightarrow>
     (\<exists>as t dt bs. ps = as @ (t, k, v, dt) # bs \<and> k \<notin> (\<lambda>(t, k, v, dt). k) ` set bs
        \<and> now < t + fst dt + secs (max 5 (min 300 (unat (snd dt))))))"
  using dns_cache.run_size [of ps] dns_cache.hit_is_latest [of ps now k v]
  unfolding dns_life_def clamp_ttl_def CACHE_MIN_TTL_def CACHE_MAX_TTL_def add.assoc by blast

theorem dns_cache_hit_is_fresh_witness:
  "\<exists>as t dt bs.
     [(0, (SockAddr (V4 1 1 1 1) 53, ''a'', A), [V4 192 0 2 1], (0, 60 :: u32))] =
       as @ (t, (SockAddr (V4 1 1 1 1) 53, ''a'', A), [V4 192 0 2 1], dt) # bs
     \<and> (SockAddr (V4 1 1 1 1) 53, ''a'', A) \<notin> (\<lambda>(t, k, v, dt). k) ` set bs
     \<and> secs 59 < t + fst dt + secs (max 5 (min 300 (unat (snd dt))))"
proof -
  have "dns_get (cache_run dns_store []
      [(0, (SockAddr (V4 1 1 1 1) 53, ''a'', A), [V4 192 0 2 1], (0, 60 :: u32))]) (secs 59)
      (SockAddr (V4 1 1 1 1) 53, ''a'', A) = Some [V4 192 0 2 1]"
    by (simp add: cache_run_def dns_store_def dns_get_put_same clamp_ttl_def CACHE_MIN_TTL_def
        CACHE_MAX_TTL_def secs_def)
  then show ?thesis by (rule dns_cache_hit_is_fresh [THEN conjunct2, THEN mp])
qed

text \<open>Nothing but the resolver's own server decides a resolution.\<close>

definition from_server :: "SocketAddr \<Rightarrow> recv_event \<Rightarrow> bool" where
  "from_server server ev = (case ev of Received d f t l \<Rightarrow> f = server | RetryTimer ok \<Rightarrow> \<not> ok | RecvError \<Rightarrow> True)"

definition timers :: "recv_event list \<Rightarrow> nat" where
  "timers evs = length (filter (\<lambda>ev. case ev of RetryTimer ok \<Rightarrow> ok | _ \<Rightarrow> False) evs)"

lemma resolve_loop_Ok:
  assumes "resolve_loop server qid rt key cache n evs = (Some (Ok addrs, cache'), sent)"
  shows "\<exists>pre d now later post ttl. evs = pre @ Received d server now later # post
    \<and> (\<forall>ev\<in>set pre. \<not> from_server server ev) \<and> sent = n + timers pre
    \<and> parse_dns_response (take 512 d) qid rt = Ok (addrs, ttl)
    \<and> cache' = dns_put cache now later key addrs (if addrs = [] then of_nat CACHE_MIN_TTL else ttl)"
  using assms
proof (induction evs arbitrary: n)
  case (Cons ev evs)
  have keep: ?case if r: "resolve_loop server qid rt key cache m evs = (Some (Ok addrs, cache'), sent)"
    and ev: "\<not> from_server server ev" "m = n + timers [ev]" for m
  proof -
    from Cons.IH [OF r] obtain pre d now later post ttl where
      *: "evs = pre @ Received d server now later # post"
      "\<forall>ev\<in>set pre. \<not> from_server server ev" "sent = m + timers pre"
      "parse_dns_response (take 512 d) qid rt = Ok (addrs, ttl)"
      "cache' = dns_put cache now later key addrs (if addrs = [] then of_nat CACHE_MIN_TTL else ttl)"
      by (elim exE conjE)
    show ?thesis
    proof (intro exI conjI)
      show "ev # evs = (ev # pre) @ Received d server now later # post" using * by simp
      show "\<forall>ev\<in>set (ev # pre). \<not> from_server server ev" using * ev by simp
      show "sent = n + timers (ev # pre)" using * ev by (simp add: timers_def)
      show "parse_dns_response (take 512 d) qid rt = Ok (addrs, ttl)" by (rule *(4))
      show "cache' = dns_put cache now later key addrs (if addrs = [] then of_nat CACHE_MIN_TTL else ttl)"
        by (rule *(5))
    qed
  qed
  show ?case
  proof (cases ev)
    case (Received d f now later)
    show ?thesis
    proof (cases "f = server")
      case True
      with Received Cons.prems obtain ttl where "parse_dns_response (take 512 d) qid rt = Ok (addrs, ttl)"
        "cache' = dns_put cache now later key addrs (if addrs = [] then of_nat CACHE_MIN_TTL else ttl)"
        "sent = n"
        by (auto split: sum.splits prod.splits)
      note * = this
      show ?thesis
      proof (intro exI conjI)
        show "ev # evs = [] @ Received d server now later # evs" using True Received by simp
        show "sent = n + timers []" using *(3) by (simp add: timers_def)
        show "parse_dns_response (take 512 d) qid rt = Ok (addrs, ttl)" by (rule *(1))
        show "cache' = dns_put cache now later key addrs (if addrs = [] then of_nat CACHE_MIN_TTL else ttl)"
          by (rule *(2))
      qed simp
    next
      case False
      with Received Cons.prems show ?thesis
        by (intro keep [of n]) (simp_all add: from_server_def timers_def)
    qed
  next
    case (RetryTimer ok)
    with Cons.prems have ok by (cases ok) auto
    with RetryTimer Cons.prems show ?thesis
      by (intro keep [of "Suc n"]) (simp_all add: from_server_def timers_def)
  next
    case RecvError
    then show ?thesis using Cons.prems by simp
  qed
qed simp

text \<open>
  C31: a resolution that goes to the network and succeeds does so on the first datagram from
  the configured server (others are ignored), which answers its own identifier, after one query
  per elapsed retry interval; and for at least five seconds afterwards the same name, in any
  letter case, is answered from the cache with the same addresses and without a query.
\<close>

theorem resolve_answers_and_caches:
  assumes "resolve_inner cache now server name rt qid True True evs = (Some (Ok addrs, cache'), Suc n)"
  shows "\<exists>pre d t later post ttl. evs = pre @ Received d server t later # post
    \<and> (\<forall>ev\<in>set pre. \<not> from_server server ev) \<and> n = timers pre
    \<and> parse_dns_response (take 512 d) qid rt = Ok (addrs, ttl)
    \<and> (\<forall>now' name'. now' < later + secs 5 \<longrightarrow> to_ascii_lowercase name' = to_ascii_lowercase name \<longrightarrow>
         resolve_inner cache' now' server name' rt qid' bound sends evs' = (Some (Ok addrs, cache'), 0))"
proof -
  let ?key = "(server, to_ascii_lowercase name, rt)"
  have "resolve_loop server qid rt ?key cache 1 evs = (Some (Ok addrs, cache'), Suc n)"
    using assms by (auto simp: resolve_inner_def Let_def split: option.splits sum.splits if_splits)
  from resolve_loop_Ok [OF this] obtain pre d t later post ttl where
    *: "evs = pre @ Received d server t later # post" "\<forall>ev\<in>set pre. \<not> from_server server ev"
    "Suc n = 1 + timers pre" "parse_dns_response (take 512 d) qid rt = Ok (addrs, ttl)"
    "cache' = dns_put cache t later ?key addrs (if addrs = [] then of_nat CACHE_MIN_TTL else ttl)"
    by (elim exE conjE)
  have "resolve_inner cache' now' server name' rt qid' bound sends evs' = (Some (Ok addrs, cache'), 0)"
    if "now' < later + secs 5" "to_ascii_lowercase name' = to_ascii_lowercase name" for now' name'
  proof -
    have "secs 5 \<le> secs (clamp_ttl x)" for x
      by (simp add: secs_def clamp_ttl_def CACHE_MIN_TTL_def)
    then have "now' < later + secs (clamp_ttl x)" for x
      using that(1) by (meson add_left_mono less_le_trans)
    then have "dns_get cache' now' (server, to_ascii_lowercase name', rt) = Some addrs"
      unfolding *(5) that(2) dns_get_put_same by simp
    then show ?thesis by (simp add: resolve_inner_def)
  qed
  note again = this
  show ?thesis
  proof (intro exI conjI allI impI)
    show "evs = pre @ Received d server t later # post" by (rule *)
    show "\<forall>ev\<in>set pre. \<not> from_server server ev" by (rule *)
    show "n = timers pre" using *(3) by simp
    show "parse_dns_response (take 512 d) qid rt = Ok (addrs, ttl)" by (rule *(4))
    fix now' name'
    assume "now' < later + secs 5" "to_ascii_lowercase name' = to_ascii_lowercase name"
    then show "resolve_inner cache' now' server name' rt qid' bound sends evs' = (Some (Ok addrs, cache'), 0)"
      by (rule again)
  qed
qed

theorem resolve_answers_and_caches_witness:
  "\<exists>pre d t later post ttl.
     [RetryTimer True, Received [0] (SockAddr (V4 9 9 9 9) 53) 0 0,
      Received ([0, 7, 0x80, 0, 0, 0, 0, 0, 0, 0, 0, 0]) (SockAddr (V4 1 1 1 1) 53) 5 5] =
       pre @ Received d (SockAddr (V4 1 1 1 1) 53) t later # post
    \<and> 1 = timers pre \<and> parse_dns_response (take 512 d) 7 A = Ok ([], ttl)
    \<and> resolve_inner (dns_put [] 5 5 (SockAddr (V4 1 1 1 1) 53, ''a'', A) [] 5) later
        (SockAddr (V4 1 1 1 1) 53) ''A'' A 9 False False [] =
      (Some (Ok [], dns_put [] 5 5 (SockAddr (V4 1 1 1 1) 53, ''a'', A) [] 5), 0)"
proof -
  have r: "resolve_inner [] 0 (SockAddr (V4 1 1 1 1) 53) ''A'' A 7 True True
     [RetryTimer True, Received [0] (SockAddr (V4 9 9 9 9) 53) 0 0,
      Received ([0, 7, 0x80, 0, 0, 0, 0, 0, 0, 0, 0, 0]) (SockAddr (V4 1 1 1 1) 53) 5 5] =
    (Some (Ok [], dns_put [] 5 5 (SockAddr (V4 1 1 1 1) 53, ''a'', A) [] 5), Suc 1)"
    by (simp add: resolve_inner_def dns_get_def encode_dns_query_def trim_end_dots_def
        parse_dns_response_def from_be16_def Let_def CACHE_MIN_TTL_def to_ascii_lowercase_def
        ascii_lower_def char_of_def bit_Suc_0_iff)
  obtain pre d t later post ttl where *:
    "[RetryTimer True, Received [0] (SockAddr (V4 9 9 9 9) 53) 0 0,
      Received ([0, 7, 0x80, 0, 0, 0, 0, 0, 0, 0, 0, 0]) (SockAddr (V4 1 1 1 1) 53) 5 5] =
       pre @ Received d (SockAddr (V4 1 1 1 1) 53) t later # post"
    "1 = timers pre" "parse_dns_response (take 512 d) 7 A = Ok ([], ttl)"
    and again: "\<forall>now' name'. now' < later + secs 5 \<longrightarrow> to_ascii_lowercase name' = to_ascii_lowercase ''A'' \<longrightarrow>
      resolve_inner (dns_put [] 5 5 (SockAddr (V4 1 1 1 1) 53, ''a'', A) [] 5) now'
        (SockAddr (V4 1 1 1 1) 53) name' A 9 False False [] =
      (Some (Ok [], dns_put [] 5 5 (SockAddr (V4 1 1 1 1) 53, ''a'', A) [] 5), 0)"
    using resolve_answers_and_caches [OF r, of 9 False False "[]"] by (elim exE conjE)
  have "later < later + secs 5" by (simp add: secs_def)
  then show ?thesis using again
    by (intro exI conjI) (rule *, rule *, rule *, rule again [rule_format], assumption, rule refl)
qed

end
