(* ===== verification/Doh.thy ===== *)
theory Doh
  imports Dns Streams
begin

text \<open>
  \<^verbatim>\<open>outbound/masque/doh.rs\<close>: the DNS-over-HTTPS client of the H3 outbound and its cache.  The
  TLS session is the byte stream it carries; the HTTP header parser is not part of the
  repository and is a parameter (\<open>None\<close> for a malformed head, else the status code, if any, and
  the header fields).
\<close>

section \<open>The cache\<close>

definition MIN_TTL :: nat where
  "MIN_TTL = 5"

definition MAX_TTL :: nat where
  "MAX_TTL = 300"

definition MAX_CACHE_ENTRIES :: nat where
  "MAX_CACHE_ENTRIES = 512"

record DohEntry =
  doh_ip :: IpAddr
  doh_expires :: nat

type_synonym DohCache = "(string, DohEntry) hmap"

definition cached :: "DohCache \<Rightarrow> nat \<Rightarrow> string \<Rightarrow> DohCache \<times> IpAddr option" where
  "cached entries now domain =
     (case map_of entries domain of
        Some entry \<Rightarrow>
          if now < doh_expires entry then (entries, Some (doh_ip entry))
          else (hm_remove domain entries, None)
      | None \<Rightarrow> (entries, None))"

text \<open>\<^verbatim>\<open>min_by_key\<close>: the first entry with the least expiry, in iteration order.\<close>

fun first_expiring :: "DohCache \<Rightarrow> (string \<times> DohEntry) option" where
  "first_expiring [] = None"
| "first_expiring (e # es) =
     (case first_expiring es of
        None \<Rightarrow> Some e
      | Some f \<Rightarrow> if doh_expires (snd f) < doh_expires (snd e) then Some f else Some e)"

definition doh_life :: "nat \<Rightarrow> nat" where
  "doh_life ttl_secs = secs (max MIN_TTL (min MAX_TTL ttl_secs))"

definition store :: "DohCache \<Rightarrow> nat \<Rightarrow> string \<Rightarrow> IpAddr \<Rightarrow> nat \<Rightarrow> DohCache" where
  "store entries now domain ip ttl_secs =
     (let entries =
        (if domain \<notin> fst ` set entries \<and> MAX_CACHE_ENTRIES \<le> length entries then
           let entries = hm_retain (\<lambda>e. now < doh_expires e) entries in
           if MAX_CACHE_ENTRIES \<le> length entries then
             (case first_expiring entries of
                None \<Rightarrow> entries
              | Some (name, _) \<Rightarrow> hm_remove name entries)
           else entries
         else entries)
      in hm_insert domain \<lparr>doh_ip = ip, doh_expires = now + doh_life ttl_secs\<rparr> entries)"

section \<open>HTTP\<close>

datatype DohError = DohIo IoErr | HeadCut | HeadTooLarge | BadHead | BadStatus u16
  | BadContentLength | BodyCut | DohQuery DnsError | DohResponse DnsError | NoAddress

definition crlf :: string where
  "crlf = [CHR 0x0D, CHR 0x0A]"

definition build_http_request :: "bytes \<Rightarrow> bytes" where
  "build_http_request body =
     str_bytes (''POST /dns-query HTTP/1.1'' @ crlf
       @ ''host: cloudflare-dns.com'' @ crlf
       @ ''content-type: application/dns-message'' @ crlf
       @ ''accept: application/dns-message'' @ crlf
       @ ''content-length: '' @ show_nat (length body) @ crlf
       @ ''connection: close'' @ crlf @ crlf) @ body"

definition head_mark :: bytes where
  "head_mark = [13, 10, 13, 10]"

text \<open>\<^verbatim>\<open>windows(4).position(..)\<close>.\<close>

fun mark_position :: "bytes \<Rightarrow> nat option" where
  "mark_position [] = None"
| "mark_position (b # bs) =
     (if is_prefix head_mark (b # bs) then Some 0 else map_option Suc (mark_position bs))"

lemma content_less_of_read:
  assumes "sread n s = Ok (d, s')" "d \<noteq> []"
  shows "length (content s') < length (content s)"
  using sread_Ok [of n "content s" "tail_err s" s d s'] assms
  by (cases "n = 0") (auto simp: stream_of_def sread_def)

text \<open>The header loop: the bytes read so far and the end of the head in them.\<close>

function read_head :: "rstream \<Rightarrow> bytes \<Rightarrow> (DohError, bytes \<times> nat \<times> rstream) result" where
  "read_head stream buf =
     (case sread 512 stream of
        Inl e \<Rightarrow> Err (DohIo e)
      | Inr (d, stream) \<Rightarrow>
          if d = [] then Err HeadCut
          else
            case mark_position (buf @ d) of
              Some pos \<Rightarrow> Ok (buf @ d, pos + 4, stream)
            | None \<Rightarrow>
                if 8192 < length (buf @ d) then Err HeadTooLarge else read_head stream (buf @ d))"
  by pat_completeness auto
termination
  by (relation "measure (\<lambda>(stream, buf). length (content stream))") (auto dest: content_less_of_read)

declare read_head.simps [simp del]

function read_body :: "rstream \<Rightarrow> nat \<Rightarrow> bytes \<Rightarrow> (DohError, bytes \<times> rstream) result" where
  "read_body stream content_length body =
     (if length body < content_length then
        (case sread 512 stream of
           Inl e \<Rightarrow> Err (DohIo e)
         | Inr (d, stream) \<Rightarrow>
             if d = [] then Err BodyCut else read_body stream content_length (body @ d))
      else Ok (take content_length body, stream))"
  by pat_completeness auto
termination
  by (relation "measure (\<lambda>(stream, n, body). length (content stream))") (auto dest: content_less_of_read)

declare read_body.simps [simp del]

type_synonym http_head = "u16 option \<times> (string \<times> bytes) list"

definition content_length_of :: "(string \<times> bytes) list \<Rightarrow> nat option" where
  "content_length_of headers =
     (case find (\<lambda>h. eq_ignore_ascii_case (fst h) ''content-length'') headers of
        None \<Rightarrow> None
      | Some h \<Rightarrow>
          (case from_utf8 (snd h) of
             None \<Rightarrow> None
           | Some v \<Rightarrow> parse_uint (2 ^ 64 - 1) (trim v)))"

definition read_http_response ::
  "(bytes \<Rightarrow> http_head option) \<Rightarrow> rstream \<Rightarrow> (DohError, bytes \<times> rstream) result" where
  "read_http_response httparse stream =
     rbind (read_head stream []) (\<lambda>(buf, header_end, stream).
     rbind (ok_or BadHead (httparse (take header_end buf))) (\<lambda>(code, headers).
     let status = (case code of None \<Rightarrow> 0 | Some c \<Rightarrow> c) in
     if status \<noteq> 200 then Err (BadStatus status)
     else
       rbind (ok_or BadContentLength (content_length_of headers)) (\<lambda>n.
       read_body stream n (drop header_end buf))))"

text \<open>
  \<^verbatim>\<open>resolve_over\<close> after the TLS handshake, with the request going to \<open>send\<close> and the response
  coming from \<open>recv\<close>.
\<close>

definition resolve_over ::
  "(bytes \<Rightarrow> http_head option) \<Rightarrow> DohCache \<Rightarrow> nat \<Rightarrow> wsink \<Rightarrow> rstream \<Rightarrow> string \<Rightarrow> RecordType
     \<Rightarrow> DohCache \<times> wsink \<times> (DohError, IpAddr) result" where
  "resolve_over httparse entries now send recv domain rt =
     (case encode_dns_query 0 domain rt of
        Inl e \<Rightarrow> (entries, send, Err (DohQuery e))
      | Inr query \<Rightarrow>
          (case write_all (build_http_request query) send of
             (send, Inl e) \<Rightarrow> (entries, send, Err (DohIo e))
           | (send, Inr _) \<Rightarrow>
               (case read_http_response httparse recv of
                  Inl e \<Rightarrow> (entries, send, Err e)
                | Inr (body, _) \<Rightarrow>
                    (case parse_dns_response body 0 rt of
                       Inl e \<Rightarrow> (entries, send, Err (DohResponse e))
                     | Inr ([], _) \<Rightarrow> (entries, send, Err NoAddress)
                     | Inr (ip # _, ttl) \<Rightarrow> (store entries now domain ip (unat ttl), send, Ok ip)))))"

section \<open>Reading does not depend on the chunks\<close>

lemma mark_position_Some: "mark_position bs = Some p \<Longrightarrow> \<exists>a r. bs = a @ head_mark @ r \<and> length a = p"
proof (induction bs arbitrary: p)
  case (Cons b bs)
  show ?case
  proof (cases "is_prefix head_mark (b # bs)")
    case True
    with Cons.prems show ?thesis by (auto simp: is_prefix_iff)
  next
    case False
    with Cons.prems obtain q where q: "mark_position bs = Some q" "p = Suc q" by auto
    with Cons.IH obtain a r where "bs = a @ head_mark @ r" "length a = q" by blast
    with q have "b # bs = (b # a) @ head_mark @ r \<and> length (b # a) = p" by simp
    then show ?thesis by blast
  qed
qed simp

lemma is_prefix_take: "is_prefix p xs \<Longrightarrow> length p \<le> n \<Longrightarrow> is_prefix p (take n xs)"
  by (auto simp: is_prefix_iff)

lemma is_prefix_of_take: "is_prefix p (take n xs) \<Longrightarrow> is_prefix p xs"
  unfolding is_prefix_iff by (metis append.assoc append_take_drop_id)

lemma mark_position_take:
  assumes "mark_position w = Some p"
  shows "mark_position (take n w) = (if p + 4 \<le> n then Some p else None)"
  using assms
proof (induction w arbitrary: p n)
  case (Cons b bs)
  show ?case
  proof (cases n)
    case 0
    then show ?thesis by simp
  next
    case (Suc m)
    show ?thesis
    proof (cases "is_prefix head_mark (b # bs)")
      case True
      then have p: "p = 0" using Cons.prems by simp
      show ?thesis
      proof (cases "4 \<le> n")
        case big: True
        with True is_prefix_take [of head_mark "b # bs" n] p show ?thesis
          by (simp add: Suc head_mark_def)
      next
        case False
        have short: "\<not> is_prefix head_mark xs" if "length xs < 4" for xs
          using that by (auto simp: is_prefix_iff head_mark_def)
        then have "mark_position xs = None" if "length xs < 4" for xs
          using that by (induction xs) auto
        with False p show ?thesis by simp
      qed
    next
      case False
      then obtain q where q: "mark_position bs = Some q" "p = Suc q" using Cons.prems by auto
      have "\<not> is_prefix head_mark (take n (b # bs))" using False is_prefix_of_take by blast
      with q Cons.IH [OF q(1), of m] show ?thesis by (simp add: Suc)
    qed
  qed
qed simp

lemma read_head_ok:
  assumes "mark_position (buf @ w) = Some p" "p + 4 \<le> 8192" "length buf < p + 4" "stream_of w t s"
  shows "\<exists>d w' s'. read_head s buf = Ok (buf @ d, p + 4, s') \<and> w = d @ w' \<and> stream_of w' t s'
    \<and> p + 4 \<le> length (buf @ d)"
  using assms
proof (induction "length w" arbitrary: w s buf rule: less_induct)
  case less
  have "w \<noteq> []" using mark_position_Some [OF less.prems(1)] less.prems(3) by (auto simp: head_mark_def)
  then obtain d w' s' where r: "sread 512 s = Ok (d, s')" "w = d @ w'" "stream_of w' t s'" "d \<noteq> []"
    using sread_nonempty [OF _ less.prems(4), of 512] by (metis zero_less_numeral)
  have "buf @ d = take (length (buf @ d)) (buf @ w)" using r(2) by simp
  then have m: "mark_position (buf @ d) = (if p + 4 \<le> length (buf @ d) then Some p else None)"
    using mark_position_take [OF less.prems(1), of "length (buf @ d)"] by metis
  show ?case
  proof (cases "p + 4 \<le> length (buf @ d)")
    case True
    with m r have "read_head s buf = Ok (buf @ d, p + 4, s')" by (simp add: read_head.simps [of s])
    with True r show ?thesis by blast
  next
    case False
    then have step: "read_head s buf = read_head s' (buf @ d)"
      using m r less.prems(2) by (simp add: read_head.simps [of s])
    have "\<exists>d2 w2 s2. read_head s' (buf @ d) = Ok ((buf @ d) @ d2, p + 4, s2) \<and> w' = d2 @ w2
        \<and> stream_of w2 t s2 \<and> p + 4 \<le> length ((buf @ d) @ d2)"
      using less.hyps [of w' "buf @ d" s'] r False less.prems by simp
    then obtain d2 w2 s2 where "read_head s buf = Ok (buf @ (d @ d2), p + 4, s2)" "w = (d @ d2) @ w2"
      "stream_of w2 t s2" "p + 4 \<le> length (buf @ (d @ d2))" using step r(2) by auto
    then show ?thesis by blast
  qed
qed

lemma read_body_ok:
  assumes "n \<le> length (body @ w)" "stream_of w t s"
  shows "\<exists>s'. read_body s n body = Ok (take n (body @ w), s')"
  using assms
proof (induction "length w" arbitrary: w s body rule: less_induct)
  case less
  show ?case
  proof (cases "length body < n")
    case False
    then show ?thesis by (simp add: read_body.simps [of s])
  next
    case True
    then have "w \<noteq> []" using less.prems(1) by auto
    then obtain d w' s' where r: "sread 512 s = Ok (d, s')" "w = d @ w'" "stream_of w' t s'" "d \<noteq> []"
      using sread_nonempty [OF _ less.prems(2), of 512] by (metis zero_less_numeral)
    with True have "read_body s n body = read_body s' n (body @ d)" by (simp add: read_body.simps [of s])
    with less.hyps [of w' "body @ d" s'] r less.prems show ?thesis by auto
  qed
qed

lemma read_body_cut:
  assumes "length (body @ w) < n" "stream_of w None s"
  shows "read_body s n body = Err BodyCut"
  using assms
proof (induction "length w" arbitrary: w s body rule: less_induct)
  case less
  show ?case
  proof (cases "w = []")
    case True
    with less.prems sread_empty [of 512 None s] show ?thesis by (auto simp: read_body.simps [of s])
  next
    case False
    then obtain d w' s' where r: "sread 512 s = Ok (d, s')" "w = d @ w'" "stream_of w' None s'" "d \<noteq> []"
      using sread_nonempty [OF _ less.prems(2), of 512] by (metis zero_less_numeral)
    with less.prems have "read_body s n body = read_body s' n (body @ d)" by (simp add: read_body.simps [of s])
    with less.hyps [of w' "body @ d" s'] r less.prems show ?thesis by auto
  qed
qed

section \<open>The cache keeps its contract\<close>

definition doh_cache_ok :: "DohCache \<Rightarrow> bool" where
  "doh_cache_ok c \<longleftrightarrow> hm_ok c \<and> length c \<le> 512"

definition doh_get :: "DohCache \<Rightarrow> nat \<Rightarrow> string \<Rightarrow> IpAddr option" where
  "doh_get c now k = snd (cached c now k)"

lemma first_expiring_in: "first_expiring es = Some e \<Longrightarrow> e \<in> set es"
  by (induction es arbitrary: e) (auto split: option.splits if_splits)

lemma first_expiring_least:
  "first_expiring es = Some e \<Longrightarrow> f \<in> set es \<Longrightarrow> doh_expires (snd e) \<le> doh_expires (snd f)"
proof (induction es arbitrary: e f)
  case (Cons g es)
  show ?case
  proof (cases "first_expiring es")
    case None
    then have "es = []" by (cases es) (auto split: option.splits if_splits)
    with Cons.prems show ?thesis by simp
  next
    case (Some h)
    with Cons show ?thesis by (fastforce split: if_splits)
  qed
qed simp

lemma first_expiring_None: "first_expiring es = None \<longleftrightarrow> es = []"
  by (cases es) (auto split: option.splits if_splits)

text \<open>The table into which \<^verbatim>\<open>store\<close> inserts, once room has been made.\<close>

definition make_room :: "DohCache \<Rightarrow> nat \<Rightarrow> string \<Rightarrow> DohCache" where
  "make_room c now k =
     (if k \<notin> fst ` set c \<and> MAX_CACHE_ENTRIES \<le> length c then
        let c = hm_retain (\<lambda>e. now < doh_expires e) c in
        if MAX_CACHE_ENTRIES \<le> length c then
          (case first_expiring c of None \<Rightarrow> c | Some (name, _) \<Rightarrow> hm_remove name c)
        else c
      else c)"

lemma store_make_room:
  "store c now k ip ttl = hm_insert k \<lparr>doh_ip = ip, doh_expires = now + doh_life ttl\<rparr> (make_room c now k)"
  by (simp add: store_def make_room_def Let_def)

lemma make_room_ok:
  assumes "doh_cache_ok c"
  shows "hm_ok (make_room c now k)" "k \<notin> fst ` set c \<Longrightarrow> length (make_room c now k) < 512"
    "map_of (make_room c now k) k' = map_of c k' \<or> map_of (make_room c now k) k' = None"
proof -
  let ?r = "hm_retain (\<lambda>e. now < doh_expires e) c"
  have c: "hm_ok c" "length c \<le> 512" using assms by (auto simp: doh_cache_ok_def)
  have r: "hm_ok ?r" "length ?r \<le> 512" using c length_hm_retain [of _ c] le_trans by (simp, blast)
  have v: "length (hm_remove (fst e) ?r) < 512" if "first_expiring ?r = Some e" for e
    using length_hm_remove_in [of "fst e" ?r] first_expiring_in [OF that] r(2) by force
  show "hm_ok (make_room c now k)"
    using c r by (auto simp: make_room_def Let_def split: option.splits)
  show "length (make_room c now k) < 512" if "k \<notin> fst ` set c"
    using that c r v first_expiring_None [of ?r]
    by (fastforce simp: make_room_def Let_def MAX_CACHE_ENTRIES_def split: option.splits)
  show "map_of (make_room c now k) k' = map_of c k' \<or> map_of (make_room c now k) k' = None"
    using map_of_filter_snd [OF c(1), of "\<lambda>e. now < doh_expires e" k']
    by (auto simp: make_room_def Let_def split: option.splits if_splits)
qed

lemma store_ok: "doh_cache_ok c \<Longrightarrow> doh_cache_ok (store c now k ip ttl)"
proof -
  assume c: "doh_cache_ok c"
  have "length (hm_insert k v (make_room c now k)) \<le> 512" for v
  proof (cases "k \<in> fst ` set c")
    case True
    then have "make_room c now k = c" by (simp add: make_room_def)
    then show ?thesis using True length_hm_insert [of k v c] c by (simp add: doh_cache_ok_def)
  next
    case False
    then show ?thesis
      using make_room_ok(2) [OF c, of k now] length_hm_insert [of k v "make_room c now k"]
      by (auto split: if_splits)
  qed
  then show ?thesis using make_room_ok(1) [OF c] by (simp add: doh_cache_ok_def store_make_room)
qed

lemma doh_get_alt:
  "doh_get c now k = (case map_of c k of None \<Rightarrow> None
     | Some e \<Rightarrow> if now < doh_expires e then Some (doh_ip e) else None)"
  by (simp add: doh_get_def cached_def split: option.splits)

interpretation doh_cache: ttl_cache doh_cache_ok "[]" length 512 doh_get store doh_life
proof
  fix c t now k k' v ttl
  show "doh_cache_ok []" by (simp add: doh_cache_ok_def)
  show "doh_get [] now k = None" by (simp add: doh_get_alt)
  assume c: "doh_cache_ok c"
  then show "doh_cache_ok (store c now k v ttl)" by (rule store_ok)
  show "length c \<le> 512" using c by (simp add: doh_cache_ok_def)
  show "doh_get (store c t k v ttl) now k = (if now < t + doh_life ttl then Some v else None)"
    by (simp add: doh_get_alt store_make_room)
  assume "k' \<noteq> k"
  then show "doh_get (store c t k v ttl) now k' = doh_get c now k' \<or> doh_get (store c t k v ttl) now k' = None"
    using make_room_ok(3) [OF c, of t k k'] by (auto simp: doh_get_alt store_make_room)
qed

text \<open>Looking up drops an expired entry and changes no answer.\<close>

lemma cached_keeps:
  assumes "doh_cache_ok c" "now \<le> now'"
  shows "doh_cache_ok (fst (cached c now k)) \<and> doh_get (fst (cached c now k)) now' k' = doh_get c now' k'"
  using assms length_hm_remove [of k c]
  by (auto simp: cached_def doh_cache_ok_def doh_get_alt split: option.splits)

text \<open>When a new name displaces a live entry, no other live entry expires before it.\<close>

lemma store_evicts_first_expiring:
  assumes "doh_cache_ok c" "(name, e) \<in> set c" "t < doh_expires e" "name \<noteq> k"
    and "name \<notin> fst ` set (store c t k ip ttl)" "(name', e') \<in> set c" "t < doh_expires e'"
  shows "doh_expires e \<le> doh_expires e'"
proof -
  let ?r = "hm_retain (\<lambda>e. t < doh_expires e) c"
  have in_r: "(name, e) \<in> set ?r" "(name', e') \<in> set ?r" using assms by (simp_all add: hm_retain_def)
  have gone: "name \<notin> fst ` set (make_room c t k)"
  proof
    assume "name \<in> fst ` set (make_room c t k)"
    then have "name \<in> fst ` set (hm_remove k (make_room c t k))"
      using assms(4) by (auto simp: hm_remove_def)
    with assms(5) show False by (simp add: store_make_room hm_insert_def)
  qed
  have name_in: "name \<in> fst ` set c" "name \<in> fst ` set ?r"
    using assms(2) in_r(1) image_eqI [of name fst "(name, e)"] by auto
  then have "k \<notin> fst ` set c \<and> MAX_CACHE_ENTRIES \<le> length c" "MAX_CACHE_ENTRIES \<le> length ?r"
    using gone by (auto simp: make_room_def Let_def split: if_splits)
  then obtain f where f: "first_expiring ?r = Some f" "make_room c t k = hm_remove (fst f) ?r"
    using first_expiring_None [of ?r] in_r
    by (cases "first_expiring ?r") (auto simp: make_room_def Let_def)
  have "fst f = name"
  proof (rule ccontr)
    assume "fst f \<noteq> name"
    then have "(name, e) \<in> set (make_room c t k)" using in_r(1) unfolding f(2) by (simp add: hm_remove_def)
    with gone show False by force
  qed
  moreover have "f \<in> set c" using first_expiring_in [OF f(1)] by (simp add: hm_retain_def)
  moreover have "distinct (map fst c)" using assms(1) by (simp add: doh_cache_ok_def hm_ok_def)
  ultimately have "f = (name, e)" using assms(2) by (metis eq_key_imp_eq_value prod.collapse)
  then show ?thesis using first_expiring_least [OF f(1) in_r(2)] by simp
qed

section \<open>Properties\<close>

text \<open>
  The DoH cache never holds more than 512 names, and a hit is the address most recently
  stored for the name, before its TTL (clamped to 5 to 300 seconds) has run out.
\<close>

lemma doh_cache_bounded_and_fresh:
  "length (cache_run store [] ps) \<le> 512 \<and>
   (doh_get (cache_run store [] ps) now k = Some ip \<longrightarrow>
     (\<exists>as t ttl bs. ps = as @ (t, k, ip, ttl) # bs \<and> k \<notin> (\<lambda>(t, k, v, ttl). k) ` set bs
        \<and> now < t + secs (max 5 (min 300 ttl))))"
  using doh_cache.run_size [of ps] doh_cache.hit_is_latest [of ps now k ip]
  unfolding doh_life_def MIN_TTL_def MAX_TTL_def by blast

lemma doh_cache_bounded_and_fresh_witness:
  "\<exists>as t ttl bs. [(7, ''a'', V4 192 0 2 1, 60)] = as @ (t, ''a'', V4 192 0 2 1, ttl) # bs
     \<and> ''a'' \<notin> (\<lambda>(t :: nat, k, v, ttl). k) ` set bs \<and> secs 60 < t + secs (max 5 (min 300 ttl))"
proof -
  have "doh_get (cache_run store [] [(7, ''a'', V4 192 0 2 1, 60)]) (secs 60) ''a'' = Some (V4 192 0 2 1)"
    by (simp add: cache_run_def doh_get_alt store_make_room doh_life_def MIN_TTL_def MAX_TTL_def secs_def)
  then show ?thesis by (rule doh_cache_bounded_and_fresh [THEN conjunct2, THEN mp])
qed

text \<open>
  C32: an HTTP response with a head of at most 8 KiB, status 200 and a valid content length is
  read to exactly the body of that length, wherever the chunks of the connection begin and end;
  if the connection closes first, the error is a cut body and never a shorter answer.
\<close>

theorem http_response_body_exact:
  assumes "stream_of w None s" "mark_position w = Some p" "p + 4 \<le> 8192"
    and "httparse (take (p + 4) w) = Some (Some 200, headers)" "content_length_of headers = Some n"
  shows "if n \<le> length (drop (p + 4) w)
    then \<exists>s'. read_http_response httparse s = Ok (take n (drop (p + 4) w), s')
    else read_http_response httparse s = Err BodyCut"
proof -
  obtain d w' s' where h: "read_head s [] = Ok (d, p + 4, s')" "w = d @ w'" "stream_of w' None s'"
    "p + 4 \<le> length d"
    using read_head_ok [of "[]" w p None s] assms(1-3) by auto
  have "take (p + 4) d = take (p + 4) w" and rest: "drop (p + 4) d @ w' = drop (p + 4) w"
    using h(2,4) by simp_all
  then have "read_http_response httparse s = read_body s' n (drop (p + 4) d)"
    using h(1) assms(4,5) by (simp add: read_http_response_def)
  then show ?thesis
    using read_body_ok [of n "drop (p + 4) d" w' None s'] read_body_cut [of "drop (p + 4) d" w' n s']
      h(3) unfolding rest by auto
qed

theorem http_response_body_exact_witness:
  "\<exists>s'. read_http_response (\<lambda>head. Some (Some 200, [(''Content-Length'', [50])]))
     \<lparr>chunks = [[72, 13], [10, 13, 10, 7], [8, 9]], tail_err = None\<rparr> = Ok ([7, 8], s')"
proof -
  have "content_length_of [(''Content-Length'', [50])] = Some 2"
    by (simp add: content_length_of_def eq_ignore_ascii_case_def to_ascii_lowercase_def ascii_lower_def
        from_utf8_def utf8_step_def bytes_str_def byte_char_def trim_def trim_start_def trim_end_def
        strip_lead.simps lead_ws_def ws_seqs_def parse_uint_def is_digit_def dec_val_def
        char_of_def bit_Suc_0_iff)
  then show ?thesis
    using http_response_body_exact [of "[72, 13, 10, 13, 10, 7, 8, 9]"
        "\<lparr>chunks = [[72, 13], [10, 13, 10, 7], [8, 9]], tail_err = None\<rparr>" 1
        "\<lambda>head. Some (Some 200, [(''Content-Length'', [50])])" "[(''Content-Length'', [50])]" 2]
    by (simp add: stream_of_def content_def head_mark_def)
qed

end
