(* ===== verification/Relay.thy ===== *)
theory Relay
  imports Streams Net_Addr
begin

text \<open>
  \<^verbatim>\<open>relay.rs\<close> and the outbound interface of \<^verbatim>\<open>outbound/mod.rs\<close>: what the protocol handlers
  need of an outlet, and how the two directions of a relayed connection end.  Bytes are copied
  by the runtime; what the code decides is in which order the endings are awaited, which the
  model takes as a schedule of completion times.
\<close>

section \<open>Outlets\<close>

record Connected =
  conn_stream :: rstream
  conn_note :: "string option"

text \<open>
  The outlet a handler is given: its answers to \<^verbatim>\<open>connect_tcp\<close> and \<^verbatim>\<open>supports_udp\<close>, which an
  implementation may leave at the default \<open>False\<close>.
\<close>

record Outbound =
  out_name :: string
  supports_udp :: bool
  connect_tcp :: "Host \<Rightarrow> u16 \<Rightarrow> (IoErr, Connected) result"

definition relay_connect :: "Outbound \<Rightarrow> Host \<Rightarrow> u16 \<Rightarrow> (IoErr, Connected) result" where
  "relay_connect outbound host port = connect_tcp outbound host port"

section \<open>Two-way copying with a drain budget\<close>

text \<open>
  When a future completes (\<open>None\<close>: never) and with what; the clock starts when the relay does.
  \<open>shutdown\<close> is the closing of the outlet's sending side, started when the client's side ends,
  so its time counts from there.
\<close>

type_synonym 'a future = "(nat \<times> (IoErr, 'a) result) option"

record relay_run =
  up :: "unit future"
  down :: "unit future"
  shutdown :: "unit future"

definition RELAY_DRAIN_GRACE :: nat where
  "RELAY_DRAIN_GRACE = 30 * 10 ^ 9"

fun before :: "'a future \<Rightarrow> 'b future \<Rightarrow> bool" where
  "before None _ = False"
| "before (Some _) None = True"
| "before (Some (t, _)) (Some (u, _)) = (t \<le> u)"

text \<open>A future that a timeout at \<open>limit\<close> still lets through.\<close>

fun within :: "nat \<Rightarrow> 'a future \<Rightarrow> bool" where
  "within limit None = False"
| "within limit (Some (t, _)) = (t \<le> limit)"

definition delay :: "nat \<Rightarrow> 'a future \<Rightarrow> 'a future" where
  "delay d f = map_option (\<lambda>(t, r). (d + t, r)) f"

text \<open>
  The drain phase, entered at \<open>t\<close>: the response ends it, or the shutdown fails first.  A
  response still missing when the grace is over is the timeout error.
\<close>

definition drain_phase :: "nat \<Rightarrow> nat \<Rightarrow> relay_run \<Rightarrow> nat \<times> (IoErr, unit) result" where
  "drain_phase grace t r =
     (let sd = delay t (shutdown r); limit = t + grace in
      case (if before (down r) sd then down r
            else case sd of
              Some (u, Inl e) \<Rightarrow> Some (u, Err e)
            | Some (u, Inr _) \<Rightarrow> down r
            | None \<Rightarrow> down r) of
        Some (u, res) \<Rightarrow> if u \<le> limit then (u, res) else (limit, Err TimedOut)
      | None \<Rightarrow> (limit, Err TimedOut))"

text \<open>\<open>None\<close>: neither direction ever ends.\<close>

definition copy_with_drain :: "nat \<Rightarrow> relay_run \<Rightarrow> (nat \<times> (IoErr, unit) result) option" where
  "copy_with_drain grace r =
     (if before (down r) (up r) then down r
      else
        case up r of
          None \<Rightarrow> None
        | Some (t, Inl e) \<Rightarrow> Some (t, Err e)
        | Some (t, Inr _) \<Rightarrow> Some (drain_phase grace t r))"

definition tunnel_tcp :: "relay_run \<Rightarrow> (nat \<times> (IoErr, unit) result) option" where
  "tunnel_tcp r = copy_with_drain RELAY_DRAIN_GRACE r"

section \<open>Properties\<close>

text \<open>
  A relay ends no later than the drain budget after the client's direction has ended,
  whatever the far end does; and it ends without error only if the response direction was
  copied to its end without error.
\<close>

lemma relay_bounded_after_client_close:
  assumes "up r = Some (t, res)" "\<forall>u e. down r = Some (u, e) \<longrightarrow> t < u"
  shows "\<exists>u out. tunnel_tcp r = Some (u, out) \<and> u \<le> t + 30 * 10 ^ 9
    \<and> (out = Ok () \<longrightarrow> (\<exists>v. down r = Some (v, Ok ())) \<and> is_ok res)"
  using assms
  by (cases "down r"; cases "shutdown r"; cases res)
     (auto simp: tunnel_tcp_def copy_with_drain_def drain_phase_def RELAY_DRAIN_GRACE_def delay_def
        Let_def split: sum.splits)

lemma relay_bounded_after_client_close_witness:
  "\<exists>u out. tunnel_tcp \<lparr>up = Some (5, Ok ()), down = Some (9, Ok ()), shutdown = Some (1, Ok ())\<rparr> =
      Some (u, out) \<and> u \<le> 5 + 30 * 10 ^ 9"
  using relay_bounded_after_client_close [of "\<lparr>up = Some (5, Ok ()), down = Some (9, Ok ()),
      shutdown = Some (1, Ok ())\<rparr>" 5 "Ok ()"] by auto

end
