(* ===== verification/Socks5.thy ===== *)
theory Socks5
  imports Relay Ttl_Cache
begin

text \<open>
  \<^verbatim>\<open>socks5.rs\<close>: the negotiation, the CONNECT handler, and UDP ASSOCIATE with its header codec,
  its source check and its set of per-target channels, with the permits its datagrams and answers
  hold beside those of other associations.  A client connection is the stream of
  bytes it sends and the sink of bytes sent to it; \<open>None\<close>-like failures of the source are the
  constructors of \<open>SocksError\<close>.
\<close>

section \<open>Replies\<close>

definition REP_SUCCEEDED :: u8 where "REP_SUCCEEDED = 0x00"
definition REP_HOST_UNREACHABLE :: u8 where "REP_HOST_UNREACHABLE = 0x04"
definition REP_CMD_NOT_SUPPORTED :: u8 where "REP_CMD_NOT_SUPPORTED = 0x07"
definition REP_ATYP_NOT_SUPPORTED :: u8 where "REP_ATYP_NOT_SUPPORTED = 0x08"
definition CMD_CONNECT :: u8 where "CMD_CONNECT = 0x01"
definition CMD_UDP_ASSOCIATE :: u8 where "CMD_UDP_ASSOCIATE = 0x03"

datatype SocksError = SocksIo IoErr | BadVersion u8 | NoAcceptableMethod | BadCommand u8
  | BadAddressType u8 | DomainNotUtf8 | TunnelConnectFailed IoErr | UdpUnsupported

definition reply_msg :: "u8 \<Rightarrow> bytes" where
  "reply_msg rep = [0x05, rep, 0x00, 0x01, 0, 0, 0, 0, 0, 0]"

definition reply :: "u8 \<Rightarrow> wsink \<Rightarrow> wsink \<times> (SocksError, unit) result" where
  "reply rep client = (let (client, r) = write_all (reply_msg rep) client in (client, rmap_err SocksIo r))"

definition reply_with_addr :: "u8 \<Rightarrow> SocketAddr \<Rightarrow> wsink \<Rightarrow> wsink \<times> (SocksError, unit) result" where
  "reply_with_addr rep addr client =
     (let msg = [0x05, rep, 0x00] @ (if is_ipv4 (sa_ip addr) then [0x01] else [0x04])
            @ octets (sa_ip addr) @ to_be16 (sa_port addr);
          (client, r) = write_all msg client
      in (client, rmap_err SocksIo r))"

section \<open>The request\<close>

record Target =
  target_host :: Host
  target_port :: u16
  target_display :: string

datatype Request = Connect Target | UdpAssociate

definition be16_of :: "bytes \<Rightarrow> u16" where
  "be16_of bs = from_be16 (bs ! 0) (bs ! 1)"

definition sio :: "(IoErr, 'a) result \<Rightarrow> (SocksError, 'a) result" where
  "sio r = rmap_err SocksIo r"

definition read_target :: "rstream \<Rightarrow> u8 \<Rightarrow> (SocksError, Target \<times> rstream) result" where
  "read_target client atyp =
     (if atyp = 0x01 then
        rbind (sio (read_exact 4 client)) (\<lambda>(addr, client).
        rbind (sio (read_exact 2 client)) (\<lambda>(port, client).
          let ip = V4 (addr ! 0) (addr ! 1) (addr ! 2) (addr ! 3); port = be16_of port in
          Ok (\<lparr>target_host = Ip ip, target_port = port,
               target_display = show_ip ip @ '':'' @ show_u16 port\<rparr>, client)))
      else if atyp = 0x04 then
        rbind (sio (read_exact 16 client)) (\<lambda>(addr, client).
        rbind (sio (read_exact 2 client)) (\<lambda>(port, client).
        rbind (ok_or (BadAddressType atyp) (v6_of_octets addr)) (\<lambda>ip.
          let port = be16_of port in
          Ok (\<lparr>target_host = Ip ip, target_port = port,
               target_display = show_ip ip @ '':'' @ show_u16 port\<rparr>, client))))
      else if atyp = 0x03 then
        rbind (sio (read_exact 1 client)) (\<lambda>(len, client).
        rbind (sio (read_exact (unat (len ! 0)) client)) (\<lambda>(name, client).
        rbind (sio (read_exact 2 client)) (\<lambda>(port, client).
        rbind (ok_or DomainNotUtf8 (from_utf8 name)) (\<lambda>name.
          let port = be16_of port in
          Ok (\<lparr>target_host = parse_host name, target_port = port,
               target_display = name @ '':'' @ show_u16 port\<rparr>, client)))))
      else Err (BadAddressType atyp))"

definition skip_target :: "rstream \<Rightarrow> u8 \<Rightarrow> (SocksError, rstream) result" where
  "skip_target client atyp =
     (if atyp = 0x01 then rbind (sio (read_exact (4 + 2) client)) (\<lambda>(_, client). Ok client)
      else if atyp = 0x04 then rbind (sio (read_exact (16 + 2) client)) (\<lambda>(_, client). Ok client)
      else if atyp = 0x03 then
        rbind (sio (read_exact 1 client)) (\<lambda>(len, client).
        rbind (sio (read_exact (unat (len ! 0) + 2) client)) (\<lambda>(_, client). Ok client))
      else Err (BadAddressType atyp))"

text \<open>The second half, after the method negotiation has succeeded.\<close>

definition read_command :: "rstream \<Rightarrow> wsink \<Rightarrow> wsink \<times> (SocksError, Request \<times> rstream) result" where
  "read_command client out =
     (case read_exact 4 client of
        Inl e \<Rightarrow> (out, Err (SocksIo e))
      | Inr (req, client) \<Rightarrow>
          if req ! 0 \<noteq> 0x05 then (out, Err (BadVersion (req ! 0)))
          else if req ! 1 \<noteq> CMD_CONNECT \<and> req ! 1 \<noteq> CMD_UDP_ASSOCIATE then
            (fst (reply REP_CMD_NOT_SUPPORTED out), Err (BadCommand (req ! 1)))
          else if req ! 3 \<noteq> 0x01 \<and> req ! 3 \<noteq> 0x03 \<and> req ! 3 \<noteq> 0x04 then
            (fst (reply REP_ATYP_NOT_SUPPORTED out), Err (BadAddressType (req ! 3)))
          else if req ! 1 = CMD_UDP_ASSOCIATE then
            (out, rbind (skip_target client (req ! 3)) (\<lambda>client. Ok (UdpAssociate, client)))
          else
            case read_target client (req ! 3) of
              Inr (target, client) \<Rightarrow> (out, Ok (Connect target, client))
            | Inl error \<Rightarrow> (fst (reply REP_HOST_UNREACHABLE out), Err error))"

definition read_request :: "rstream \<Rightarrow> wsink \<Rightarrow> wsink \<times> (SocksError, Request \<times> rstream) result" where
  "read_request client out =
     (case read_exact 2 client of
        Inl e \<Rightarrow> (out, Err (SocksIo e))
      | Inr (head, client) \<Rightarrow>
          if head ! 0 \<noteq> 0x05 then (out, Err (BadVersion (head ! 0)))
          else
            case read_exact (unat (head ! 1)) client of
              Inl e \<Rightarrow> (out, Err (SocksIo e))
            | Inr (methods, client) \<Rightarrow>
                if 0x00 \<notin> set methods then
                  (case write_all [0x05, 0xFF] out of
                     (out, Inl e) \<Rightarrow> (out, Err (SocksIo e))
                   | (out, Inr _) \<Rightarrow> (out, Err NoAcceptableMethod))
                else
                  (case write_all [0x05, 0x00] out of
                     (out, Inl e) \<Rightarrow> (out, Err (SocksIo e))
                   | (out, Inr _) \<Rightarrow> read_command client out))"

text \<open>\<^verbatim>\<open>handle_connect\<close> up to the relay: the reply sent and the connection to relay.\<close>

definition handle_connect :: "wsink \<Rightarrow> Target \<Rightarrow> Outbound \<Rightarrow> wsink \<times> (SocksError, Connected) result" where
  "handle_connect out target outbound =
     (case relay_connect outbound (target_host target) (target_port target) of
        Inl e \<Rightarrow> (fst (reply REP_HOST_UNREACHABLE out), Err (TunnelConnectFailed e))
      | Inr conn \<Rightarrow>
          (case reply REP_SUCCEEDED out of
             (out, Inl e) \<Rightarrow> (out, Err e)
           | (out, Inr _) \<Rightarrow> (out, Ok conn)))"

section \<open>UDP headers\<close>

datatype SocketAddrOrName = Addr SocketAddr | Name string u16

definition target_host_port :: "SocketAddrOrName \<Rightarrow> Host \<times> u16" where
  "target_host_port target =
     (case target of
        Addr a \<Rightarrow> (Ip (sa_ip a), sa_port a)
      | Name name port \<Rightarrow> (parse_host name, port))"

definition decode_udp_header :: "bytes \<Rightarrow> (SocketAddrOrName \<times> nat) option" where
  "decode_udp_header buf =
     (if length buf < 4 \<or> buf ! 2 \<noteq> 0x00 then None
      else
        let atyp = buf ! 3; pos = 4 in
        if atyp = 0x01 then
          if length buf < pos + 4 + 2 then None
          else
            let ip = V4 (buf ! pos) (buf ! (pos + 1)) (buf ! (pos + 2)) (buf ! (pos + 3)); pos = pos + 4;
                port = from_be16 (buf ! pos) (buf ! (pos + 1)); pos = pos + 2
            in Some (Addr (SockAddr ip port), pos)
        else if atyp = 0x04 then
          if length buf < pos + 16 + 2 then None
          else
            (case v6_of_octets (slice buf pos (pos + 16)) of
               None \<Rightarrow> None
             | Some ip \<Rightarrow>
                 let pos = pos + 16; port = from_be16 (buf ! pos) (buf ! (pos + 1)); pos = pos + 2
                 in Some (Addr (SockAddr ip port), pos))
        else if atyp = 0x03 then
          if length buf < pos + 1 then None
          else
            let len = unat (buf ! pos); pos = pos + 1 in
            if length buf < pos + len + 2 then None
            else
              (case from_utf8 (slice buf pos (pos + len)) of
                 None \<Rightarrow> None
               | Some name \<Rightarrow>
                   let name = to_ascii_lowercase name; pos = pos + len;
                       port = from_be16 (buf ! pos) (buf ! (pos + 1)); pos = pos + 2
                   in Some (Name name port, pos))
        else None)"

definition encode_udp_header :: "SocketAddr \<Rightarrow> bytes" where
  "encode_udp_header target =
     [0, 0, 0] @ (if is_ipv4 (sa_ip target) then [0x01] else [0x04])
     @ octets (sa_ip target) @ to_be16 (sa_port target)"

section \<open>The channels of an association\<close>

definition MAX_UDP_TARGETS_PER_ASSOCIATION :: nat where
  "MAX_UDP_TARGETS_PER_ASSOCIATION = 64"

definition UDP_TARGET_CHANNEL_CAPACITY :: nat where
  "UDP_TARGET_CHANNEL_CAPACITY = 32"

definition UDP_REPLY_CHANNEL_CAPACITY :: nat where
  "UDP_REPLY_CHANNEL_CAPACITY = 64"

definition UDP_QUEUE_BYTES :: nat where
  "UDP_QUEUE_BYTES = 8 * 1024 * 1024"

definition UDP_WORKERS :: nat where
  "UDP_WORKERS = 128"

text \<open>An answer from a target; it holds a byte permit for each byte of its payload.\<close>

record UdpReply =
  reply_from :: SocketAddr
  reply_payload :: bytes

text \<open>
  A target's bounded channel with its worker: the datagrams the worker has not taken yet, the one it
  is sending, the answer it is passing on (at most one of the two, each with its byte permits), and
  whether the worker has ended, which closes the channel.
\<close>

record channel =
  queued :: "bytes list"
  sending :: "bytes list"
  replying :: "UdpReply list"
  closed :: bool

text \<open>
  The channel for each target, the answers waiting for the association and the one it is passing to
  the client.  \<open>free_bytes\<close> and \<open>free_workers\<close> are the permits left in the two semaphores of the process;
  \<open>other_bytes\<close> and \<open>other_workers\<close> are those in use by other associations.
\<close>

record UdpEgressSet =
  routes :: "(SocketAddrOrName, channel) hmap"
  reply_queue :: "UdpReply list"
  in_hand :: "UdpReply list"
  free_bytes :: nat
  free_workers :: nat
  other_bytes :: nat
  other_workers :: nat

definition egress_new :: "nat \<Rightarrow> nat \<Rightarrow> UdpEgressSet" where
  "egress_new others_b others_w =
     \<lparr>routes = [], reply_queue = [], in_hand = [], free_bytes = UDP_QUEUE_BYTES - others_b, free_workers = UDP_WORKERS - others_w,
      other_bytes = others_b, other_workers = others_w\<rparr>"

definition prune :: "UdpEgressSet \<Rightarrow> UdpEgressSet" where
  "prune st = st\<lparr>routes := hm_retain (\<lambda>ch. \<not> closed ch) (routes st)\<rparr>"

text \<open>\<open>ended\<close>: the new worker has ended before the datagram is handed to it, which drops both.\<close>

definition open_route :: "bool \<Rightarrow> SocketAddrOrName \<Rightarrow> bytes \<Rightarrow> UdpEgressSet \<Rightarrow> UdpEgressSet" where
  "open_route ended target payload st =
     (if MAX_UDP_TARGETS_PER_ASSOCIATION \<le> length (routes st) then st
      else if free_workers st = 0 then st
      else if ended then st
      else st\<lparr>routes := hm_insert target \<lparr>queued = [payload], sending = [], replying = [], closed = False\<rparr> (routes st),
              free_bytes := free_bytes st - length payload,
              free_workers := free_workers st - 1\<rparr>)"

text \<open>
  What a target's worker does: take the next datagram, be done with sending it, receive an answer
  and take permits for it (it is dropped when there are none), pass the answer on when the
  channel back has room, or end, which drops everything it and its channel hold.
\<close>

definition idle :: "channel \<Rightarrow> bool" where
  "idle ch \<longleftrightarrow> \<not> closed ch \<and> sending ch = [] \<and> replying ch = []"

definition worker_take :: "SocketAddrOrName \<Rightarrow> UdpEgressSet \<Rightarrow> UdpEgressSet" where
  "worker_take target st =
     (case map_of (routes st) target of
        Some ch \<Rightarrow>
          (case queued ch of
             [] \<Rightarrow> st
           | d # ds \<Rightarrow>
               if \<not> idle ch then st
               else st\<lparr>routes := hm_insert target (ch\<lparr>queued := ds, sending := [d]\<rparr>) (routes st)\<rparr>)
      | None \<Rightarrow> st)"

definition worker_sent :: "SocketAddrOrName \<Rightarrow> UdpEgressSet \<Rightarrow> UdpEgressSet" where
  "worker_sent target st =
     (case map_of (routes st) target of
        Some ch \<Rightarrow>
          st\<lparr>routes := hm_insert target (ch\<lparr>sending := []\<rparr>) (routes st),
             free_bytes := free_bytes st + sum_list (map length (sending ch))\<rparr>
      | None \<Rightarrow> st)"

definition worker_receive :: "SocketAddrOrName \<Rightarrow> SocketAddr \<Rightarrow> bytes \<Rightarrow> UdpEgressSet \<Rightarrow> UdpEgressSet" where
  "worker_receive target peer_addr datagram st =
     (let payload = take 65536 datagram in
      case map_of (routes st) target of
        Some ch \<Rightarrow>
          if \<not> idle ch then st
          else if free_bytes st < length payload then st
          else
            st\<lparr>routes := hm_insert target (ch\<lparr>replying := [\<lparr>reply_from = peer_addr, reply_payload = payload\<rparr>]\<rparr>) (routes st),
               free_bytes := free_bytes st - length payload\<rparr>
      | None \<Rightarrow> st)"

definition worker_passed :: "SocketAddrOrName \<Rightarrow> UdpEgressSet \<Rightarrow> UdpEgressSet" where
  "worker_passed target st =
     (case map_of (routes st) target of
        Some ch \<Rightarrow>
          if UDP_REPLY_CHANNEL_CAPACITY \<le> length (reply_queue st) then st
          else
            st\<lparr>routes := hm_insert target (ch\<lparr>replying := []\<rparr>) (routes st),
               reply_queue := reply_queue st @ replying ch\<rparr>
      | None \<Rightarrow> st)"

definition reply_bytes :: "UdpReply list \<Rightarrow> nat" where
  "reply_bytes rs = sum_list (map (\<lambda>r. length (reply_payload r)) rs)"

definition chan_bytes :: "channel \<Rightarrow> nat" where
  "chan_bytes ch = sum_list (map length (queued ch @ sending ch)) + reply_bytes (replying ch)"

definition worker_end :: "SocketAddrOrName \<Rightarrow> UdpEgressSet \<Rightarrow> UdpEgressSet" where
  "worker_end target st =
     (case map_of (routes st) target of
        Some ch \<Rightarrow>
          if closed ch then st
          else
            st\<lparr>routes := hm_insert target \<lparr>queued = [], sending = [], replying = [], closed = True\<rparr> (routes st),
               free_bytes := free_bytes st + chan_bytes ch,
               free_workers := free_workers st + 1\<rparr>
      | None \<Rightarrow> st)"

text \<open>
  \<open>late_close\<close>: the target's worker ends between the pruning and the attempt to enqueue.
\<close>

definition egress_send :: "bool \<Rightarrow> bool \<Rightarrow> SocketAddrOrName \<Rightarrow> bytes \<Rightarrow> UdpEgressSet \<Rightarrow> UdpEgressSet" where
  "egress_send late_close ended target payload st =
     (let st = prune st in
      if free_bytes st < length payload then st
      else
        let st = (if late_close then worker_end target st else st) in
        case map_of (routes st) target of
          Some ch \<Rightarrow>
            if closed ch then open_route ended target payload (st\<lparr>routes := hm_remove target (routes st)\<rparr>)
            else if UDP_TARGET_CHANNEL_CAPACITY \<le> length (queued ch) then st
            else
              st\<lparr>routes := hm_insert target (ch\<lparr>queued := queued ch @ [payload]\<rparr>) (routes st),
                 free_bytes := free_bytes st - length payload\<rparr>
        | None \<Rightarrow> open_route ended target payload st)"

text \<open>The next answer; its permits are given back when it is done with.\<close>

definition egress_recv :: "UdpEgressSet \<Rightarrow> UdpEgressSet \<times> UdpReply option" where
  "egress_recv st =
     (case reply_queue st of
        [] \<Rightarrow> (st, None)
      | r # rs \<Rightarrow> (st\<lparr>reply_queue := rs, in_hand := r # in_hand st\<rparr>, Some r))"

definition reply_dropped :: "UdpEgressSet \<Rightarrow> UdpEgressSet" where
  "reply_dropped st = st\<lparr>in_hand := [], free_bytes := free_bytes st + reply_bytes (in_hand st)\<rparr>"

text \<open>
  \<^verbatim>\<open>run_udp_egress\<close>: what completes in the loop of a target's worker.  A failed operation and the idle
  timeout end it.
\<close>

datatype egress_event =
    TakeNext
  | SendDone bool
  | FromTarget "(IoErr, bytes) result"
  | ReplyPassed
  | IdleTimeout

definition egress_turn :: "SocketAddrOrName \<Rightarrow> SocketAddr \<Rightarrow> egress_event \<Rightarrow> UdpEgressSet \<Rightarrow> UdpEgressSet" where
  "egress_turn target peer_addr ev st =
     (case ev of
        TakeNext \<Rightarrow> worker_take target st
      | SendDone ok \<Rightarrow> if ok then worker_sent target st else worker_end target st
      | FromTarget (Inl _) \<Rightarrow> worker_end target st
      | FromTarget (Inr datagram) \<Rightarrow> worker_receive target peer_addr datagram st
      | ReplyPassed \<Rightarrow> worker_passed target st
      | IdleTimeout \<Rightarrow> worker_end target st)"

fun run_udp_egress :: "SocketAddrOrName \<Rightarrow> SocketAddr \<Rightarrow> egress_event list \<Rightarrow> UdpEgressSet \<Rightarrow> UdpEgressSet" where
  "run_udp_egress target peer_addr [] st = st"
| "run_udp_egress target peer_addr (ev # evs) st = run_udp_egress target peer_addr evs (egress_turn target peer_addr ev st)"

text \<open>What goes on beside the association's own loop: its workers, and the other associations.\<close>

datatype background =
    NotEstablished SocketAddrOrName
  | Worker SocketAddrOrName SocketAddr "egress_event list"
  | OthersTake nat nat
  | OthersRelease nat nat

definition background_step :: "background \<Rightarrow> UdpEgressSet \<Rightarrow> UdpEgressSet" where
  "background_step bg st =
     (case bg of
        NotEstablished target \<Rightarrow> worker_end target st
      | Worker target peer_addr evs \<Rightarrow> run_udp_egress target peer_addr evs st
      | OthersTake n m \<Rightarrow>
          if n \<le> free_bytes st \<and> m \<le> free_workers st then
            st\<lparr>free_bytes := free_bytes st - n, free_workers := free_workers st - m,
               other_bytes := other_bytes st + n, other_workers := other_workers st + m\<rparr>
          else st
      | OthersRelease n m \<Rightarrow>
          if n \<le> other_bytes st \<and> m \<le> other_workers st then
            st\<lparr>free_bytes := free_bytes st + n, free_workers := free_workers st + m,
               other_bytes := other_bytes st - n, other_workers := other_workers st - m\<rparr>
          else st)"

definition chan_worker :: "channel \<Rightarrow> nat" where
  "chan_worker ch = (if closed ch then 0 else 1)"

text \<open>The end of an association aborts its workers and drops its channels.\<close>

definition egress_drop :: "UdpEgressSet \<Rightarrow> UdpEgressSet" where
  "egress_drop st =
     st\<lparr>routes := [], reply_queue := [], in_hand := [],
        free_bytes := free_bytes st + hm_sum chan_bytes (routes st) + reply_bytes (reply_queue st @ in_hand st),
        free_workers := free_workers st + hm_sum chan_worker (routes st)\<rparr>"

section \<open>The association\<close>

definition udp_source_allowed :: "SocketAddr \<Rightarrow> SocketAddr option \<Rightarrow> SocketAddr \<Rightarrow> bool" where
  "udp_source_allowed control_peer learned_client source \<longleftrightarrow>
     sa_ip source = sa_ip control_peer
     \<and> (case learned_client of None \<Rightarrow> True | Some learned \<Rightarrow> learned = source)"

record assoc =
  client_addr :: "SocketAddr option"
  egress :: UdpEgressSet

datatype assoc_event =
    ControlData
  | ControlClosed
  | RelayFailed
  | RelayPacket SocketAddr bytes bool bool
  | EgressReply
  | Delivered
  | Meanwhile background

datatype assoc_output =
    Forward SocketAddr SocketAddrOrName bytes
  | ToClient SocketAddr bytes

definition beside_loop :: "assoc_event \<Rightarrow> bool" where
  "beside_loop ev \<longleftrightarrow> (case ev of Delivered \<Rightarrow> True | Meanwhile _ \<Rightarrow> True | _ \<Rightarrow> False)"

text \<open>
  One turn of the \<^verbatim>\<open>select!\<close> loop, or what goes on beside it; \<open>None\<close> tears the association down.  While
  an answer is being passed to the client the loop waits for nothing else.
\<close>

definition assoc_step ::
  "SocketAddr \<Rightarrow> assoc_event \<Rightarrow> assoc \<Rightarrow> assoc option \<times> assoc_output list" where
  "assoc_step peer ev st =
     (if in_hand (egress st) \<noteq> [] \<and> \<not> beside_loop ev then (Some st, [])
      else case ev of
        ControlData \<Rightarrow> (Some st, [])
      | ControlClosed \<Rightarrow> (None, [])
      | RelayFailed \<Rightarrow> (None, [])
      | RelayPacket from buf late ended \<Rightarrow>
          if \<not> udp_source_allowed peer (client_addr st) from then (Some st, [])
          else if client_addr st \<noteq> None \<and> client_addr st \<noteq> Some from then (Some st, [])
          else
            (case decode_udp_header buf of
               None \<Rightarrow> (Some st, [])
             | Some (target, header_len) \<Rightarrow>
                 let payload = drop header_len buf in
                 (Some (st\<lparr>client_addr := (case client_addr st of None \<Rightarrow> Some from | Some a \<Rightarrow> Some a),
                           egress := egress_send late ended target payload (egress st)\<rparr>),
                  [Forward from target payload]))
      | EgressReply \<Rightarrow>
          (case egress_recv (egress st) of
             (e, None) \<Rightarrow> (Some st, [])
           | (e, Some r) \<Rightarrow>
               (case client_addr st of
                  None \<Rightarrow> (Some (st\<lparr>egress := reply_dropped e\<rparr>), [])
                | Some a \<Rightarrow> (Some (st\<lparr>egress := e\<rparr>), [ToClient a (encode_udp_header (reply_from r) @ reply_payload r)])))
      | Delivered \<Rightarrow> (Some (st\<lparr>egress := reply_dropped (egress st)\<rparr>), [])
      | Meanwhile bg \<Rightarrow> (Some (st\<lparr>egress := background_step bg (egress st)\<rparr>), []))"

fun assoc_run :: "SocketAddr \<Rightarrow> assoc_event list \<Rightarrow> assoc \<Rightarrow> assoc option \<times> assoc_output list" where
  "assoc_run peer [] st = (Some st, [])"
| "assoc_run peer (ev # evs) st =
     (case assoc_step peer ev st of
        (None, out) \<Rightarrow> (None, out)
      | (Some st, out) \<Rightarrow> let (st, out') = assoc_run peer evs st in (st, out @ out'))"

text \<open>\<^verbatim>\<open>handle_udp_associate\<close> up to the loop: what the client is told.\<close>

definition handle_udp_associate ::
  "Outbound \<Rightarrow> SocketAddr \<Rightarrow> UdpEgressSet \<Rightarrow> wsink \<Rightarrow> wsink \<times> (SocksError, assoc) result" where
  "handle_udp_associate outbound relay_addr new_egress out =
     (if \<not> supports_udp outbound then
        (case reply REP_CMD_NOT_SUPPORTED out of
           (out, Inl e) \<Rightarrow> (out, Err e)
         | (out, Inr _) \<Rightarrow> (out, Err UdpUnsupported))
      else
        (case reply_with_addr REP_SUCCEEDED relay_addr out of
           (out, Inl e) \<Rightarrow> (out, Err e)
         | (out, Inr _) \<Rightarrow> (out, Ok \<lparr>client_addr = None, egress = new_egress\<rparr>)))"

section \<open>The channels stay within their bounds\<close>

definition chan_ok :: "channel \<Rightarrow> bool" where
  "chan_ok ch \<longleftrightarrow> length (queued ch) \<le> 32 \<and> length (sending ch) + length (replying ch) \<le> 1
     \<and> (closed ch \<longrightarrow> queued ch = [] \<and> sending ch = [] \<and> replying ch = [])"

text \<open>
  The invariant: at most 64 targets, at most 32 datagrams each, at most 64 answers waiting, and
  every byte and worker permit of the process is free, held by one datagram, answer or live worker
  of this association, or in use by another.
\<close>

definition egress_ok :: "UdpEgressSet \<Rightarrow> bool" where
  "egress_ok st \<longleftrightarrow>
     hm_ok (routes st) \<and> length (routes st) \<le> 64 \<and> (\<forall>e\<in>set (routes st). chan_ok (snd e)) \<and> length (reply_queue st) \<le> 64 \<and> length (in_hand st) \<le> 1
     \<and> free_bytes st + hm_sum chan_bytes (routes st) + reply_bytes (reply_queue st @ in_hand st) + other_bytes st = UDP_QUEUE_BYTES
     \<and> free_workers st + hm_sum chan_worker (routes st) + other_workers st = UDP_WORKERS"

lemma reply_bytes_simps [simp]:
  "reply_bytes [] = 0" "reply_bytes (r # rs) = length (reply_payload r) + reply_bytes rs"
  "reply_bytes (rs @ rs') = reply_bytes rs + reply_bytes rs'"
  by (simp_all add: reply_bytes_def)

lemma egress_update:
  assumes "egress_ok st" "map_of (routes st) k = Some ch" "chan_ok ch'" "length rq \<le> 64"
    and "fb + chan_bytes ch' + reply_bytes rq = free_bytes st + chan_bytes ch + reply_bytes (reply_queue st)"
    and "fw + chan_worker ch' = free_workers st + chan_worker ch"
  shows "egress_ok (st\<lparr>routes := hm_insert k ch' (routes st), reply_queue := rq, free_bytes := fb, free_workers := fw\<rparr>)"
proof -
  have ok: "hm_ok (routes st)" using assms(1) by (simp add: egress_ok_def)
  have "k \<in> fst ` set (routes st)" using map_of_SomeD [OF assms(2)] by force
  then have "length (hm_insert k ch' (routes st)) \<le> 64"
    using length_hm_insert [of k ch' "routes st"] assms(1) by (simp add: egress_ok_def)
  then show ?thesis
    using assms hm_sum_remove [OF ok assms(2), of chan_bytes] hm_sum_remove [OF ok assms(2), of chan_worker]
      set_hm_remove [of k "routes st"]
    by (auto simp: egress_ok_def hm_sum_insert set_hm_insert)
qed

lemma route_chan_ok: "egress_ok st \<Longrightarrow> map_of (routes st) k = Some ch \<Longrightarrow> chan_ok ch"
  by (force simp: egress_ok_def dest: map_of_SomeD)

lemmas egress_chan = chan_ok_def chan_bytes_def chan_worker_def idle_def

lemma worker_end_ok: "egress_ok st \<Longrightarrow> egress_ok (worker_end k st)"
proof (cases "map_of (routes st) k")
  case (Some ch)
  assume st: "egress_ok st"
  have "egress_ok (st\<lparr>routes := hm_insert k \<lparr>queued = [], sending = [], replying = [], closed = True\<rparr> (routes st),
      reply_queue := reply_queue st, free_bytes := free_bytes st + chan_bytes ch, free_workers := free_workers st + 1\<rparr>)"
    if "\<not> closed ch"
    using that st by (intro egress_update [OF st Some]) (simp_all add: egress_chan egress_ok_def)
  then show ?thesis using st Some by (simp add: worker_end_def)
qed (simp add: worker_end_def)

lemma worker_take_ok: "egress_ok st \<Longrightarrow> egress_ok (worker_take k st)"
proof (cases "map_of (routes st) k")
  case (Some ch)
  assume st: "egress_ok st"
  note ch = route_chan_ok [OF st Some]
  have "egress_ok (st\<lparr>routes := hm_insert k (ch\<lparr>queued := ds, sending := [d]\<rparr>) (routes st),
      reply_queue := reply_queue st, free_bytes := free_bytes st, free_workers := free_workers st\<rparr>)"
    if "queued ch = d # ds" "idle ch" for d ds
    using that st ch by (intro egress_update [OF st Some]) (auto simp: egress_chan egress_ok_def)
  then show ?thesis using st Some by (simp add: worker_take_def split: list.splits)
qed (simp add: worker_take_def)

lemma worker_sent_ok: "egress_ok st \<Longrightarrow> egress_ok (worker_sent k st)"
proof (cases "map_of (routes st) k")
  case (Some ch)
  assume st: "egress_ok st"
  note ch = route_chan_ok [OF st Some]
  have "egress_ok (st\<lparr>routes := hm_insert k (ch\<lparr>sending := []\<rparr>) (routes st), reply_queue := reply_queue st,
      free_bytes := free_bytes st + sum_list (map length (sending ch)), free_workers := free_workers st\<rparr>)"
    using st ch by (intro egress_update [OF st Some]) (auto simp: egress_chan egress_ok_def)
  then show ?thesis using Some by (simp add: worker_sent_def)
qed (simp add: worker_sent_def)

lemma worker_receive_ok: "egress_ok st \<Longrightarrow> egress_ok (worker_receive k a d st)"
proof (cases "map_of (routes st) k")
  case (Some ch)
  assume st: "egress_ok st"
  note ch = route_chan_ok [OF st Some]
  let ?p = "take 65536 d"
  have "egress_ok (st\<lparr>routes := hm_insert k (ch\<lparr>replying := [\<lparr>reply_from = a, reply_payload = ?p\<rparr>]\<rparr>) (routes st),
      reply_queue := reply_queue st, free_bytes := free_bytes st - length ?p, free_workers := free_workers st\<rparr>)"
    if "idle ch" "\<not> free_bytes st < length ?p"
    using that st ch by (intro egress_update [OF st Some]) (auto simp: egress_chan egress_ok_def)
  then show ?thesis using st Some by (simp add: worker_receive_def Let_def)
qed (simp add: worker_receive_def)

lemma worker_passed_ok: "egress_ok st \<Longrightarrow> egress_ok (worker_passed k st)"
proof (cases "map_of (routes st) k")
  case (Some ch)
  assume st: "egress_ok st"
  note ch = route_chan_ok [OF st Some]
  have "egress_ok (st\<lparr>routes := hm_insert k (ch\<lparr>replying := []\<rparr>) (routes st),
      reply_queue := reply_queue st @ replying ch, free_bytes := free_bytes st, free_workers := free_workers st\<rparr>)"
    if "\<not> 64 \<le> length (reply_queue st)"
    using that ch by (intro egress_update [OF st Some]) (auto simp: egress_chan)
  then show ?thesis using st Some by (simp add: worker_passed_def UDP_REPLY_CHANNEL_CAPACITY_def)
qed (simp add: worker_passed_def)

lemma egress_turn_ok: "egress_ok st \<Longrightarrow> egress_ok (egress_turn k a ev st)"
  by (auto simp: egress_turn_def worker_take_ok worker_sent_ok worker_receive_ok worker_passed_ok worker_end_ok
      split: egress_event.splits sum.splits)

lemma run_udp_egress_ok: "egress_ok st \<Longrightarrow> egress_ok (run_udp_egress k a evs st)"
  by (induction evs arbitrary: st) (auto intro: egress_turn_ok)

lemma background_step_ok: "egress_ok st \<Longrightarrow> egress_ok (background_step bg st)"
  by (cases bg) (auto simp: background_step_def run_udp_egress_ok worker_end_ok, auto simp: egress_ok_def)

lemma egress_recv_ok: "egress_ok st \<Longrightarrow> in_hand st = [] \<Longrightarrow> egress_ok (fst (egress_recv st))"
  by (auto simp: egress_recv_def egress_ok_def split: list.splits)

lemma reply_dropped_ok: "egress_ok st \<Longrightarrow> egress_ok (reply_dropped st)"
  by (auto simp: reply_dropped_def egress_ok_def)

lemma egress_new_ok: "b \<le> UDP_QUEUE_BYTES \<Longrightarrow> w \<le> UDP_WORKERS \<Longrightarrow> egress_ok (egress_new b w)"
  by (simp add: egress_ok_def egress_new_def hm_sum_def)

lemma prune_ok: "egress_ok st \<Longrightarrow> egress_ok (prune st)"
proof -
  assume st: "egress_ok st"
  let ?m = "routes st" and ?P = "\<lambda>ch. \<not> closed ch"
  have ch: "\<forall>e\<in>set ?m. chan_ok (snd e)" using st by (simp add: egress_ok_def)
  have "hm_sum chan_bytes (hm_retain ?P ?m) = hm_sum chan_bytes ?m"
    using ch by (intro hm_sum_retain) (auto simp: egress_chan)
  moreover have "hm_sum chan_worker (hm_retain ?P ?m) = hm_sum chan_worker ?m"
    by (rule hm_sum_retain) (simp add: chan_worker_def)
  moreover have "set (hm_retain ?P ?m) \<subseteq> set ?m" by (auto simp: hm_retain_def)
  ultimately show ?thesis
    using st length_hm_retain [of ?P ?m] by (auto simp: egress_ok_def prune_def)
qed

lemma open_route_ok:
  assumes "egress_ok st" "map_of (routes st) k = None" "length p \<le> free_bytes st"
  shows "egress_ok (open_route ended k p st)"
proof -
  have "\<not> 64 \<le> length (routes st) \<Longrightarrow> length (hm_insert k ch (routes st)) \<le> 64" for ch
    using length_hm_insert [of k ch "routes st"] by (auto split: if_splits)
  then show ?thesis
    using assms map_of_None_remove [OF assms(2)]
    by (auto simp: egress_ok_def open_route_def MAX_UDP_TARGETS_PER_ASSOCIATION_def hm_sum_insert
        chan_bytes_def chan_worker_def chan_ok_def set_hm_insert intro: le_trans)
qed

lemma worker_end_free: "free_bytes st \<le> free_bytes (worker_end k st)"
  by (simp add: worker_end_def split: option.splits)

lemma egress_send_ok: "egress_ok st \<Longrightarrow> egress_ok (egress_send late ended k p st)"
proof -
  assume st: "egress_ok st"
  let ?s = "prune st" and ?t = "if late then worker_end k (prune st) else prune st"
  have t: "egress_ok ?t" using prune_ok [OF st] worker_end_ok by simp
  show ?thesis
  proof (cases "free_bytes ?s < length p")
    case True
    then show ?thesis using prune_ok [OF st] by (simp add: egress_send_def Let_def)
  next
    case False
    then have room: "length p \<le> free_bytes ?t" using worker_end_free [of ?s k] by auto
    show ?thesis
    proof (cases "map_of (routes ?t) k")
      case None
      have "egress_send late ended k p st = open_route ended k p ?t"
        using None False by (simp add: egress_send_def Let_def)
      then show ?thesis using open_route_ok [OF t None room] by simp
    next
      case (Some ch)
      have ch: "chan_ok ch" using t map_of_SomeD [OF Some] by (force simp: egress_ok_def)
      consider "closed ch" | "\<not> closed ch" "32 \<le> length (queued ch)" | "\<not> closed ch" "length (queued ch) < 32"
        by linarith
      then show ?thesis
      proof cases
        case 1
        let ?u = "?t\<lparr>routes := hm_remove k (routes ?t)\<rparr>"
        have ok: "hm_ok (routes ?t)" using t by (simp add: egress_ok_def)
        have "egress_ok ?u"
          using t ch 1 hm_sum_remove [OF ok Some, of chan_bytes] hm_sum_remove [OF ok Some, of chan_worker]
            length_hm_remove [of k "routes ?t"] set_hm_remove [of k "routes ?t"]
          by (auto simp: egress_ok_def egress_chan)
        then have "egress_ok (open_route ended k p ?u)" using room by (intro open_route_ok) simp_all
        moreover have "egress_send late ended k p st = open_route ended k p ?u"
          using Some False 1 by (simp add: egress_send_def Let_def)
        ultimately show ?thesis by simp
      next
        case 2
        then have "egress_send late ended k p st = ?t"
          using Some False by (simp add: egress_send_def Let_def UDP_TARGET_CHANNEL_CAPACITY_def)
        then show ?thesis using t by simp
      next
        case 3
        have "egress_ok (?t\<lparr>routes := hm_insert k (ch\<lparr>queued := queued ch @ [p]\<rparr>) (routes ?t),
            reply_queue := reply_queue ?t, free_bytes := free_bytes ?t - length p, free_workers := free_workers ?t\<rparr>)"
          using 3 room ch t by (intro egress_update [OF t Some]) (auto simp: egress_chan egress_ok_def)
        then show ?thesis
          using 3 Some False by (simp add: egress_send_def Let_def UDP_TARGET_CHANNEL_CAPACITY_def)
      qed
    qed
  qed
qed

section \<open>Requests on the wire\<close>

datatype wire_addr = WireIp IpAddr | WireName bytes

fun atyp_of :: "wire_addr \<Rightarrow> u8" where
  "atyp_of (WireIp ip) = (if is_ipv4 ip then 1 else 4)"
| "atyp_of (WireName n) = 3"

fun addr_bytes :: "wire_addr \<Rightarrow> bytes" where
  "addr_bytes (WireIp ip) = octets ip"
| "addr_bytes (WireName n) = of_nat (length n) # n"

definition wire_addr_ok :: "wire_addr \<Rightarrow> bool" where
  "wire_addr_ok a \<longleftrightarrow> (case a of WireIp ip \<Rightarrow> True | WireName n \<Rightarrow> length n < 256)"

text \<open>What the target means: a name that is not UTF-8 has no meaning.\<close>

fun addr_target :: "wire_addr \<Rightarrow> u16 \<Rightarrow> Target option" where
  "addr_target (WireIp ip) port =
     Some \<lparr>target_host = Ip ip, target_port = port, target_display = show_ip ip @ '':'' @ show_u16 port\<rparr>"
| "addr_target (WireName n) port =
     map_option (\<lambda>name. \<lparr>target_host = parse_host name, target_port = port,
        target_display = name @ '':'' @ show_u16 port\<rparr>) (from_utf8 n)"

lemma be16_of_to_be16 [simp]: "be16_of (to_be16 p) = p"
  by (simp add: be16_of_def to_be16_def)

lemma unat_len_byte: "length n < 256 \<Longrightarrow> unat (of_nat (length n) :: u8) = length n"
  by (simp add: unat_of_nat)

lemma read_target_wire:
  assumes "stream_of (addr_bytes a @ to_be16 port @ rest) t s" "wire_addr_ok a"
  shows "case addr_target a port of
      Some tgt \<Rightarrow> \<exists>s'. read_target s (atyp_of a) = Ok (tgt, s') \<and> stream_of rest t s'
    | None \<Rightarrow> read_target s (atyp_of a) = Err DomainNotUtf8"
proof (cases a)
  case (WireIp ip)
  obtain s1 where 1: "read_exact (addr_len ip) s = Ok (octets ip, s1)" "stream_of (to_be16 port @ rest) t s1"
    using read_exact_append [of "octets ip" "to_be16 port @ rest" t s "addr_len ip"] assms(1)
    by (auto simp: WireIp)
  obtain s2 where 2: "read_exact 2 s1 = Ok (to_be16 port, s2)" "stream_of rest t s2"
    using read_exact_append [OF 1(2)] by auto
  show ?thesis
  proof (cases "is_ipv4 ip")
    case True
    then obtain a b c d where "ip = V4 a b c d" by (cases ip) auto
    with 1 2 WireIp show ?thesis
      by (simp add: read_target_def sio_def addr_len_def Let_def)
  next
    case False
    then have "v6_of_octets (octets ip) = Some ip" by simp
    with False 1 2 WireIp show ?thesis
      by (simp add: read_target_def sio_def addr_len_def Let_def)
  qed
next
  case (WireName n)
  then have n: "length n < 256" using assms(2) by (simp add: wire_addr_ok_def)
  have "stream_of ([of_nat (length n)] @ n @ to_be16 port @ rest) t s" using assms(1) WireName by simp
  then obtain s1 where 1: "read_exact 1 s = Ok ([of_nat (length n)], s1)" "stream_of (n @ to_be16 port @ rest) t s1"
    using read_exact_append by (metis length_Cons list.size(3) One_nat_def)
  obtain s2 where 2: "read_exact (length n) s1 = Ok (n, s2)" "stream_of (to_be16 port @ rest) t s2"
    using read_exact_append [OF 1(2)] by auto
  obtain s3 where 3: "read_exact 2 s2 = Ok (to_be16 port, s3)" "stream_of rest t s3"
    using read_exact_append [OF 2(2)] by auto
  show ?thesis
    using 1 2 3 WireName unat_len_byte [OF n]
    by (auto simp: read_target_def sio_def Let_def split: option.splits)
qed

lemma skip_target_wire:
  assumes "stream_of (addr_bytes a @ to_be16 port @ rest) t s" "wire_addr_ok a"
  shows "\<exists>s'. skip_target s (atyp_of a) = Ok s' \<and> stream_of rest t s'"
proof (cases a)
  case (WireIp ip)
  have "stream_of ((octets ip @ to_be16 port) @ rest) t s" using assms(1) WireIp by simp
  then obtain s1 where "read_exact (addr_len ip + 2) s = Ok (octets ip @ to_be16 port, s1)" "stream_of rest t s1"
    using read_exact_append [of "octets ip @ to_be16 port" rest t s "addr_len ip + 2"] by auto
  then show ?thesis
    using WireIp by (cases "is_ipv4 ip") (simp_all add: skip_target_def sio_def addr_len_def)
next
  case (WireName n)
  then have n: "length n < 256" using assms(2) by (simp add: wire_addr_ok_def)
  have "stream_of ([of_nat (length n)] @ (n @ to_be16 port) @ rest) t s" using assms(1) WireName by simp
  then obtain s1 where 1: "read_exact 1 s = Ok ([of_nat (length n)], s1)"
    "stream_of ((n @ to_be16 port) @ rest) t s1"
    using read_exact_append by (metis length_Cons list.size(3) One_nat_def)
  obtain s2 where "read_exact (length n + 2) s1 = Ok (n @ to_be16 port, s2)" "stream_of rest t s2"
    using read_exact_append [OF 1(2), of "length n + 2"] by auto
  then show ?thesis
    using 1 WireName unat_len_byte [OF n] by (simp add: skip_target_def sio_def)
qed

lemma list_two: "length xs = 2 \<Longrightarrow> xs = [xs ! 0, xs ! 1]"
  by (intro nth_equalityI) (auto simp: less_2_cases_iff)

lemma read_command_wire:
  assumes "stream_of ([v, cmd, rsv, atyp_of a] @ addr_bytes a @ to_be16 port @ rest) t s" "wire_addr_ok a"
    and "room out = None"
  shows "if v \<noteq> 5 then read_command s out = (out, Err (BadVersion v))
    else if cmd = 3 then \<exists>s'. read_command s out = (out, Ok (UdpAssociate, s')) \<and> stream_of rest t s'
    else if cmd \<noteq> 1 then
      read_command s out = (out\<lparr>written := written out @ reply_msg 7\<rparr>, Err (BadCommand cmd))
    else
      case addr_target a port of
        Some tgt \<Rightarrow> \<exists>s'. read_command s out = (out, Ok (Connect tgt, s')) \<and> stream_of rest t s'
      | None \<Rightarrow> read_command s out = (out\<lparr>written := written out @ reply_msg 4\<rparr>, Err DomainNotUtf8)"
proof -
  obtain s1 where 1: "read_exact 4 s = Ok ([v, cmd, rsv, atyp_of a], s1)"
    "stream_of (addr_bytes a @ to_be16 port @ rest) t s1"
    using read_exact_append [OF assms(1), of 4] by auto
  have atyp: "atyp_of a = 1 \<or> atyp_of a = 3 \<or> atyp_of a = 4" by (cases a) auto
  obtain s2 where "skip_target s1 (atyp_of a) = Ok s2" "stream_of rest t s2"
    using skip_target_wire [OF 1(2) assms(2)] by blast
  with 1 atyp read_target_wire [OF 1(2) assms(2)] assms(3) show ?thesis
    by (auto simp: read_command_def reply_def CMD_CONNECT_def CMD_UDP_ASSOCIATE_def
        REP_CMD_NOT_SUPPORTED_def REP_HOST_UNREACHABLE_def split: option.splits)
qed

lemma udp_header_roundtrip:
  "decode_udp_header (encode_udp_header a @ payload) = Some (Addr a, length (encode_udp_header a))"
proof (cases a)
  case (SockAddr ip port)
  show ?thesis
  proof (cases ip)
    case (V4 a b c d)
    then show ?thesis
      by (simp add: SockAddr decode_udp_header_def encode_udp_header_def to_be16_def)
  next
    case (V6 a b c d e f g h)
    then have "slice (encode_udp_header (SockAddr ip port) @ payload) 4 20 = octets ip"
      by (simp add: encode_udp_header_def slice_def to_be16_def)
    moreover have "v6_of_octets (octets ip) = Some ip" by (intro ip_of_octets) (simp add: V6)
    ultimately show ?thesis
      using V6 by (simp add: SockAddr decode_udp_header_def encode_udp_header_def to_be16_def Let_def)
  qed
qed

lemma decode_udp_header_bound: "decode_udp_header buf = Some (tgt, n) \<Longrightarrow> 4 < n \<and> n \<le> length buf"
  by (auto simp: decode_udp_header_def Let_def split: if_splits option.splits)

text \<open>The source addresses of everything an association forwards, and where it answers.\<close>

definition assoc_addrs :: "assoc_output list \<Rightarrow> SocketAddr set" where
  "assoc_addrs out = (\<lambda>x. case x of Forward a t p \<Rightarrow> a | ToClient a b \<Rightarrow> a) ` set out"

lemma assoc_addrs_append [simp]: "assoc_addrs (xs @ ys) = assoc_addrs xs \<union> assoc_addrs ys"
  by (simp add: assoc_addrs_def image_Un)

lemma assoc_step_source:
  assumes "assoc_step peer ev st = (st', out)"
  shows "\<forall>a\<in>assoc_addrs out. (client_addr st = None \<longrightarrow> sa_ip a = sa_ip peer)
      \<and> (client_addr st \<noteq> None \<longrightarrow> client_addr st = Some a)"
    and "\<forall>s. st' = Some s \<longrightarrow> (if client_addr st \<noteq> None then client_addr s = client_addr st
      else if out = [] then client_addr s = None
      else (\<exists>a. client_addr s = Some a \<and> assoc_addrs out = {a}))"
  using assms
  by (auto simp: assoc_step_def assoc_addrs_def udp_source_allowed_def Let_def
      split: assoc_event.splits option.splits if_splits prod.splits)

lemma assoc_run_locked:
  assumes "assoc_run peer evs st = (st', out)" "client_addr st = Some a"
  shows "assoc_addrs out \<subseteq> {a}"
  using assms
proof (induction evs arbitrary: st st' out)
  case (Cons ev evs)
  obtain s1 o1 where 1: "assoc_step peer ev st = (s1, o1)" by force
  have o1: "assoc_addrs o1 \<subseteq> {a}" using assoc_step_source(1) [OF 1] Cons.prems(2) by auto
  show ?case
  proof (cases s1)
    case None
    with 1 Cons.prems o1 show ?thesis by simp
  next
    case (Some s)
    obtain s2 o2 where 2: "assoc_run peer evs s = (s2, o2)" by force
    have "client_addr s = Some a" using assoc_step_source(2) [OF 1] Some Cons.prems(2) by auto
    then have "assoc_addrs o2 \<subseteq> {a}" by (rule Cons.IH [OF 2])
    with 1 2 Some Cons.prems o1 show ?thesis by auto
  qed
qed (simp add: assoc_addrs_def)

lemma assoc_run_fresh:
  assumes "assoc_run peer evs st = (st', out)" "client_addr st = None"
  shows "\<exists>a. sa_ip a = sa_ip peer \<and> assoc_addrs out \<subseteq> {a}"
  using assms
proof (induction evs arbitrary: st st' out)
  case Nil
  then show ?case by (auto simp: assoc_addrs_def)
next
  case (Cons ev evs)
  obtain s1 o1 where 1: "assoc_step peer ev st = (s1, o1)" by force
  note src = assoc_step_source [OF 1]
  show ?case
  proof (cases s1)
    case None
    with 1 have "o1 = []" by (auto simp: assoc_step_def Let_def split: assoc_event.splits option.splits if_splits prod.splits)
    with 1 None Cons.prems show ?thesis by (auto simp: assoc_addrs_def)
  next
    case (Some s)
    obtain s2 o2 where 2: "assoc_run peer evs s = (s2, o2)" by force
    have out: "out = o1 @ o2" using 1 2 Some Cons.prems by simp
    show ?thesis
    proof (cases "o1 = []")
      case True
      then have "client_addr s = None" using src(2) Some Cons.prems(2) by auto
      with Cons.IH [OF 2] out True show ?thesis by simp
    next
      case False
      then obtain a where a: "client_addr s = Some a" "assoc_addrs o1 = {a}"
        using src(2) Some Cons.prems(2) by auto
      then have "sa_ip a = sa_ip peer" using src(1) Cons.prems(2) by auto
      with assoc_run_locked [OF 2 a(1)] a(2) out show ?thesis by auto
    qed
  qed
qed

lemma assoc_step_egress:
  assumes "assoc_step peer ev st = (Some st', out)" "egress_ok (egress st)"
  shows "egress_ok (egress st')"
  using assms egress_send_ok reply_dropped_ok background_step_ok egress_recv_ok [OF assms(2)]
  by (auto simp: assoc_step_def beside_loop_def Let_def
      split: assoc_event.splits option.splits if_splits prod.splits)

lemma assoc_run_egress:
  "assoc_run peer evs st = (Some st', out) \<Longrightarrow> egress_ok (egress st) \<Longrightarrow> egress_ok (egress st')"
proof (induction evs arbitrary: st out)
  case (Cons ev evs)
  then show ?case
    by (auto split: prod.splits option.splits dest: assoc_step_egress)
qed simp

text \<open>
  An association used by the examples below: a client that asks a name server, gets its answer, and
  sends again from another port.
\<close>

definition demo_assoc_events :: "assoc_event list" where
  "demo_assoc_events =
     [RelayPacket (SockAddr (V4 10 0 0 3) 40000) [0, 0, 0, 1, 192, 0, 2, 1, 0, 53, 9] False False,
      RelayPacket (SockAddr (V4 10 0 0 2) 40000) [0, 0, 0, 1, 192, 0, 2, 1, 0, 53, 7] False False,
      Meanwhile (Worker (Addr (SockAddr (V4 192 0 2 1) 53)) (SockAddr (V4 192 0 2 1) 53)
        [TakeNext, SendDone True, FromTarget (Inr [5, 6]), ReplyPassed]),
      RelayPacket (SockAddr (V4 10 0 0 2) 40001) [0, 0, 0, 1, 192, 0, 2, 1, 0, 53, 8] False False,
      EgressReply]"

definition demo_assoc_state :: assoc where
  "demo_assoc_state =
     \<lparr>client_addr = Some (SockAddr (V4 10 0 0 2) 40000),
      egress = \<lparr>routes = [(Addr (SockAddr (V4 192 0 2 1) 53), \<lparr>queued = [], sending = [], replying = [], closed = False\<rparr>)],
        reply_queue = [], in_hand = [\<lparr>reply_from = SockAddr (V4 192 0 2 1) 53, reply_payload = [5, 6]\<rparr>],
        free_bytes = 8388605, free_workers = 126, other_bytes = 1, other_workers = 1\<rparr>\<rparr>"

lemma demo_assoc_run:
  "assoc_run (SockAddr (V4 10 0 0 2) 9) demo_assoc_events \<lparr>client_addr = None, egress = egress_new 1 1\<rparr> =
     (Some demo_assoc_state,
      [Forward (SockAddr (V4 10 0 0 2) 40000) (Addr (SockAddr (V4 192 0 2 1) 53)) [7],
       ToClient (SockAddr (V4 10 0 0 2) 40000) [0, 0, 0, 1, 192, 0, 2, 1, 0, 53, 5, 6]])"
  by (simp add: demo_assoc_events_def demo_assoc_state_def egress_new_def assoc_step_def beside_loop_def udp_source_allowed_def
      decode_udp_header_def encode_udp_header_def from_be16_def to_be16_def Let_def egress_send_def prune_def hm_retain_def
      open_route_def MAX_UDP_TARGETS_PER_ASSOCIATION_def hm_insert_def hm_remove_def background_step_def egress_turn_def
      worker_take_def worker_sent_def worker_receive_def worker_passed_def idle_def egress_recv_def
      UDP_REPLY_CHANNEL_CAPACITY_def UDP_QUEUE_BYTES_def UDP_WORKERS_def)

section \<open>Properties\<close>

text \<open>
  C22: on any complete SOCKS5 conversation, in any chunks, the server answers and decides as
  RFC 1928 asks: \<^verbatim>\<open>05 FF\<close> without the no-authentication method, \<^verbatim>\<open>05 00\<close> otherwise; then an
  association request or a CONNECT target with its host, port and the unread rest of the
  stream; reply 7 for another command, reply 4 for a name that is not UTF-8.
\<close>

theorem socks5_request_outcome:
  assumes "stream_of ([5, of_nat (length ms)] @ ms @ [v, cmd, rsv, atyp_of a] @ addr_bytes a
      @ to_be16 port @ rest) t s"
    and "length ms < 256" "wire_addr_ok a"
  shows "if 0 \<notin> set ms then read_request s open_sink = (\<lparr>written = [5, 0xFF], room = None\<rparr>, Err NoAcceptableMethod)
    else if v \<noteq> 5 then read_request s open_sink = (\<lparr>written = [5, 0], room = None\<rparr>, Err (BadVersion v))
    else if cmd = 3 then \<exists>s'. read_request s open_sink = (\<lparr>written = [5, 0], room = None\<rparr>, Ok (UdpAssociate, s'))
      \<and> stream_of rest t s'
    else if cmd \<noteq> 1 then
      read_request s open_sink = (\<lparr>written = [5, 0] @ reply_msg 7, room = None\<rparr>, Err (BadCommand cmd))
    else
      case addr_target a port of
        Some tgt \<Rightarrow> \<exists>s'. read_request s open_sink = (\<lparr>written = [5, 0], room = None\<rparr>, Ok (Connect tgt, s'))
          \<and> stream_of rest t s'
      | None \<Rightarrow> read_request s open_sink = (\<lparr>written = [5, 0] @ reply_msg 4, room = None\<rparr>, Err DomainNotUtf8)"
proof -
  let ?cmd = "[v, cmd, rsv, atyp_of a] @ addr_bytes a @ to_be16 port @ rest"
  obtain s1 where 1: "read_exact 2 s = Ok ([5, of_nat (length ms)], s1)" "stream_of (ms @ ?cmd) t s1"
    using read_exact_append [OF assms(1), of 2] by auto
  obtain s2 where 2: "read_exact (length ms) s1 = Ok (ms, s2)" "stream_of ?cmd t s2"
    using read_exact_append [OF 1(2)] by auto
  note cmd = read_command_wire [OF 2(2) assms(3), of "\<lparr>written = [5, 0], room = None\<rparr>"]
  have "read_request s open_sink =
      (if 0 \<notin> set ms then (\<lparr>written = [5, 0xFF], room = None\<rparr>, Err NoAcceptableMethod)
       else read_command s2 \<lparr>written = [5, 0], room = None\<rparr>)"
    using 1(1) 2(1) unat_len_byte [OF assms(2)] by (simp add: read_request_def open_sink_def)
  then show ?thesis using cmd by (auto split: option.splits if_splits)
qed

theorem socks5_request_outcome_witness:
  "\<exists>s'. read_request \<lparr>chunks = [[5, 2, 1], [0, 5, 1, 0, 1, 192], [0, 2, 1, 0, 80, 71]], tail_err = None\<rparr> open_sink =
      (\<lparr>written = [5, 0], room = None\<rparr>,
       Ok (Connect \<lparr>target_host = Ip (V4 192 0 2 1), target_port = 80,
         target_display = show_ip (V4 192 0 2 1) @ '':'' @ show_u16 80\<rparr>, s'))
    \<and> stream_of [71] None s'"
  using socks5_request_outcome [of "[1, 0]" 5 1 0 "WireIp (V4 192 0 2 1)" 80 "[71]" None
      "\<lparr>chunks = [[5, 2, 1], [0, 5, 1, 0, 1, 192], [0, 2, 1, 0, 80, 71]], tail_err = None\<rparr>"]
  by (simp add: stream_of_def content_def to_be16_def wire_addr_ok_def)

text \<open>
  The header put before a datagram for the client is read back as the same address with
  the payload behind it, and no header is ever accepted that is longer than its datagram or that
  announces a fragment.
\<close>

lemma udp_header_codec:
  "decode_udp_header (encode_udp_header a @ payload) = Some (Addr a, length (encode_udp_header a))
   \<and> (\<forall>buf. (case decode_udp_header buf of None \<Rightarrow> True
        | Some (tgt, n) \<Rightarrow> 4 < n \<and> n \<le> length buf \<and> buf ! 2 = 0))"
proof -
  have "buf ! 2 = 0" if "decode_udp_header buf = Some (tgt, n)" for buf tgt n
    using that by (simp add: decode_udp_header_def split: if_splits)
  then show ?thesis
    using udp_header_roundtrip decode_udp_header_bound by (auto split: option.splits)
qed

text \<open>
  C33: over any sequence of events, a UDP association forwards datagrams of one single source
  address only, which has the IP address of the control connection, and sends what comes back
  to that address only.
\<close>

theorem udp_association_single_client:
  assumes "assoc_run peer evs \<lparr>client_addr = None, egress = e\<rparr> = (st', out)"
  shows "\<exists>a. sa_ip a = sa_ip peer \<and>
    (\<forall>x\<in>set out. case x of Forward src tgt p \<Rightarrow> src = a | ToClient dst d \<Rightarrow> dst = a)"
proof -
  obtain a where a: "sa_ip a = sa_ip peer" "assoc_addrs out \<subseteq> {a}"
    using assoc_run_fresh [OF assms] by auto
  then have "case x of Forward src tgt p \<Rightarrow> src = a | ToClient dst d \<Rightarrow> dst = a" if "x \<in> set out" for x
    using that by (cases x) (force simp: assoc_addrs_def)+
  with a(1) show ?thesis by blast
qed

theorem udp_association_single_client_witness:
  "assoc_run (SockAddr (V4 10 0 0 2) 9) demo_assoc_events \<lparr>client_addr = None, egress = egress_new 1 1\<rparr> =
     (Some demo_assoc_state,
      [Forward (SockAddr (V4 10 0 0 2) 40000) (Addr (SockAddr (V4 192 0 2 1) 53)) [7],
       ToClient (SockAddr (V4 10 0 0 2) 40000) [0, 0, 0, 1, 192, 0, 2, 1, 0, 53, 5, 6]])
   \<and> (\<exists>a. sa_ip a = sa_ip (SockAddr (V4 10 0 0 2) 9) \<and>
        list_all (\<lambda>x. case x of Forward src tgt p \<Rightarrow> src = a | ToClient dst d \<Rightarrow> dst = a)
          (snd (assoc_run (SockAddr (V4 10 0 0 2) 9) demo_assoc_events \<lparr>client_addr = None, egress = egress_new 1 1\<rparr>)))"
  using udp_association_single_client [OF demo_assoc_run] demo_assoc_run by (simp add: list_all_iff)

text \<open>
  C34: however a UDP association is used, in any interleaving of its loop with its workers and with
  the other associations, it has at most 64 targets, each with at most 32 queued datagrams and one
  more datagram or answer in its worker's hands, and at most 64 answers waiting; and the bytes of
  all of these, the free byte permits and those of the other associations add up to 8 MiB exactly,
  as live workers do to 128.  Tearing it down gives everything back.
\<close>

theorem udp_egress_bounded:
  assumes "assoc_run peer evs \<lparr>client_addr = None, egress = egress_new others_b others_w\<rparr> = (Some st, out)"
    and "others_b \<le> 8 * 1024 * 1024" "others_w \<le> 128"
  defines "e \<equiv> egress st"
  shows "length (routes e) \<le> 64
    \<and> (\<forall>(target, ch) \<in> set (routes e). length (queued ch) \<le> 32 \<and> length (sending ch) + length (replying ch) \<le> 1)
    \<and> length (reply_queue e) \<le> 64 \<and> length (in_hand e) \<le> 1
    \<and> hm_sum chan_bytes (routes e) + reply_bytes (reply_queue e @ in_hand e) + free_bytes e + other_bytes e = 8 * 1024 * 1024
    \<and> hm_sum chan_worker (routes e) + free_workers e + other_workers e = 128
    \<and> free_bytes (egress_drop e) + other_bytes e = 8 * 1024 * 1024
    \<and> free_workers (egress_drop e) + other_workers e = 128"
proof -
  have "egress_ok (egress_new others_b others_w)"
    using assms(2,3) by (intro egress_new_ok) (simp_all add: UDP_QUEUE_BYTES_def UDP_WORKERS_def)
  then have "egress_ok e" using assoc_run_egress [OF assms(1)] by (simp add: e_def)
  then show ?thesis
    by (auto simp: egress_ok_def egress_drop_def chan_ok_def UDP_QUEUE_BYTES_def UDP_WORKERS_def)
qed

theorem udp_egress_bounded_witness:
  "assoc_run (SockAddr (V4 10 0 0 2) 9) demo_assoc_events \<lparr>client_addr = None, egress = egress_new 1 1\<rparr> =
     (Some demo_assoc_state,
      [Forward (SockAddr (V4 10 0 0 2) 40000) (Addr (SockAddr (V4 192 0 2 1) 53)) [7],
       ToClient (SockAddr (V4 10 0 0 2) 40000) [0, 0, 0, 1, 192, 0, 2, 1, 0, 53, 5, 6]])
   \<and> hm_sum chan_bytes (routes (egress demo_assoc_state))
       + reply_bytes (reply_queue (egress demo_assoc_state) @ in_hand (egress demo_assoc_state))
       + free_bytes (egress demo_assoc_state) + other_bytes (egress demo_assoc_state) = 8 * 1024 * 1024"
  using udp_egress_bounded [OF demo_assoc_run] demo_assoc_run by simp

end
