(* ===== verification/Socks4.thy ===== *)
theory Socks4
  imports Socks5
begin

text \<open>
  \<^verbatim>\<open>socks4.rs\<close>: the SOCKS4 and SOCKS4a CONNECT handler.
\<close>

section \<open>The handler\<close>

definition GRANTED :: u8 where "GRANTED = 0x5a"
definition REJECTED :: u8 where "REJECTED = 0x5b"
definition SOCKS4A_SENTINEL :: bytes where "SOCKS4A_SENTINEL = [0, 0, 0, 1]"
definition MAX_USERID_LEN :: nat where "MAX_USERID_LEN = 1024"
definition MAX_DOMAIN_LEN :: nat where "MAX_DOMAIN_LEN = 253"

datatype Socks4Error = S4Io IoErr | StringTooLong nat | S4BadCommand u8 | S4ConnectFailed string IoErr

text \<open>The loop of \<^verbatim>\<open>read_cstring\<close>; \<open>left\<close> is how many bytes the buffer may still take.\<close>

fun read_cstring_loop :: "nat \<Rightarrow> nat \<Rightarrow> rstream \<Rightarrow> (Socks4Error, bytes \<times> rstream) result" where
  "read_cstring_loop max_len 0 client =
     rbind (rmap_err S4Io (read_u8 client)) (\<lambda>(b, client).
       if b = 0 then Ok ([], client) else Err (StringTooLong max_len))"
| "read_cstring_loop max_len (Suc left) client =
     rbind (rmap_err S4Io (read_u8 client)) (\<lambda>(b, client).
       if b = 0 then Ok ([], client)
       else rbind (read_cstring_loop max_len left client) (\<lambda>(buf, client). Ok (b # buf, client)))"

definition read_cstring :: "rstream \<Rightarrow> nat \<Rightarrow> (Socks4Error, string \<times> rstream) result" where
  "read_cstring client max_len =
     rbind (read_cstring_loop max_len max_len client) (\<lambda>(buf, client). Ok (from_utf8_lossy buf, client))"

definition reply4 :: "u8 \<Rightarrow> wsink \<Rightarrow> wsink \<times> (Socks4Error, unit) result" where
  "reply4 code out =
     (let (out, r) = write_all [0x00, code, 0, 0, 0, 0, 0, 0] out in (out, rmap_err S4Io r))"

text \<open>What follows the command byte: port, address, user name, and the name of SOCKS4a.\<close>

definition read_target4 :: "rstream \<Rightarrow> (Socks4Error, Target \<times> rstream) result" where
  "read_target4 client =
     rbind (rmap_err S4Io (read_exact 2 client)) (\<lambda>(port_buf, client).
     rbind (rmap_err S4Io (read_exact 4 client)) (\<lambda>(ip_buf, client).
     rbind (read_cstring client MAX_USERID_LEN) (\<lambda>(_, client).
       let port = be16_of port_buf in
       if ip_buf = SOCKS4A_SENTINEL then
         rbind (read_cstring client MAX_DOMAIN_LEN) (\<lambda>(name, client).
           Ok (\<lparr>target_host = parse_host name, target_port = port,
                target_display = name @ '':'' @ show_u16 port\<rparr>, client))
       else
         let ip = V4 (ip_buf ! 0) (ip_buf ! 1) (ip_buf ! 2) (ip_buf ! 3) in
         Ok (\<lparr>target_host = Ip ip, target_port = port,
              target_display = show_ip ip @ '':'' @ show_u16 port\<rparr>, client))))"

definition read_request4 :: "rstream \<Rightarrow> wsink \<Rightarrow> wsink \<times> (Socks4Error, Target \<times> rstream) result" where
  "read_request4 client out =
     (case rbind (read_u8 client) (\<lambda>(_, client). read_u8 client) of
        Inl e \<Rightarrow> (out, Err (S4Io e))
      | Inr (cmd, client) \<Rightarrow>
          if cmd \<noteq> CMD_CONNECT then (fst (reply4 REJECTED out), Err (S4BadCommand cmd))
          else (out, read_target4 client))"

text \<open>\<^verbatim>\<open>handle_client\<close> up to the relay: the connection and the unread rest of the client's bytes.\<close>

definition handle_client4 ::
  "Outbound \<Rightarrow> rstream \<Rightarrow> wsink \<Rightarrow> wsink \<times> (Socks4Error, Connected \<times> rstream) result" where
  "handle_client4 outbound client out =
     (case read_request4 client out of
        (out, Inl e) \<Rightarrow> (out, Err e)
      | (out, Inr (target, client)) \<Rightarrow>
          (case relay_connect outbound (target_host target) (target_port target) of
             Inl e \<Rightarrow> (fst (reply4 REJECTED out), Err (S4ConnectFailed (target_display target) e))
           | Inr conn \<Rightarrow>
               (case reply4 GRANTED out of
                  (out, Inl e) \<Rightarrow> (out, Err e)
                | (out, Inr _) \<Rightarrow> (out, Ok (conn, client)))))"

section \<open>Terminated strings\<close>

lemma read_cstring_loop_wire:
  assumes "stream_of (bs @ 0 # w) t s" "0 \<notin> set bs" "length bs \<le> left"
  shows "\<exists>s'. read_cstring_loop mx left s = Ok (bs, s') \<and> stream_of w t s'"
  using assms
proof (induction mx left s arbitrary: bs rule: read_cstring_loop.induct)
  case (1 mx s)
  then show ?case using read_u8_Cons [of 0 w t s] by auto
next
  case (2 mx left s)
  show ?case
  proof (cases bs)
    case Nil
    then show ?thesis using 2(2) read_u8_Cons [of 0 w t s] by auto
  next
    case (Cons b bs')
    then obtain s1 where s1: "read_u8 s = Ok (b, s1)" "stream_of (bs' @ 0 # w) t s1"
      using 2(2) read_u8_Cons by fastforce
    then have "\<exists>s'. read_cstring_loop mx left s1 = Ok (bs', s') \<and> stream_of w t s'"
      using 2(1) [of "(b, s1)" b s1 bs'] 2(3,4) Cons by auto
    then show ?thesis using s1 2(3) Cons by auto
  qed
qed

lemma read_cstring_loop_long:
  assumes "stream_of (bs @ w) t s" "0 \<notin> set bs" "left < length bs"
  shows "read_cstring_loop mx left s = Err (StringTooLong mx)"
  using assms
proof (induction mx left s arbitrary: bs rule: read_cstring_loop.induct)
  case (1 mx s)
  then obtain b bs' where "bs = b # bs'" by (cases bs) auto
  then show ?case using 1 read_u8_Cons [of b "bs' @ w" t s] by auto
next
  case (2 mx left s)
  then obtain b bs' where bs: "bs = b # bs'" by (cases bs) auto
  then obtain s1 where s1: "read_u8 s = Ok (b, s1)" "stream_of (bs' @ w) t s1"
    using 2(2) read_u8_Cons by fastforce
  then have "read_cstring_loop mx left s1 = Err (StringTooLong mx)"
    using 2(1) [of "(b, s1)" b s1 bs'] 2(3,4) bs by auto
  then show ?case using s1 2(3) bs by auto
qed

lemma read_cstring_wire:
  assumes "stream_of (bs @ 0 # w) t s" "0 \<notin> set bs"
  shows "if length bs \<le> mx then \<exists>s'. read_cstring s mx = Ok (from_utf8_lossy bs, s') \<and> stream_of w t s'
    else read_cstring s mx = Err (StringTooLong mx)"
  using read_cstring_loop_wire [OF assms, of mx mx] read_cstring_loop_long [of bs "0 # w" t s mx mx] assms
  by (auto simp: read_cstring_def)

section \<open>Requests on the wire\<close>

text \<open>What a request asks for: \<open>name\<close> is there for the marker address 0.0.0.1 only.\<close>

definition target4 :: "u16 \<Rightarrow> u8 \<Rightarrow> u8 \<Rightarrow> u8 \<Rightarrow> u8 \<Rightarrow> bytes \<Rightarrow> Target" where
  "target4 port a b c d name =
     (if [a, b, c, d] = SOCKS4A_SENTINEL then
        \<lparr>target_host = parse_host (from_utf8_lossy name), target_port = port,
         target_display = from_utf8_lossy name @ '':'' @ show_u16 port\<rparr>
      else
        \<lparr>target_host = Ip (V4 a b c d), target_port = port,
         target_display = show_ip (V4 a b c d) @ '':'' @ show_u16 port\<rparr>)"

definition name4 :: "u8 \<Rightarrow> u8 \<Rightarrow> u8 \<Rightarrow> u8 \<Rightarrow> bytes \<Rightarrow> bytes" where
  "name4 a b c d name = (if [a, b, c, d] = SOCKS4A_SENTINEL then name @ [0] else [])"

lemma read_target4_wire:
  assumes "stream_of (to_be16 port @ [a, b, c, d] @ user @ [0] @ name4 a b c d name @ rest) t s"
    and "0 \<notin> set user" "0 \<notin> set name" "length user \<le> 1024"
  shows "if [a, b, c, d] = SOCKS4A_SENTINEL \<and> 253 < length name
    then read_target4 s = Err (StringTooLong 253)
    else \<exists>s'. read_target4 s = Ok (target4 port a b c d name, s') \<and> stream_of rest t s'"
proof -
  obtain s1 where 1: "read_exact 2 s = Ok (to_be16 port, s1)"
    "stream_of ([a, b, c, d] @ user @ [0] @ name4 a b c d name @ rest) t s1"
    using read_exact_append [OF assms(1)] by auto
  obtain s2 where 2: "read_exact 4 s1 = Ok ([a, b, c, d], s2)"
    "stream_of (user @ 0 # name4 a b c d name @ rest) t s2"
    using read_exact_append [OF 1(2), of 4] by auto
  obtain u s3 where 3: "read_cstring s2 1024 = Ok (u, s3)" "stream_of (name4 a b c d name @ rest) t s3"
    using read_cstring_wire [OF 2(2) assms(2), of 1024] assms(4) by auto
  show ?thesis
  proof (cases "[a, b, c, d] = SOCKS4A_SENTINEL")
    case True
    then have "stream_of (name @ 0 # rest) t s3" using 3(2) by (simp add: name4_def)
    from read_cstring_wire [OF this assms(3), of 253] True 1 2 3 show ?thesis
      by (auto simp: read_target4_def target4_def MAX_USERID_LEN_def MAX_DOMAIN_LEN_def Let_def)
  next
    case False
    with 1 2 3 show ?thesis
      by (auto simp: read_target4_def target4_def name4_def MAX_USERID_LEN_def Let_def)
  qed
qed

section \<open>Property\<close>

text \<open>
  C35: on any SOCKS4 or SOCKS4a request, in any chunks, with a terminated user name of at most
  1024 bytes, the server rejects (0x5b) every command but CONNECT and every failed connection,
  refuses a SOCKS4a name of more than 253 bytes without a reply, and otherwise grants (0x5a) a
  connection to the address or name asked for, with exactly the bytes after the request left to relay.
\<close>

theorem socks4_outcome:
  assumes "stream_of ([4, cmd] @ to_be16 port @ [a, b, c, d] @ user @ [0] @ name4 a b c d name @ rest) t s"
    and "0 \<notin> set user" "0 \<notin> set name" "length user \<le> 1024"
  shows "if cmd \<noteq> 1 then
      handle_client4 outbound s open_sink
        = (\<lparr>written = [0, 0x5b, 0, 0, 0, 0, 0, 0], room = None\<rparr>, Err (S4BadCommand cmd))
    else if [a, b, c, d] = [0, 0, 0, 1] \<and> 253 < length name then
      handle_client4 outbound s open_sink = (open_sink, Err (StringTooLong 253))
    else
      case connect_tcp outbound (target_host (target4 port a b c d name)) port of
        Inl e \<Rightarrow> handle_client4 outbound s open_sink
          = (\<lparr>written = [0, 0x5b, 0, 0, 0, 0, 0, 0], room = None\<rparr>,
             Err (S4ConnectFailed (target_display (target4 port a b c d name)) e))
      | Inr conn \<Rightarrow> \<exists>s'. handle_client4 outbound s open_sink
          = (\<lparr>written = [0, 0x5a, 0, 0, 0, 0, 0, 0], room = None\<rparr>, Ok (conn, s')) \<and> stream_of rest t s'"
proof -
  let ?w = "to_be16 port @ [a, b, c, d] @ user @ [0] @ name4 a b c d name @ rest"
  obtain s1 where 1: "read_u8 s = Ok (4, s1)" "stream_of (cmd # ?w) t s1"
    using read_u8_Cons [of 4 "cmd # ?w" t s] assms(1) by auto
  obtain s2 where 2: "read_u8 s1 = Ok (cmd, s2)" "stream_of ?w t s2"
    using read_u8_Cons [OF 1(2)] by auto
  have port: "target_port (target4 port a b c d name) = port" by (simp add: target4_def)
  note target = read_target4_wire [OF 2(2) assms(2-4)]
  have "read_request4 s open_sink =
    (if cmd \<noteq> 1 then (\<lparr>written = [0, 0x5b, 0, 0, 0, 0, 0, 0], room = None\<rparr>, Err (S4BadCommand cmd))
     else (open_sink, read_target4 s2))"
    using 1(1) 2(1) by (simp add: read_request4_def reply4_def CMD_CONNECT_def REJECTED_def open_sink_def)
  then show ?thesis
    using target port
    by (auto simp: handle_client4_def SOCKS4A_SENTINEL_def relay_connect_def reply4_def GRANTED_def
        REJECTED_def open_sink_def split: sum.splits)
qed

theorem socks4_outcome_witness:
  "\<exists>s'. handle_client4 \<lparr>out_name = ''test'', supports_udp = False,
        connect_tcp = (\<lambda>h p. Ok \<lparr>conn_stream = \<lparr>chunks = [], tail_err = None\<rparr>, conn_note = None\<rparr>)\<rparr>
      \<lparr>chunks = [[4, 1, 0], [80, 192, 0, 2, 1, 117], [0, 71]], tail_err = None\<rparr> open_sink
    = (\<lparr>written = [0, 0x5a, 0, 0, 0, 0, 0, 0], room = None\<rparr>,
       Ok (\<lparr>conn_stream = \<lparr>chunks = [], tail_err = None\<rparr>, conn_note = None\<rparr>, s'))
    \<and> stream_of [71] None s'"
  using socks4_outcome [of 1 80 192 0 2 1 "[117]" "[]" "[71]" None
      "\<lparr>chunks = [[4, 1, 0], [80, 192, 0, 2, 1, 117], [0, 71]], tail_err = None\<rparr>"
      "\<lparr>out_name = ''test'', supports_udp = False,
        connect_tcp = (\<lambda>h p. Ok \<lparr>conn_stream = \<lparr>chunks = [], tail_err = None\<rparr>, conn_note = None\<rparr>)\<rparr>"]
  by (simp add: stream_of_def content_def to_be16_def name4_def SOCKS4A_SENTINEL_def)

end
