(* ===== verification/Bounded_Fifo.thy ===== *)
theory Bounded_Fifo
  imports Main "HOL-Library.Sublist"
begin

text \<open>
  The contract of every bounded packet queue of the program: a push is appended while there is
  room and lost otherwise, a pop removes the oldest item.  The queues that keep it are the sending
  queue of the network stack's device and the pending packets of the WireGuard tunnel; each
  interprets \<open>bounded_fifo\<close> on its own operations.
\<close>

datatype 'p fifo_op = Push 'p | Pop

fun pushes :: "'p fifo_op list \<Rightarrow> 'p list" where
  "pushes [] = []"
| "pushes (Push p # ops) = p # pushes ops"
| "pushes (Pop # ops) = pushes ops"

fun fifo_run :: "('p \<Rightarrow> 's \<Rightarrow> 's) \<Rightarrow> ('s \<Rightarrow> ('p \<times> 's) option) \<Rightarrow> 'p fifo_op list \<Rightarrow> 's \<Rightarrow> 'p list \<times> 's" where
  "fifo_run push pop [] s = ([], s)"
| "fifo_run push pop (Push p # ops) s = fifo_run push pop ops (push p s)"
| "fifo_run push pop (Pop # ops) s =
     (case pop s of
        None \<Rightarrow> fifo_run push pop ops s
      | Some (p, s) \<Rightarrow> let (out, s) = fifo_run push pop ops s in (p # out, s))"

locale bounded_fifo =
  fixes invar :: "'s \<Rightarrow> bool"
    and items :: "'s \<Rightarrow> 'p list"
    and cap :: "'s \<Rightarrow> nat"
    and push :: "'p \<Rightarrow> 's \<Rightarrow> 's"
    and pop :: "'s \<Rightarrow> ('p \<times> 's) option"
  assumes items_push: "invar s \<Longrightarrow> items (push p s) = (if length (items s) < cap s then items s @ [p] else items s)"
    and invar_push: "invar s \<Longrightarrow> invar (push p s) \<and> cap (push p s) = cap s"
    and items_pop: "invar s \<Longrightarrow> items s = x # xs \<Longrightarrow>
      \<exists>s'. pop s = Some (x, s') \<and> items s' = xs \<and> invar s' \<and> cap s' = cap s"
    and pop_empty: "invar s \<Longrightarrow> items s = [] \<Longrightarrow> pop s = None"
    and items_cap: "invar s \<Longrightarrow> length (items s) \<le> cap s"
begin

lemma pop_Some:
  assumes "invar s" "pop s = Some (x, s')"
  shows "items s = x # items s' \<and> invar s' \<and> cap s' = cap s"
  using assms items_pop pop_empty by (cases "items s") fastforce+

text \<open>What has left and what is queued is what was pushed, in order, less what was lost.\<close>

lemma push_subseq:
  assumes "invar s" "subseq (out @ items s) ps"
  shows "subseq (out @ items (push p s)) (ps @ [p])"
  using assms list_emb_append_mono [OF assms(2), of "[p]" "[p]"] items_push [OF assms(1), of p]
  by (auto intro: subseq_rev_drop_many)

lemma pop_keeps:
  assumes "invar s" "pop s = Some (x, s')"
  shows "(out @ [x]) @ items s' = out @ items s"
  using pop_Some [OF assms] by simp

lemma push_fits:
  assumes "invar s" "length (items s) < cap s"
  shows "out @ items (push p s) = (out @ items s) @ [p]"
  using items_push [OF assms(1), of p] assms(2) by simp

lemma run_fifo:
  assumes "invar s" "fifo_run push pop ops s = (out, s')"
  shows "invar s' \<and> cap s' = cap s \<and> length (items s') \<le> cap s
    \<and> subseq (out @ items s') (items s @ pushes ops)"
  using assms
proof (induction ops arbitrary: s out)
  case Nil
  then show ?case using items_cap by simp
next
  case (Cons op ops)
  show ?case
  proof (cases op)
    case (Push p)
    have "subseq (items (push p s)) (items s @ [p])"
      using push_subseq [OF Cons.prems(1), of "[]" "items s" p] by simp
    then have "subseq (items (push p s) @ pushes ops) ((items s @ [p]) @ pushes ops)"
      by (intro list_emb_append_mono) simp_all
    then show ?thesis
      using Cons.IH [of "push p s" out] Cons.prems invar_push [OF Cons.prems(1), of p] Push
      by (auto elim: subseq_order.order_trans)
  next
    case Pop
    then show ?thesis
      using Cons.IH Cons.prems pop_Some [OF Cons.prems(1)]
      by (fastforce split: option.splits prod.splits)
  qed
qed

lemma run_exact:
  assumes "invar s" "fifo_run push pop ops s = (out, s')" "length (items s) + length (pushes ops) \<le> cap s"
  shows "out @ items s' = items s @ pushes ops"
  using assms
proof (induction ops arbitrary: s out)
  case (Cons op ops)
  show ?case
  proof (cases op)
    case (Push p)
    then show ?thesis
      using Cons.IH [of "push p s" out] Cons.prems invar_push [OF Cons.prems(1), of p]
        items_push [OF Cons.prems(1), of p] by simp
  next
    case Pop
    then show ?thesis
      using Cons.IH Cons.prems pop_Some [OF Cons.prems(1)]
      by (fastforce split: option.splits prod.splits)
  qed
qed simp

end

end
