(* ===== verification/Dataplane.thy ===== *)
theory Dataplane
  imports Rust_Std
begin

text \<open>
  \<^verbatim>\<open>dataplane.rs\<close>: the counters of the WireGuard data plane and their periodic report.  The
  64-bit atomic counters are words that wrap around; those of one kind (plain event counters) are
  a function from their names.  The library's packet views are the record \<open>wire_lib\<close>, clock
  readings and the content of the cgroup file are arguments.
\<close>

section \<open>Counters\<close>

datatype Direction = Rx | Tx
datatype DecapOutcome = Done | WriteToNetwork | WriteToTunnelV4 | WriteToTunnelV6 | Error
datatype ReactorWake = Device | Notify | Timer

datatype obs_counter =
    outer_rx_packets | outer_rx_bytes | outer_tx_packets | outer_tx_bytes | outer_tx_dropped
  | device_tx_dropped | decap_done | decap_write_network | decap_v4 | decap_v6 | decap_errors
  | plain_rx_packets | plain_rx_bytes | plain_tx_packets | plain_tx_bytes
  | reactor_loops | reactor_wake_calls | reactor_waits | reactor_device_wakes
  | reactor_notify_wakes | reactor_timer_wakes | reactor_polls

record TcpDirectionCounters =
  dir_packets :: u64
  payload_bytes :: u64
  ack_packets :: u64
  ack_only_packets :: u64
  last_at_ms :: u64
  last_ports :: u64
  last_seq :: u64
  last_ack :: u64
  last_flags :: u64
  last_payload_len :: u64

definition default_TcpDirectionCounters :: TcpDirectionCounters where
  "default_TcpDirectionCounters = \<lparr>dir_packets = 0, payload_bytes = 0, ack_packets = 0, ack_only_packets = 0,
     last_at_ms = 0, last_ports = 0, last_seq = 0, last_ack = 0, last_flags = 0, last_payload_len = 0\<rparr>"

record BulkFlowCounters =
  bulk_ports :: u64
  rx_at_ms :: u64
  rx_seq :: u64
  rx_ack :: u64
  rx_payload_len :: u64
  ack_at_ms :: u64
  ack_seq :: u64
  ack_ack :: u64

definition default_BulkFlowCounters :: BulkFlowCounters where
  "default_BulkFlowCounters = \<lparr>bulk_ports = 0, rx_at_ms = 0, rx_seq = 0, rx_ack = 0, rx_payload_len = 0,
     ack_at_ms = 0, ack_seq = 0, ack_ack = 0\<rparr>"

record ObserverInner =
  counts :: "obs_counter \<Rightarrow> u64"
  tcp_rx :: TcpDirectionCounters
  tcp_tx :: TcpDirectionCounters
  bulk_flow :: BulkFlowCounters
  outer_backlog_current :: u64
  outer_backlog_peak :: u64
  device_rx_backlog :: u64
  device_tx_backlog :: u64
  device_rx_backlog_peak :: u64
  device_tx_backlog_peak :: u64
  reactor_last_progress_ms :: u64
  reactor_max_gap_ms :: u64

definition observer_new :: ObserverInner where
  "observer_new = \<lparr>counts = (\<lambda>_. 0), tcp_rx = default_TcpDirectionCounters,
     tcp_tx = default_TcpDirectionCounters, bulk_flow = default_BulkFlowCounters,
     outer_backlog_current = 0, outer_backlog_peak = 0, device_rx_backlog = 0, device_tx_backlog = 0,
     device_rx_backlog_peak = 0, device_tx_backlog_peak = 0, reactor_last_progress_ms = 0,
     reactor_max_gap_ms = 0\<rparr>"

definition add_counter :: "obs_counter \<Rightarrow> nat \<Rightarrow> ObserverInner \<Rightarrow> ObserverInner" where
  "add_counter c n ob = ob\<lparr>counts := (counts ob)(c := counts ob c + of_nat n)\<rparr>"

section \<open>TCP headers\<close>

record TcpPacket =
  src_port :: u16
  dst_port :: u16
  seq_number :: u32
  ack_number :: u32
  fin :: bool
  syn :: bool
  rst :: bool
  psh :: bool
  ack :: bool
  urg :: bool
  ece :: bool
  cwr :: bool
  tcp_payload :: bytes

text \<open>The checked packet views of the library: fragment offset, next header and payload.\<close>

record wire_lib =
  ipv4_view :: "bytes \<Rightarrow> (u16 \<times> u8 \<times> bytes) option"
  ipv6_view :: "bytes \<Rightarrow> (u8 \<times> bytes) option"
  tcp_view :: "bytes \<Rightarrow> TcpPacket option"

definition tcp_packet :: "wire_lib \<Rightarrow> bytes \<Rightarrow> TcpPacket option" where
  "tcp_packet w packet =
     (case packet of
        [] \<Rightarrow> None
      | byte # _ \<Rightarrow>
          if drop_bit 4 byte = 4 then
            (case ipv4_view w packet of
               None \<Rightarrow> None
             | Some (frag_offset, next_header, payload) \<Rightarrow>
                 if frag_offset = 0 \<and> next_header = 6 then tcp_view w payload else None)
          else if drop_bit 4 byte = 6 then
            (case ipv6_view w packet of
               None \<Rightarrow> None
             | Some (next_header, payload) \<Rightarrow> if next_header = 6 then tcp_view w payload else None)
          else None)"

definition tcp_flags :: "TcpPacket \<Rightarrow> u64" where
  "tcp_flags p =
     of_bool (fin p) OR push_bit 1 (of_bool (syn p)) OR push_bit 2 (of_bool (rst p))
     OR push_bit 3 (of_bool (psh p)) OR push_bit 4 (of_bool (ack p)) OR push_bit 5 (of_bool (urg p))
     OR push_bit 6 (of_bool (ece p)) OR push_bit 7 (of_bool (cwr p))"

definition format_tcp_flags :: "u64 \<Rightarrow> string" where
  "format_tcp_flags flags =
     (let names = [(0, ''F''), (1, ''S''), (2, ''R''), (3, ''P''), (4, ''A''), (5, ''U''), (6, ''E''), (7, ''C'')];
          v = concat (map snd (filter (\<lambda>(bit, _). flags AND push_bit bit 1 \<noteq> 0) names))
      in if v = [] then ''-'' else v)"

definition port_pair :: "TcpPacket \<Rightarrow> u64" where
  "port_pair p = push_bit 16 (ucast (src_port p)) OR ucast (dst_port p)"

definition tcp_record :: "u64 \<Rightarrow> TcpPacket \<Rightarrow> TcpDirectionCounters \<Rightarrow> TcpDirectionCounters" where
  "tcp_record now_ms p c =
     (let len = length (tcp_payload p);
          c = c\<lparr>dir_packets := dir_packets c + 1, payload_bytes := payload_bytes c + of_nat len\<rparr>;
          c = (if ack p then
                 let c = c\<lparr>ack_packets := ack_packets c + 1\<rparr> in
                 if len = 0 \<and> \<not> syn p \<and> \<not> fin p \<and> \<not> rst p
                 then c\<lparr>ack_only_packets := ack_only_packets c + 1\<rparr> else c
               else c)
      in c\<lparr>last_at_ms := saturating_add now_ms 1, last_ports := port_pair p,
           last_seq := ucast (seq_number p), last_ack := ucast (ack_number p),
           last_flags := tcp_flags p, last_payload_len := of_nat len\<rparr>)"

definition show_u64 :: "u64 \<Rightarrow> string" where
  "show_u64 w = show_nat (unat w)"

definition show_low32 :: "u64 \<Rightarrow> string" where
  "show_low32 w = show_nat (unat (ucast w :: u32))"

definition last_packet :: "u64 \<Rightarrow> TcpDirectionCounters \<Rightarrow> string" where
  "last_packet now_ms c =
     (if last_at_ms c = 0 then ''none''
      else
        show_u64 (drop_bit 16 (last_ports c)) @ ''>'' @ show_u64 (last_ports c AND 0xffff)
        @ '',seq:'' @ show_low32 (last_seq c) @ '',ack:'' @ show_low32 (last_ack c)
        @ '',flags:'' @ format_tcp_flags (last_flags c)
        @ '',payload:'' @ show_u64 (last_payload_len c)
        @ '',age_ms:'' @ show_u64 (saturating_sub now_ms (saturating_sub (last_at_ms c) 1)))"

definition bulk_record :: "Direction \<Rightarrow> u64 \<Rightarrow> TcpPacket \<Rightarrow> BulkFlowCounters \<Rightarrow> BulkFlowCounters" where
  "bulk_record direction now_ms p b =
     (let ports = port_pair p in
      case direction of
        Rx \<Rightarrow>
          if 1000 \<le> length (tcp_payload p) then
            b\<lparr>bulk_ports := ports, rx_at_ms := saturating_add now_ms 1, rx_seq := ucast (seq_number p),
              rx_ack := ucast (ack_number p), rx_payload_len := of_nat (length (tcp_payload p))\<rparr>
          else b
      | Tx \<Rightarrow>
          if ack p \<and> tcp_payload p = [] then
            let reverse = push_bit 16 (bulk_ports b AND 0xffff) OR drop_bit 16 (bulk_ports b) in
            if bulk_ports b \<noteq> 0 \<and> ports = reverse then
              b\<lparr>ack_at_ms := saturating_add now_ms 1, ack_seq := ucast (seq_number p),
                ack_ack := ucast (ack_number p)\<rparr>
            else b
          else b)"

definition bulk_summary :: "u64 \<Rightarrow> BulkFlowCounters \<Rightarrow> string" where
  "bulk_summary now_ms b =
     (if bulk_ports b = 0 \<or> rx_at_ms b = 0 then ''none''
      else
        let ack = (if ack_at_ms b = 0 then ''none''
              else ''seq:'' @ show_low32 (ack_seq b) @ '',ack:'' @ show_low32 (ack_ack b)
                @ '',age_ms:'' @ show_u64 (saturating_sub now_ms (saturating_sub (ack_at_ms b) 1)))
        in show_u64 (drop_bit 16 (bulk_ports b)) @ ''>'' @ show_u64 (bulk_ports b AND 0xffff)
           @ '',rx_seq:'' @ show_low32 (rx_seq b) @ '',rx_ack:'' @ show_low32 (rx_ack b)
           @ '',rx_payload:'' @ show_u64 (rx_payload_len b)
           @ '',rx_age_ms:'' @ show_u64 (saturating_sub now_ms (saturating_sub (rx_at_ms b) 1))
           @ '',ack:'' @ ack)"

section \<open>Recording\<close>

definition record_outer_rx :: "nat \<Rightarrow> ObserverInner \<Rightarrow> ObserverInner" where
  "record_outer_rx n ob = add_counter outer_rx_bytes n (add_counter outer_rx_packets 1 ob)"

definition record_outer_tx :: "nat \<Rightarrow> ObserverInner \<Rightarrow> ObserverInner" where
  "record_outer_tx n ob = add_counter outer_tx_bytes n (add_counter outer_tx_packets 1 ob)"

definition record_outer_tx_dropped :: "ObserverInner \<Rightarrow> ObserverInner" where
  "record_outer_tx_dropped ob = add_counter outer_tx_dropped 1 ob"

definition record_device_tx_dropped :: "nat \<Rightarrow> ObserverInner \<Rightarrow> ObserverInner" where
  "record_device_tx_dropped n ob = add_counter device_tx_dropped n ob"

fun decap_counter :: "DecapOutcome \<Rightarrow> obs_counter" where
  "decap_counter Done = decap_done"
| "decap_counter WriteToNetwork = decap_write_network"
| "decap_counter WriteToTunnelV4 = decap_v4"
| "decap_counter WriteToTunnelV6 = decap_v6"
| "decap_counter Error = decap_errors"

definition record_decap :: "DecapOutcome \<Rightarrow> ObserverInner \<Rightarrow> ObserverInner" where
  "record_decap outcome ob = add_counter (decap_counter outcome) 1 ob"

definition record_plaintext :: "wire_lib \<Rightarrow> u64 \<Rightarrow> Direction \<Rightarrow> bytes \<Rightarrow> ObserverInner \<Rightarrow> ObserverInner" where
  "record_plaintext w now_ms direction packet ob =
     (let ob = (case direction of
                  Rx \<Rightarrow> add_counter plain_rx_bytes (length packet) (add_counter plain_rx_packets 1 ob)
                | Tx \<Rightarrow> add_counter plain_tx_bytes (length packet) (add_counter plain_tx_packets 1 ob))
      in case tcp_packet w packet of
           None \<Rightarrow> ob
         | Some p \<Rightarrow>
             (case direction of
                Rx \<Rightarrow> ob\<lparr>tcp_rx := tcp_record now_ms p (tcp_rx ob), bulk_flow := bulk_record Rx now_ms p (bulk_flow ob)\<rparr>
              | Tx \<Rightarrow> ob\<lparr>tcp_tx := tcp_record now_ms p (tcp_tx ob), bulk_flow := bulk_record Tx now_ms p (bulk_flow ob)\<rparr>))"

definition update_peak :: "u64 \<Rightarrow> u64 \<Rightarrow> u64" where
  "update_peak peak v = max peak v"

definition record_outer_backlog :: "nat \<Rightarrow> ObserverInner \<Rightarrow> ObserverInner" where
  "record_outer_backlog n ob =
     ob\<lparr>outer_backlog_current := of_nat n, outer_backlog_peak := update_peak (outer_backlog_peak ob) (of_nat n)\<rparr>"

definition record_device_backlog :: "nat \<Rightarrow> nat \<Rightarrow> ObserverInner \<Rightarrow> ObserverInner" where
  "record_device_backlog rx tx ob =
     ob\<lparr>device_rx_backlog := of_nat rx, device_rx_backlog_peak := update_peak (device_rx_backlog_peak ob) (of_nat rx),
        device_tx_backlog := of_nat tx, device_tx_backlog_peak := update_peak (device_tx_backlog_peak ob) (of_nat tx)\<rparr>"

definition record_reactor_wake_call :: "ObserverInner \<Rightarrow> ObserverInner" where
  "record_reactor_wake_call ob = add_counter reactor_wake_calls 1 ob"

definition record_reactor_wait :: "ObserverInner \<Rightarrow> ObserverInner" where
  "record_reactor_wait ob = add_counter reactor_waits 1 ob"

fun wake_counter :: "ReactorWake \<Rightarrow> obs_counter" where
  "wake_counter Device = reactor_device_wakes"
| "wake_counter Notify = reactor_notify_wakes"
| "wake_counter Timer = reactor_timer_wakes"

definition record_reactor_wake :: "ReactorWake \<Rightarrow> ObserverInner \<Rightarrow> ObserverInner" where
  "record_reactor_wake wake ob = add_counter (wake_counter wake) 1 ob"

definition record_reactor_poll :: "ObserverInner \<Rightarrow> ObserverInner" where
  "record_reactor_poll ob = add_counter reactor_polls 1 ob"

definition record_reactor_loop :: "u64 \<Rightarrow> ObserverInner \<Rightarrow> ObserverInner" where
  "record_reactor_loop now ob =
     (let previous = reactor_last_progress_ms ob;
          ob = (add_counter reactor_loops 1 ob)\<lparr>reactor_last_progress_ms := now\<rparr>
      in if 0 < previous
         then ob\<lparr>reactor_max_gap_ms := update_peak (reactor_max_gap_ms ob) (saturating_sub now previous)\<rparr>
         else ob)"

text \<open>\<^verbatim>\<open>elapsed_ms\<close> on the elapsed time in nanoseconds.\<close>

definition elapsed_ms :: "nat \<Rightarrow> u64" where
  "elapsed_ms ns = (let ms = ns div 10 ^ 6 in if ms < 2 ^ 64 then of_nat ms else - 1)"

section \<open>Reports\<close>

datatype tcp_field = tcp_packets | tcp_payload_bytes | tcp_ack_packets | tcp_ack_only_packets

text \<open>The fields of a \<^verbatim>\<open>CounterSnapshot\<close>: the plain counters and four counters per TCP direction.\<close>

datatype snap_field = Count obs_counter | TcpField Direction tcp_field

type_synonym CounterSnapshot = "snap_field \<Rightarrow> u64"

fun tcp_field_of :: "tcp_field \<Rightarrow> TcpDirectionCounters \<Rightarrow> u64" where
  "tcp_field_of tcp_packets c = dir_packets c"
| "tcp_field_of tcp_payload_bytes c = payload_bytes c"
| "tcp_field_of tcp_ack_packets c = ack_packets c"
| "tcp_field_of tcp_ack_only_packets c = ack_only_packets c"

fun snapshot :: "ObserverInner \<Rightarrow> CounterSnapshot" where
  "snapshot ob (Count c) = counts ob c"
| "snapshot ob (TcpField Rx f) = tcp_field_of f (tcp_rx ob)"
| "snapshot ob (TcpField Tx f) = tcp_field_of f (tcp_tx ob)"

definition delta :: "CounterSnapshot \<Rightarrow> CounterSnapshot \<Rightarrow> CounterSnapshot" where
  "delta now previous = (\<lambda>f. saturating_sub (now f) (previous f))"

record CpuSnapshot =
  usage_usec :: u64
  nr_periods :: u64
  nr_throttled :: u64
  throttled_usec :: u64

definition default_CpuSnapshot :: CpuSnapshot where
  "default_CpuSnapshot = \<lparr>usage_usec = 0, nr_periods = 0, nr_throttled = 0, throttled_usec = 0\<rparr>"

definition cpu_delta :: "CpuSnapshot \<Rightarrow> CpuSnapshot \<Rightarrow> CpuSnapshot" where
  "cpu_delta now previous =
     \<lparr>usage_usec = saturating_sub (usage_usec now) (usage_usec previous),
      nr_periods = saturating_sub (nr_periods now) (nr_periods previous),
      nr_throttled = saturating_sub (nr_throttled now) (nr_throttled previous),
      throttled_usec = saturating_sub (throttled_usec now) (throttled_usec previous)\<rparr>"

definition cpu_line :: "string \<Rightarrow> CpuSnapshot \<Rightarrow> CpuSnapshot" where
  "cpu_line line snap =
     (case split_whitespace line of
        name # field # _ \<Rightarrow>
          (case parse_u64 field of
             None \<Rightarrow> snap
           | Some v \<Rightarrow>
               if name = ''usage_usec'' then snap\<lparr>usage_usec := v\<rparr>
               else if name = ''nr_periods'' then snap\<lparr>nr_periods := v\<rparr>
               else if name = ''nr_throttled'' then snap\<lparr>nr_throttled := v\<rparr>
               else if name = ''throttled_usec'' then snap\<lparr>throttled_usec := v\<rparr>
               else if name = ''throttled_time'' then snap\<lparr>throttled_usec := v div 1000\<rparr>
               else snap)
      | _ \<Rightarrow> snap)"

definition parse_cpu_stat :: "string \<Rightarrow> CpuSnapshot" where
  "parse_cpu_stat stat = fold cpu_line (str_lines stat) default_CpuSnapshot"

text \<open>The two places the file may be in.\<close>

definition read_cpu_snapshot :: "string option \<Rightarrow> string option \<Rightarrow> CpuSnapshot option" where
  "read_cpu_snapshot v2 v1 =
     (case v2 of
        Some stat \<Rightarrow> Some (parse_cpu_stat stat)
      | None \<Rightarrow> map_option parse_cpu_stat v1)"

definition format_cpu_delta :: "CpuSnapshot option \<Rightarrow> string" where
  "format_cpu_delta cpu =
     (case cpu of
        None \<Rightarrow> ''unavailable''
      | Some cpu \<Rightarrow>
          ''usage_ms:'' @ show_u64 (usage_usec cpu div 1000) @ '',periods:'' @ show_u64 (nr_periods cpu)
          @ '',throttled:'' @ show_u64 (nr_throttled cpu) @ '',throttled_ms:'' @ show_u64 (throttled_usec cpu div 1000))"

record ReportState =
  counters :: CounterSnapshot
  cpu :: "CpuSnapshot option"

text \<open>The figures of one report line, apart from those of the sockets.\<close>

record window =
  win_delta :: CounterSnapshot
  win_tcp_rx :: string
  win_tcp_tx :: string
  win_bulk :: string
  win_idle_ms :: u64
  win_max_gap_ms :: u64
  win_backlog :: "(u64 \<times> u64) list"
  win_cgroup :: string

definition report_window ::
  "u64 \<Rightarrow> CpuSnapshot option \<Rightarrow> ObserverInner \<Rightarrow> ReportState \<Rightarrow> ObserverInner \<times> ReportState \<times> window" where
  "report_window now_ms cpu_now ob state =
     (let current = snapshot ob;
          d = delta current (counters state);
          cd = (case (cpu_now, cpu state) of (Some a, Some b) \<Rightarrow> Some (cpu_delta a b) | _ \<Rightarrow> None)
      in (ob\<lparr>reactor_max_gap_ms := 0, outer_backlog_peak := 0, device_rx_backlog_peak := 0,
             device_tx_backlog_peak := 0\<rparr>,
          \<lparr>counters = current, cpu = cpu_now\<rparr>,
          \<lparr>win_delta = d, win_tcp_rx = last_packet now_ms (tcp_rx ob), win_tcp_tx = last_packet now_ms (tcp_tx ob),
           win_bulk = bulk_summary now_ms (bulk_flow ob),
           win_idle_ms = saturating_sub now_ms (reactor_last_progress_ms ob),
           win_max_gap_ms = reactor_max_gap_ms ob,
           win_backlog = [(outer_backlog_current ob, outer_backlog_peak ob),
             (device_rx_backlog ob, device_rx_backlog_peak ob), (device_tx_backlog ob, device_tx_backlog_peak ob)],
           win_cgroup = format_cpu_delta cd\<rparr>))"

section \<open>Windows add up\<close>

text \<open>What may happen to the observer, in any order.\<close>

datatype obs_event =
    OuterRx nat | OuterTx nat | OuterTxDropped | DeviceTxDropped nat | Decap DecapOutcome
  | Plaintext u64 Direction bytes | OuterBacklog nat | DeviceBacklog nat nat
  | WakeCall | Wait | Wake ReactorWake | PollDone | LoopTurn u64
  | Report u64 "CpuSnapshot option"

fun obs_apply :: "wire_lib \<Rightarrow> obs_event \<Rightarrow> ObserverInner \<Rightarrow> ObserverInner" where
  "obs_apply w (OuterRx n) ob = record_outer_rx n ob"
| "obs_apply w (OuterTx n) ob = record_outer_tx n ob"
| "obs_apply w OuterTxDropped ob = record_outer_tx_dropped ob"
| "obs_apply w (DeviceTxDropped n) ob = record_device_tx_dropped n ob"
| "obs_apply w (Decap d) ob = record_decap d ob"
| "obs_apply w (Plaintext t dir p) ob = record_plaintext w t dir p ob"
| "obs_apply w (OuterBacklog n) ob = record_outer_backlog n ob"
| "obs_apply w (DeviceBacklog rx tx) ob = record_device_backlog rx tx ob"
| "obs_apply w WakeCall ob = record_reactor_wake_call ob"
| "obs_apply w Wait ob = record_reactor_wait ob"
| "obs_apply w (Wake k) ob = record_reactor_wake k ob"
| "obs_apply w PollDone ob = record_reactor_poll ob"
| "obs_apply w (LoopTurn t) ob = record_reactor_loop t ob"
| "obs_apply w (Report t c) ob = ob"

fun obs_run :: "wire_lib \<Rightarrow> obs_event list \<Rightarrow> ObserverInner \<Rightarrow> ReportState \<Rightarrow> ObserverInner \<times> ReportState \<times> window list" where
  "obs_run w [] ob st = (ob, st, [])"
| "obs_run w (Report t c # evs) ob st =
     (let (ob, st, win) = report_window t c ob st; (ob, st, wins) = obs_run w evs ob st in (ob, st, win # wins))"
| "obs_run w (ev # evs) ob st = obs_run w evs (obs_apply w ev ob) st"

text \<open>How much an event adds to a figure: the events themselves, counted without a width.\<close>

definition tcp_amount :: "TcpPacket \<Rightarrow> tcp_field \<Rightarrow> nat" where
  "tcp_amount p f =
     (case f of
        tcp_packets \<Rightarrow> 1
      | tcp_payload_bytes \<Rightarrow> length (tcp_payload p)
      | tcp_ack_packets \<Rightarrow> of_bool (ack p)
      | tcp_ack_only_packets \<Rightarrow> of_bool (ack p \<and> tcp_payload p = [] \<and> \<not> syn p \<and> \<not> fin p \<and> \<not> rst p))"

fun amount :: "wire_lib \<Rightarrow> obs_event \<Rightarrow> snap_field \<Rightarrow> nat" where
  "amount w (OuterRx n) f = (if f = Count outer_rx_packets then 1 else if f = Count outer_rx_bytes then n else 0)"
| "amount w (OuterTx n) f = (if f = Count outer_tx_packets then 1 else if f = Count outer_tx_bytes then n else 0)"
| "amount w OuterTxDropped f = of_bool (f = Count outer_tx_dropped)"
| "amount w (DeviceTxDropped n) f = (if f = Count device_tx_dropped then n else 0)"
| "amount w (Decap d) f = of_bool (f = Count (decap_counter d))"
| "amount w (Plaintext t dir p) f =
     (case f of
        Count c \<Rightarrow>
          if c = (case dir of Rx \<Rightarrow> plain_rx_packets | Tx \<Rightarrow> plain_tx_packets) then 1
          else if c = (case dir of Rx \<Rightarrow> plain_rx_bytes | Tx \<Rightarrow> plain_tx_bytes) then length p
          else 0
      | TcpField dir' g \<Rightarrow>
          if dir' = dir then (case tcp_packet w p of None \<Rightarrow> 0 | Some q \<Rightarrow> tcp_amount q g) else 0)"
| "amount w WakeCall f = of_bool (f = Count reactor_wake_calls)"
| "amount w Wait f = of_bool (f = Count reactor_waits)"
| "amount w (Wake k) f = of_bool (f = Count (wake_counter k))"
| "amount w PollDone f = of_bool (f = Count reactor_polls)"
| "amount w (LoopTurn t) f = of_bool (f = Count reactor_loops)"
| "amount w _ f = 0"

lemma snapshot_record_plaintext:
  "snapshot (record_plaintext w t dir p ob) f = snapshot ob f + of_nat (amount w (Plaintext t dir p) f)"
proof (cases f)
  case (Count c)
  then show ?thesis
    by (cases dir) (auto simp: record_plaintext_def add_counter_def Let_def split: option.splits)
next
  case (TcpField d g)
  then show ?thesis
    by (cases d; cases dir; cases g)
      (auto simp: record_plaintext_def add_counter_def tcp_record_def tcp_amount_def Let_def split: option.splits)
qed

lemmas record_defs = record_outer_rx_def record_outer_tx_def record_outer_tx_dropped_def
  record_device_tx_dropped_def record_decap_def record_outer_backlog_def record_device_backlog_def
  record_reactor_wake_call_def record_reactor_wait_def record_reactor_wake_def record_reactor_poll_def
  record_reactor_loop_def

lemma snapshot_apply: "snapshot (obs_apply w ev ob) f = snapshot ob f + of_nat (amount w ev f)"
proof (cases "\<exists>t dir p. ev = Plaintext t dir p")
  case True
  then show ?thesis using snapshot_record_plaintext by auto
next
  case False
  show ?thesis
  proof (cases f)
    case (Count c)
    with False show ?thesis
      by (cases ev) (auto simp: record_defs add_counter_def Let_def)
  next
    case (TcpField d g)
    with False show ?thesis
      by (cases ev; cases d) (auto simp: record_defs add_counter_def Let_def)
  qed
qed

lemma delta_exact:
  assumes "now f = previous f + of_nat n" "unat (previous f) + n < 2 ^ 64"
  shows "unat (delta now previous f) = n"
proof -
  have "unat (of_nat n :: u64) = n" using assms(2) by (simp add: unat_of_nat)
  then have "unat (now f) = unat (previous f) + n"
    using assms by (simp add: unat_word_ariths(1))
  then show ?thesis by (simp add: delta_def unat_saturating_sub)
qed

lemma obs_run_other:
  "\<not> (\<exists>t c. ev = Report t c) \<Longrightarrow> obs_run w (ev # evs) ob st = obs_run w evs (obs_apply w ev ob) st"
  by (cases ev) auto

definition total_amount :: "wire_lib \<Rightarrow> obs_event list \<Rightarrow> snap_field \<Rightarrow> nat" where
  "total_amount w evs f = sum_list (map (\<lambda>ev. amount w ev f) evs)"

text \<open>
  Along a run, what the last report saw plus what happened since is what the counters hold; the
  generalisation starts with \<open>m\<close> reported and \<open>n\<close> counted since.
\<close>

lemma obs_run_total:
  assumes "obs_run w evs ob st = (ob', st', wins)"
    and "unat (counters st f) = m" "unat (snapshot ob f) = m + n" "m + n + total_amount w evs f < 2 ^ 64"
  shows "sum_list (map (\<lambda>win. unat (win_delta win f)) wins) + (unat (snapshot ob' f) - unat (counters st' f))
      = n + total_amount w evs f
    \<and> unat (snapshot ob' f) = m + n + total_amount w evs f"
  using assms
proof (induction evs arbitrary: ob st wins m n ob' st')
  case Nil
  then show ?case by (auto simp: total_amount_def)
next
  case (Cons ev evs)
  have tot: "total_amount w (ev # evs) f = amount w ev f + total_amount w evs f" by (simp add: total_amount_def)
  show ?case
  proof (cases "\<exists>t c. ev = Report t c")
    case True
    then obtain t c where ev: "ev = Report t c" by blast
    obtain ob1 st1 win where r: "report_window t c ob st = (ob1, st1, win)" using prod_cases3 by blast
    obtain ob2 st2 wins2 where run: "obs_run w evs ob1 st1 = (ob2, st2, wins2)" using prod_cases3 by blast
    have keep: "snapshot ob1 f = snapshot ob f"
      using r by (cases f; cases "case f of TcpField d _ \<Rightarrow> d | _ \<Rightarrow> Rx")
        (auto simp: report_window_def Let_def split: snap_field.splits)
    have st1: "counters st1 f = snapshot ob f" "win_delta win = delta (snapshot ob) (counters st)"
      using r by (auto simp: report_window_def Let_def)
    have d: "unat (win_delta win f) = n"
      using Cons.prems st1(2) by (simp add: delta_def unat_saturating_sub)
    have "sum_list (map (\<lambda>win. unat (win_delta win f)) wins2) + (unat (snapshot ob2 f) - unat (counters st2 f))
        = 0 + total_amount w evs f \<and> unat (snapshot ob2 f) = (m + n) + 0 + total_amount w evs f"
      using Cons.prems(3,4) keep st1(1) tot ev by (intro Cons.IH [OF run]) auto
    then show ?thesis using Cons.prems(1) ev r run d tot by auto
  next
    case False
    let ?k = "amount w ev f"
    have run: "obs_run w evs (obs_apply w ev ob) st = (ob', st', wins)"
      using Cons.prems(1) obs_run_other [OF False] by simp
    have "unat (of_nat ?k :: u64) = ?k" using Cons.prems(4) tot by (simp add: unat_of_nat)
    then have "unat (snapshot (obs_apply w ev ob) f) = m + (n + ?k)"
      using Cons.prems(3,4) tot by (simp add: snapshot_apply unat_word_ariths(1))
    have "m + (n + ?k) + total_amount w evs f < 2 ^ 64" using Cons.prems(4) tot by simp
    from Cons.IH [OF run Cons.prems(2) \<open>unat (snapshot (obs_apply w ev ob) f) = _\<close> this] have
      "sum_list (map (\<lambda>win. unat (win_delta win f)) wins) + (unat (snapshot ob' f) - unat (counters st' f))
        = n + ?k + total_amount w evs f \<and> unat (snapshot ob' f) = m + (n + ?k) + total_amount w evs f"
      .
    then show ?thesis unfolding tot add.assoc .
  qed
qed

section \<open>Flags\<close>

lemma flag_bit: "x AND push_bit n 1 \<noteq> 0 \<longleftrightarrow> bit x n" for x :: "'a::len word"
  by (simp add: and_exp_eq_0_iff_not_bit push_bit_of_1)

lemma bit_flag: "k < 64 \<Longrightarrow> bit (push_bit k (of_bool b) :: u64) n \<longleftrightarrow> n = k \<and> b"
  by (cases b) (auto simp: push_bit_of_1 bit_exp_iff)

lemma bit_tcp_flags:
  "bit (tcp_flags p) n \<longleftrightarrow>
     (n = 0 \<and> fin p) \<or> (n = 1 \<and> syn p) \<or> (n = 2 \<and> rst p) \<or> (n = 3 \<and> psh p)
     \<or> (n = 4 \<and> ack p) \<or> (n = 5 \<and> urg p) \<or> (n = 6 \<and> ece p) \<or> (n = 7 \<and> cwr p)"
proof -
  have "bit (of_bool (fin p) :: u64) n \<longleftrightarrow> n = 0 \<and> fin p" using bit_flag [of 0 "fin p" n] by simp
  then show ?thesis by (simp only: tcp_flags_def bit_or_iff bit_flag)
qed

lemma concat_filter: "concat (map snd (filter P xs)) = concat (map (\<lambda>x. if P x then snd x else []) xs)"
  by (induction xs) auto

lemma format_tcp_flags_spec:
  "format_tcp_flags (tcp_flags p) =
     (let v = concat (map (\<lambda>(b, name). if b then name else [])
            [(fin p, ''F''), (syn p, ''S''), (rst p, ''R''), (psh p, ''P''), (ack p, ''A''), (urg p, ''U''),
             (ece p, ''E''), (cwr p, ''C'')])
      in if v = [] then ''-'' else v)"
  unfolding format_tcp_flags_def flag_bit concat_filter Let_def bit_tcp_flags
  by (simp del: concat_eq_Nil_conv append_is_Nil_conv)

section \<open>Property\<close>

text \<open>
  However recording and reporting interleave, the windows reported so far and the events not
  yet reported add up, for every reported figure, to exactly what has been recorded, as long as
  that is below \<open>2 ^ 64\<close>.
\<close>

lemma windows_add_up:
  assumes "total_amount w evs f < 2 ^ 64"
  shows "case obs_run w evs observer_new \<lparr>counters = (\<lambda>_. 0), cpu = c\<rparr> of
    (ob, st, wins) \<Rightarrow>
      sum_list (map (\<lambda>win. unat (win_delta win f)) wins) + (unat (snapshot ob f) - unat (counters st f))
        = total_amount w evs f
      \<and> unat (snapshot ob f) = total_amount w evs f"
proof -
  obtain ob st wins where run: "obs_run w evs observer_new \<lparr>counters = (\<lambda>_. 0), cpu = c\<rparr> = (ob, st, wins)"
    using prod_cases3 by blast
  have "snapshot observer_new f = 0"
    by (induction observer_new f rule: snapshot.induct; rename_tac g; case_tac g)
      (simp_all add: observer_new_def default_TcpDirectionCounters_def)
  then have "sum_list (map (\<lambda>win. unat (win_delta win f)) wins) + (unat (snapshot ob f) - unat (counters st f))
      = 0 + total_amount w evs f \<and> unat (snapshot ob f) = 0 + 0 + total_amount w evs f"
    using assms by (intro obs_run_total [OF run]) simp_all
  then show ?thesis unfolding run prod.case add_0 .
qed

lemma windows_add_up_witness:
  "case obs_run \<lparr>ipv4_view = (\<lambda>_. None), ipv6_view = (\<lambda>_. None), tcp_view = (\<lambda>_. None)\<rparr>
      [OuterRx 100, Report 5 None, OuterRx 20] observer_new \<lparr>counters = (\<lambda>_. 0), cpu = None\<rparr> of
    (ob, st, wins) \<Rightarrow>
      sum_list (map (\<lambda>win. unat (win_delta win (Count outer_rx_bytes))) wins)
        + (unat (snapshot ob (Count outer_rx_bytes)) - unat (counters st (Count outer_rx_bytes))) = 120
      \<and> unat (snapshot ob (Count outer_rx_bytes)) = 120"
  using windows_add_up [of "\<lparr>ipv4_view = (\<lambda>_. None), ipv6_view = (\<lambda>_. None), tcp_view = (\<lambda>_. None)\<rparr>"
      "[OuterRx 100, Report 5 None, OuterRx 20]" "Count outer_rx_bytes" None]
  by (simp add: total_amount_def)

end
