(* ===== verification/Netstack.thy ===== *)
theory Netstack
  imports Bounded_Fifo Dataplane Streams Net_Addr "HOL-Library.AList"
begin

text \<open>
  \<^verbatim>\<open>netstack.rs\<close>: the adapter between the asynchronous packet device, the synchronous TCP/IP
  stack (the library smoltcp) and the sockets handed to the rest of the program.  The device is a
  record of its polled operations; the library's sockets are values of the type parameters \<open>'t\<close>
  and \<open>'u\<close>, used through the record \<open>smoltcp\<close> of the library functions the source calls; what
  one \<^verbatim>\<open>Interface::poll\<close> does to the device is a list of token uses.
\<close>

section \<open>Configuration and source addresses\<close>

record BufferSize =
  tcp_rx_size :: nat
  tcp_tx_size :: nat
  udp_rx_size :: nat
  udp_tx_size :: nat
  udp_rx_meta_size :: nat
  udp_tx_meta_size :: nat

definition default_BufferSize :: BufferSize where
  "default_BufferSize = \<lparr>tcp_rx_size = 8192, tcp_tx_size = 8192, udp_rx_size = 8192,
     udp_tx_size = 8192, udp_rx_meta_size = 32, udp_tx_meta_size = 32\<rparr>"

text \<open>An address with its prefix length.\<close>

type_synonym IpCidr = "IpAddr \<times> nat"

record NetConfig =
  ip_addrs :: "IpCidr list"
  gateways :: "IpAddr list"
  buffer_size :: BufferSize

definition NetConfig_new :: "IpCidr list \<Rightarrow> IpAddr list \<Rightarrow> NetConfig" where
  "NetConfig_new addrs gws = \<lparr>ip_addrs = addrs, gateways = gws, buffer_size = default_BufferSize\<rparr>"

record Net =
  source_v4 :: "IpAddr option"
  source_v6 :: "IpAddr option"

text \<open>\<open>addr_room\<close> addresses and \<open>route_room\<close> routes is what the library's interface can hold.\<close>

definition net_sources :: "IpCidr list \<Rightarrow> Net" where
  "net_sources addrs =
     \<lparr>source_v4 = find is_ipv4 (map fst addrs), source_v6 = find (\<lambda>ip. \<not> is_ipv4 ip) (map fst addrs)\<rparr>"

definition net_new :: "nat \<Rightarrow> (IpAddr list \<Rightarrow> bool) \<Rightarrow> NetConfig \<Rightarrow> (IoErr, Net) result" where
  "net_new addr_room routes_fit config =
     (if ip_addrs config = [] then Err InvalidInput
      else if min addr_room (length (ip_addrs config)) \<noteq> length (ip_addrs config) then Err InvalidInput
      else if \<not> routes_fit (gateways config) then Err InvalidInput
      else Ok (net_sources (ip_addrs config)))"

definition source_for :: "Net \<Rightarrow> SocketAddr \<Rightarrow> (IoErr, IpAddr) result" where
  "source_for net addr =
     ok_or AddrNotAvailable (if is_ipv4 (sa_ip addr) then source_v4 net else source_v6 net)"

section \<open>The buffered device\<close>

definition DEFAULT_MAX_BURST_SIZE :: nat where
  "DEFAULT_MAX_BURST_SIZE = 100"

record BufferDevice =
  max_burst_size :: nat
  recv_queue :: "bytes list"
  send_queue :: "bytes list"
  dropped_tx :: u64

definition BufferDevice_new :: "nat option \<Rightarrow> BufferDevice" where
  "BufferDevice_new burst =
     \<lparr>max_burst_size = (case burst of None \<Rightarrow> DEFAULT_MAX_BURST_SIZE | Some n \<Rightarrow> n),
      recv_queue = [], send_queue = [], dropped_tx = 0\<rparr>"

text \<open>\<^verbatim>\<open>TxToken::consume\<close> with the packet the library has written.\<close>

definition tx_consume :: "bytes \<Rightarrow> BufferDevice \<Rightarrow> BufferDevice" where
  "tx_consume packet dev =
     (if length (send_queue dev) < max_burst_size dev then dev\<lparr>send_queue := send_queue dev @ [packet]\<rparr>
      else dev\<lparr>dropped_tx := saturating_add (dropped_tx dev) 1\<rparr>)"

definition receive :: "BufferDevice \<Rightarrow> (bytes \<times> BufferDevice) option" where
  "receive dev =
     (case recv_queue dev of
        [] \<Rightarrow> None
      | packet # rest \<Rightarrow> Some (packet, dev\<lparr>recv_queue := rest\<rparr>))"

definition transmit :: "BufferDevice \<Rightarrow> bool" where
  "transmit dev \<longleftrightarrow> length (send_queue dev) < max_burst_size dev"

section \<open>Ports\<close>

definition EPHEMERAL_PORT_FIRST :: u16 where "EPHEMERAL_PORT_FIRST = 10001"
definition EPHEMERAL_PORT_LAST :: u16 where "EPHEMERAL_PORT_LAST = 60000"

fun select_loop :: "nat \<Rightarrow> u16 \<Rightarrow> (u16 \<Rightarrow> bool) \<Rightarrow> u16 \<times> (IoErr, u16) result" where
  "select_loop 0 next in_use = (next, Err AddrNotAvailable)"
| "select_loop (Suc n) next in_use =
     (let candidate = next;
          next = (if EPHEMERAL_PORT_LAST \<le> candidate then EPHEMERAL_PORT_FIRST else candidate + 1)
      in if \<not> in_use candidate then (next, Ok candidate) else select_loop n next in_use)"

definition select_port :: "u16 \<Rightarrow> u16 \<Rightarrow> (u16 \<Rightarrow> bool) \<Rightarrow> u16 \<times> (IoErr, u16) result" where
  "select_port next requested in_use =
     (if requested \<noteq> 0 then (next, if \<not> in_use requested then Ok requested else Err AddrInUse)
      else select_loop (unat (EPHEMERAL_PORT_LAST - EPHEMERAL_PORT_FIRST) + 1) next in_use)"

datatype Transport = Tcp | Udp
datatype AddressFamily = Ipv4 | Ipv6

definition family_of :: "IpAddr \<Rightarrow> AddressFamily" where
  "family_of ip = (if is_ipv4 ip then Ipv4 else Ipv6)"

fun family_matches :: "AddressFamily \<Rightarrow> IpAddr \<Rightarrow> bool" where
  "family_matches Ipv4 ip = is_ipv4 ip"
| "family_matches Ipv6 ip = (\<not> is_ipv4 ip)"

section \<open>Sockets\<close>

datatype TcpState = Closed | Listen | SynSent | SynReceived | Established | FinWait1 | FinWait2
  | CloseWait | Closing | LastAck | TimeWait

datatype UdpSendError = BufferFull | Unaddressable
datatype UdpRecvError = Exhausted | Truncated

text \<open>The library functions the source calls on its sockets.\<close>

record ('t, 'u) smoltcp =
  tcp_new :: "nat \<Rightarrow> nat \<Rightarrow> 't"
  tcp_connect_to :: "'t \<Rightarrow> SocketAddr \<Rightarrow> SocketAddr \<Rightarrow> (unit, 't) result"
  tcp_local_endpoint :: "'t \<Rightarrow> SocketAddr option"
  tcp_state :: "'t \<Rightarrow> TcpState"
  tcp_abort :: "'t \<Rightarrow> 't"
  tcp_close :: "'t \<Rightarrow> 't"
  tcp_is_open :: "'t \<Rightarrow> bool"
  tcp_may_recv :: "'t \<Rightarrow> bool"
  tcp_can_recv :: "'t \<Rightarrow> bool"
  tcp_recv_slice :: "'t \<Rightarrow> nat \<Rightarrow> (unit, bytes \<times> 't) result"
  tcp_may_send :: "'t \<Rightarrow> bool"
  tcp_can_send :: "'t \<Rightarrow> bool"
  tcp_send_slice :: "'t \<Rightarrow> bytes \<Rightarrow> (unit, nat \<times> 't) result"
  tcp_recv_queue :: "'t \<Rightarrow> nat"
  tcp_send_queue :: "'t \<Rightarrow> nat"
  udp_new :: "BufferSize \<Rightarrow> 'u"
  udp_bind_to :: "'u \<Rightarrow> SocketAddr \<Rightarrow> (unit, 'u) result"
  udp_endpoint :: "'u \<Rightarrow> IpAddr option \<times> u16"
  udp_close :: "'u \<Rightarrow> 'u"
  udp_capacity :: "'u \<Rightarrow> nat"
  udp_send_slice :: "'u \<Rightarrow> bytes \<Rightarrow> SocketAddr \<Rightarrow> (UdpSendError, 'u) result"
  udp_recv_slice :: "'u \<Rightarrow> nat \<Rightarrow> (UdpRecvError, bytes \<times> SocketAddr \<times> 'u) result"
  fresh_handle :: "nat list \<Rightarrow> nat"

datatype ('t, 'u) Socket = TcpSocket 't | UdpSocket 'u

record ('t, 'u) SocketTable =
  sockets :: "(nat \<times> ('t, 'u) Socket) list"
  next_port :: u16

definition SocketTable_new :: "('t, 'u) SocketTable" where
  "SocketTable_new = \<lparr>sockets = [], next_port = EPHEMERAL_PORT_FIRST\<rparr>"

text \<open>The address and port a socket occupies, if any.\<close>

fun socket_port_in_use :: "('t, 'u) smoltcp \<Rightarrow> Transport \<Rightarrow> AddressFamily \<Rightarrow> u16 \<Rightarrow> ('t, 'u) Socket \<Rightarrow> bool" where
  "socket_port_in_use lib Tcp family port (TcpSocket s) =
     (case tcp_local_endpoint lib s of
        None \<Rightarrow> False
      | Some endpoint \<Rightarrow> sa_port endpoint = port \<and> family_matches family (sa_ip endpoint))"
| "socket_port_in_use lib Udp family port (UdpSocket s) =
     (let (addr, p) = udp_endpoint lib s in
      p = port \<and> (case addr of None \<Rightarrow> False | Some a \<Rightarrow> family_matches family a))"
| "socket_port_in_use lib _ family port _ = False"

definition port_in_use ::
  "('t, 'u) smoltcp \<Rightarrow> ('t, 'u) SocketTable \<Rightarrow> Transport \<Rightarrow> AddressFamily \<Rightarrow> u16 \<Rightarrow> bool" where
  "port_in_use lib table transport family port \<longleftrightarrow>
     list_ex (\<lambda>(_, s). socket_port_in_use lib transport family port s) (sockets table)"

definition allocate_port ::
  "('t, 'u) smoltcp \<Rightarrow> ('t, 'u) SocketTable \<Rightarrow> Transport \<Rightarrow> AddressFamily \<Rightarrow> u16
     \<Rightarrow> ('t, 'u) SocketTable \<times> (IoErr, u16) result" where
  "allocate_port lib table transport family requested =
     (case select_port (next_port table) requested (port_in_use lib table transport family) of
        (next, Inl e) \<Rightarrow> (table, Err e)
      | (next, Inr port) \<Rightarrow> (table\<lparr>next_port := next\<rparr>, Ok port))"

definition add_socket ::
  "('t, 'u) smoltcp \<Rightarrow> ('t, 'u) Socket \<Rightarrow> ('t, 'u) SocketTable \<Rightarrow> ('t, 'u) SocketTable \<times> nat" where
  "add_socket lib s table =
     (let h = fresh_handle lib (map fst (sockets table)) in (table\<lparr>sockets := sockets table @ [(h, s)]\<rparr>, h))"

definition allocator_connect_tcp ::
  "('t, 'u) smoltcp \<Rightarrow> BufferSize \<Rightarrow> ('t, 'u) SocketTable \<Rightarrow> IpAddr \<Rightarrow> SocketAddr
     \<Rightarrow> ('t, 'u) SocketTable \<times> (IoErr, nat) result" where
  "allocator_connect_tcp lib sizes table source remote =
     (let socket = tcp_new lib (tcp_rx_size sizes) (tcp_tx_size sizes) in
      case allocate_port lib table Tcp (family_of source) 0 of
        (table, Inl e) \<Rightarrow> (table, Err e)
      | (table, Inr port) \<Rightarrow>
          (case tcp_connect_to lib socket remote (SockAddr source port) of
             Inl _ \<Rightarrow> (table, Err OtherIo)
           | Inr socket \<Rightarrow> let (table, h) = add_socket lib (TcpSocket socket) table in (table, Ok h)))"

definition allocator_new_udp ::
  "('t, 'u) smoltcp \<Rightarrow> BufferSize \<Rightarrow> ('t, 'u) SocketTable \<Rightarrow> IpAddr \<Rightarrow> u16
     \<Rightarrow> ('t, 'u) SocketTable \<times> (IoErr, nat \<times> u16) result" where
  "allocator_new_udp lib sizes table source requested =
     (let socket = udp_new lib sizes in
      case allocate_port lib table Udp (family_of source) requested of
        (table, Inl e) \<Rightarrow> (table, Err e)
      | (table, Inr port) \<Rightarrow>
          (case udp_bind_to lib socket (SockAddr source port) of
             Inl _ \<Rightarrow> (table, Err OtherIo)
           | Inr socket \<Rightarrow> let (table, h) = add_socket lib (UdpSocket socket) table in (table, Ok (h, port))))"

definition handle_drop :: "nat \<Rightarrow> ('t, 'u) SocketTable \<Rightarrow> ('t, 'u) SocketTable" where
  "handle_drop h table = table\<lparr>sockets := filter (\<lambda>(k, _). k \<noteq> h) (sockets table)\<rparr>"

section \<open>The reactor's shared state\<close>

record ('t, 'u) Reactor =
  mtu :: nat
  table :: "('t, 'u) SocketTable"
  stopped :: "string option"

definition is_stopped :: "('t, 'u) Reactor \<Rightarrow> bool" where
  "is_stopped r \<longleftrightarrow> stopped r \<noteq> None"

fun stop_socket :: "('t, 'u) smoltcp \<Rightarrow> ('t, 'u) Socket \<Rightarrow> ('t, 'u) Socket" where
  "stop_socket lib (TcpSocket s) = TcpSocket (tcp_abort lib s)"
| "stop_socket lib (UdpSocket s) = UdpSocket (udp_close lib s)"

definition stop_sockets :: "('t, 'u) smoltcp \<Rightarrow> string \<Rightarrow> ('t, 'u) Reactor \<Rightarrow> ('t, 'u) Reactor" where
  "stop_sockets lib reason r =
     r\<lparr>stopped := (if stopped r \<noteq> None then stopped r else Some reason),
       table := (table r)\<lparr>sockets := map (\<lambda>(h, s). (h, stop_socket lib s)) (sockets (table r))\<rparr>\<rparr>"

definition SHUTDOWN_REASON :: string where
  "SHUTDOWN_REASON = ''IP netstack '' @
     bytes_str [0xE5, 0xB7, 0xB2, 0xE4, 0xB8, 0xBB, 0xE5, 0x8A, 0xA8, 0xE5, 0x81, 0x9C, 0xE6, 0xAD, 0xA2]"

definition reactor_shutdown :: "('t, 'u) smoltcp \<Rightarrow> ('t, 'u) Reactor \<Rightarrow> ('t, 'u) Reactor" where
  "reactor_shutdown lib r = stop_sockets lib SHUTDOWN_REASON r"

text \<open>
  \<^verbatim>\<open>Reactor::socket\<close> and the borrow it returns: \<open>f\<close> works on the socket in place.  \<open>None\<close> is the
  library's panic on a handle that is absent or of the other kind.
\<close>

definition with_tcp :: "nat \<Rightarrow> ('t \<Rightarrow> 't \<times> 'a) \<Rightarrow> ('t, 'u) Reactor \<Rightarrow> (('t, 'u) Reactor \<times> 'a) option" where
  "with_tcp h f r =
     (case map_of (sockets (table r)) h of
        Some (TcpSocket s) \<Rightarrow>
          let (s, a) = f s in
          Some (r\<lparr>table := (table r)\<lparr>sockets := AList.update h (TcpSocket s) (sockets (table r))\<rparr>\<rparr>, a)
      | _ \<Rightarrow> None)"

definition with_udp :: "nat \<Rightarrow> ('u \<Rightarrow> 'u \<times> 'a) \<Rightarrow> ('t, 'u) Reactor \<Rightarrow> (('t, 'u) Reactor \<times> 'a) option" where
  "with_udp h f r =
     (case map_of (sockets (table r)) h of
        Some (UdpSocket s) \<Rightarrow>
          let (s, a) = f s in
          Some (r\<lparr>table := (table r)\<lparr>sockets := AList.update h (UdpSocket s) (sockets (table r))\<rparr>\<rparr>, a)
      | _ \<Rightarrow> None)"

section \<open>TCP streams\<close>

definition tcp_poll_connected ::
  "('t, 'u) smoltcp \<Rightarrow> nat \<Rightarrow> ('t, 'u) Reactor \<Rightarrow> (('t, 'u) Reactor \<times> (IoErr, unit) result poll) option" where
  "tcp_poll_connected lib h r =
     (if is_stopped r then Some (r, Ready (Err ConnectionAborted))
      else with_tcp h (\<lambda>s. (s,
        if tcp_state lib s = Established then Ready (Ok ())
        else if tcp_state lib s = Closed then Ready (Err ConnectionAborted)
        else Pending)) r)"

definition tcp_poll_read ::
  "('t, 'u) smoltcp \<Rightarrow> nat \<Rightarrow> nat \<Rightarrow> ('t, 'u) Reactor \<Rightarrow> (('t, 'u) Reactor \<times> (IoErr, bytes) result poll) option" where
  "tcp_poll_read lib h len r =
     (if is_stopped r then Some (r, Ready (Err ConnectionAborted))
      else with_tcp h (\<lambda>s.
        if \<not> tcp_may_recv lib s then (s, Ready (Ok []))
        else if tcp_can_recv lib s then
          (case tcp_recv_slice lib s len of
             Inl _ \<Rightarrow> (s, Ready (Err OtherIo))
           | Inr (data, s) \<Rightarrow> (s, Ready (Ok data)))
        else (s, Pending)) r)"

definition tcp_poll_write ::
  "('t, 'u) smoltcp \<Rightarrow> nat \<Rightarrow> bytes \<Rightarrow> ('t, 'u) Reactor \<Rightarrow> (('t, 'u) Reactor \<times> (IoErr, nat) result poll) option" where
  "tcp_poll_write lib h buf r =
     (if is_stopped r then Some (r, Ready (Err ConnectionAborted))
      else with_tcp h (\<lambda>s.
        if \<not> tcp_may_send lib s then (s, Ready (Err BrokenPipe))
        else if tcp_can_send lib s then
          (case tcp_send_slice lib s buf of
             Inl _ \<Rightarrow> (s, Ready (Err OtherIo))
           | Inr (n, s) \<Rightarrow> (s, Ready (Ok n)))
        else (s, Pending)) r)"

definition tcp_poll_flush ::
  "('t, 'u) smoltcp \<Rightarrow> nat \<Rightarrow> ('t, 'u) Reactor \<Rightarrow> (('t, 'u) Reactor \<times> (IoErr, unit) result poll) option" where
  "tcp_poll_flush lib h r =
     (if is_stopped r then Some (r, Ready (Err ConnectionAborted))
      else with_tcp h (\<lambda>s. (s, if tcp_send_queue lib s = 0 then Ready (Ok ()) else Pending)) r)"

definition tcp_poll_shutdown ::
  "('t, 'u) smoltcp \<Rightarrow> nat \<Rightarrow> ('t, 'u) Reactor \<Rightarrow> (('t, 'u) Reactor \<times> (IoErr, unit) result poll) option" where
  "tcp_poll_shutdown lib h r =
     (if is_stopped r then Some (r, Ready (Ok ()))
      else with_tcp h (\<lambda>s.
        let s = (if tcp_is_open lib s then tcp_close lib s else s) in
        (s, if tcp_state lib s = Closed then Ready (Ok ()) else Pending)) r)"

definition stream_connect ::
  "('t, 'u) smoltcp \<Rightarrow> BufferSize \<Rightarrow> IpAddr \<Rightarrow> SocketAddr \<Rightarrow> ('t, 'u) Reactor
     \<Rightarrow> ('t, 'u) Reactor \<times> (IoErr, nat) result" where
  "stream_connect lib sizes source remote r =
     (let (t, res) = allocator_connect_tcp lib sizes (table r) source remote in (r\<lparr>table := t\<rparr>, res))"

section \<open>UDP sockets\<close>

definition udp_socket_new ::
  "('t, 'u) smoltcp \<Rightarrow> BufferSize \<Rightarrow> IpAddr \<Rightarrow> SocketAddr \<Rightarrow> ('t, 'u) Reactor
     \<Rightarrow> ('t, 'u) Reactor \<times> (IoErr, nat \<times> SocketAddr) result" where
  "udp_socket_new lib sizes source local_addr r =
     (let (t, res) = allocator_new_udp lib sizes (table r) source (sa_port local_addr)
      in (r\<lparr>table := t\<rparr>, rbind res (\<lambda>(h, port). Ok (h, SockAddr (sa_ip local_addr) port))))"

definition udp_send_limit :: "('t, 'u) smoltcp \<Rightarrow> nat \<Rightarrow> SocketAddr \<Rightarrow> 'u \<Rightarrow> nat" where
  "udp_send_limit lib limit target s =
     min (udp_capacity lib s) (limit - (if is_ipv4 (sa_ip target) then 28 else 48))"

definition udp_send_to ::
  "('t, 'u) smoltcp \<Rightarrow> nat \<Rightarrow> bytes \<Rightarrow> SocketAddr \<Rightarrow> ('t, 'u) Reactor
     \<Rightarrow> (('t, 'u) Reactor \<times> (IoErr, nat) result poll) option" where
  "udp_send_to lib h buf target r =
     (if is_stopped r then Some (r, Ready (Err ConnectionAborted))
      else with_udp h (\<lambda>s.
        if udp_send_limit lib (mtu r) target s < length buf then (s, Ready (Err InvalidInput))
        else
          (case udp_send_slice lib s buf target of
             Inl BufferFull \<Rightarrow> (s, Pending)
           | Inl _ \<Rightarrow> (s, Ready (Err OtherIo))
           | Inr s \<Rightarrow> (s, Ready (Ok (length buf))))) r)"

definition udp_recv_from ::
  "('t, 'u) smoltcp \<Rightarrow> nat \<Rightarrow> nat \<Rightarrow> ('t, 'u) Reactor
     \<Rightarrow> (('t, 'u) Reactor \<times> (IoErr, bytes \<times> SocketAddr) result poll) option" where
  "udp_recv_from lib h len r =
     (if is_stopped r then Some (r, Ready (Err ConnectionAborted))
      else with_udp h (\<lambda>s.
        case udp_recv_slice lib s len of
          Inl Exhausted \<Rightarrow> (s, Pending)
        | Inl _ \<Rightarrow> (s, Ready (Err OtherIo))
        | Inr (data, from, s) \<Rightarrow> (s, Ready (Ok (data, from)))) r)"

section \<open>What the reporter counts\<close>

record SocketSnapshot =
  tcp_total :: nat
  tcp_established :: nat
  tcp_connecting :: nat
  tcp_closing :: nat
  tcp_closed :: nat
  tcp_rx_queue :: nat
  tcp_tx_queue :: nat
  udp_total :: nat

definition default_SocketSnapshot :: SocketSnapshot where
  "default_SocketSnapshot = \<lparr>tcp_total = 0, tcp_established = 0, tcp_connecting = 0, tcp_closing = 0,
     tcp_closed = 0, tcp_rx_queue = 0, tcp_tx_queue = 0, udp_total = 0\<rparr>"

fun snapshot_socket :: "('t, 'u) smoltcp \<Rightarrow> ('t, 'u) Socket \<Rightarrow> SocketSnapshot \<Rightarrow> SocketSnapshot" where
  "snapshot_socket lib (TcpSocket s) snap =
     (let snap = snap\<lparr>tcp_total := tcp_total snap + 1,
            tcp_rx_queue := tcp_rx_queue snap + tcp_recv_queue lib s,
            tcp_tx_queue := tcp_tx_queue snap + tcp_send_queue lib s\<rparr>
      in case tcp_state lib s of
           Established \<Rightarrow> snap\<lparr>tcp_established := tcp_established snap + 1\<rparr>
         | SynSent \<Rightarrow> snap\<lparr>tcp_connecting := tcp_connecting snap + 1\<rparr>
         | SynReceived \<Rightarrow> snap\<lparr>tcp_connecting := tcp_connecting snap + 1\<rparr>
         | Listen \<Rightarrow> snap\<lparr>tcp_connecting := tcp_connecting snap + 1\<rparr>
         | Closed \<Rightarrow> snap\<lparr>tcp_closed := tcp_closed snap + 1\<rparr>
         | _ \<Rightarrow> snap\<lparr>tcp_closing := tcp_closing snap + 1\<rparr>)"
| "snapshot_socket lib (UdpSocket s) snap = snap\<lparr>udp_total := udp_total snap + 1\<rparr>"

definition socket_snapshot :: "('t, 'u) smoltcp \<Rightarrow> ('t, 'u) SocketTable \<Rightarrow> SocketSnapshot" where
  "socket_snapshot lib t = fold (\<lambda>(_, s). snapshot_socket lib s) (sockets t) default_SocketSnapshot"

section \<open>The reactor loop\<close>

text \<open>The polled operations of an \<^verbatim>\<open>AsyncDevice\<close>: its stream and its sink.\<close>

record 'd AsyncDevice =
  poll_ready :: "'d \<Rightarrow> 'd \<times> (IoErr, unit) result poll"
  start_send :: "bytes \<Rightarrow> 'd \<Rightarrow> 'd \<times> (IoErr, unit) result"
  poll_flush :: "'d \<Rightarrow> 'd \<times> (IoErr, unit) result poll"
  poll_next :: "'d \<Rightarrow> 'd \<times> (IoErr, bytes) result option poll"

text \<open>Packets on the move, as seen from the outside.\<close>

datatype net_event = Emitted bytes | ToDevice bytes | FromDevice bytes | Delivered bytes

fun poll_send_packets ::
  "'d AsyncDevice \<Rightarrow> 'd \<Rightarrow> bytes list \<Rightarrow> 'd \<times> bytes list \<times> net_event list \<times> (IoErr, unit) result poll" where
  "poll_send_packets ops device [] = (let (device, r) = poll_flush ops device in (device, [], [], r))"
| "poll_send_packets ops device (packet # packets) =
     (case poll_ready ops device of
        (device, Pending) \<Rightarrow> (device, packet # packets, [], Pending)
      | (device, Ready (Inl e)) \<Rightarrow> (device, packet # packets, [], Ready (Err e))
      | (device, Ready (Inr _)) \<Rightarrow>
          (case start_send ops packet device of
             (device, Inl e) \<Rightarrow> (device, packets, [ToDevice packet], Ready (Err e))
           | (device, Inr _) \<Rightarrow>
               let (device, packets, evs, r) = poll_send_packets ops device packets in
               (device, packets, ToDevice packet # evs, r)))"

text \<open>The receiving loop; \<open>n\<close> is the room left in the receive queue.\<close>

fun receive_burst ::
  "'d AsyncDevice \<Rightarrow> nat \<Rightarrow> 'd \<Rightarrow> bytes list \<Rightarrow> 'd \<times> bytes list \<times> net_event list \<times> (IoErr, bool) result" where
  "receive_burst ops 0 device queue = (device, queue, [], Ok False)"
| "receive_burst ops (Suc n) device queue =
     (case poll_next ops device of
        (device, Ready (Some (Inr packet))) \<Rightarrow>
          let (device, queue, evs, r) = receive_burst ops n device (queue @ [packet]) in
          (device, queue, FromDevice packet # evs, r)
      | (device, Ready (Some (Inl e))) \<Rightarrow> (device, queue, [], Err e)
      | (device, Ready None) \<Rightarrow> (device, queue, [], Ok True)
      | (device, Pending) \<Rightarrow> (device, queue, [], Ok False))"

text \<open>
  One poll of the future the loop waits for.  \<open>notified\<close> and \<open>timer\<close> say whether the reactor has
  been woken by a socket and whether its timer has run out.
\<close>

definition reactor_poll ::
  "'d AsyncDevice \<Rightarrow> bool \<Rightarrow> bool \<Rightarrow> bool \<Rightarrow> 'd \<Rightarrow> BufferDevice
     \<Rightarrow> 'd \<times> BufferDevice \<times> net_event list \<times> (IoErr, ReactorWake \<times> bool) result poll" where
  "reactor_poll ops can_transmit notified timer device buffered =
     (let queued = length (send_queue buffered);
          (device, rest, sent, r) = poll_send_packets ops device (send_queue buffered);
          buffered = buffered\<lparr>send_queue := rest\<rparr>
      in case r of
           Ready (Inl e) \<Rightarrow> (device, buffered, sent, Ready (Err e))
         | _ \<Rightarrow>
             (let (device, queue, got, r) = receive_burst ops
                     (max_burst_size buffered - length (recv_queue buffered)) device (recv_queue buffered);
                  buffered = buffered\<lparr>recv_queue := queue\<rparr>
              in case r of
                   Inl e \<Rightarrow> (device, buffered, sent @ got, Ready (Err e))
                 | Inr stream_ended \<Rightarrow>
                     (device, buffered, sent @ got,
                      if stream_ended \<or> recv_queue buffered \<noteq> [] \<or> length (send_queue buffered) \<noteq> queued
                      then Ready (Ok (Device, stream_ended))
                      else if notified then Ready (Ok (Notify, stream_ended))
                      else if can_transmit \<and> timer then Ready (Ok (Timer, stream_ended))
                      else Pending)))"

text \<open>
  What the library does with the device during one \<^verbatim>\<open>Interface::poll\<close>: it takes a received packet,
  perhaps answering through the token that comes with it, or asks for a sending token and uses it.
\<close>

datatype token_use = RxToken "bytes option" | TxToken bytes

fun use_token :: "token_use \<Rightarrow> BufferDevice \<Rightarrow> BufferDevice \<times> net_event list" where
  "use_token (RxToken response) dev =
     (case receive dev of
        None \<Rightarrow> (dev, [])
      | Some (packet, dev) \<Rightarrow>
          (case response of
             None \<Rightarrow> (dev, [Delivered packet])
           | Some p \<Rightarrow> (tx_consume p dev, [Delivered packet, Emitted p])))"
| "use_token (TxToken p) dev = (if transmit dev then (tx_consume p dev, [Emitted p]) else (dev, []))"

fun use_tokens :: "token_use list \<Rightarrow> BufferDevice \<Rightarrow> BufferDevice \<times> net_event list" where
  "use_tokens [] dev = (dev, [])"
| "use_tokens (u # us) dev =
     (let (dev, evs) = use_token u dev; (dev, evs') = use_tokens us dev in (dev, evs @ evs'))"

text \<open>
  \<^verbatim>\<open>run_reactor\<close>, one element of \<open>polls\<close> per poll of the waiting future; \<open>iface\<close> is the interface
  and the sockets as a function of their state and of the buffered device.  The result is \<open>None\<close>
  while the loop goes on.
\<close>

fun run_reactor ::
  "'d AsyncDevice \<Rightarrow> ('i \<Rightarrow> BufferDevice \<Rightarrow> 'i \<times> token_use list) \<Rightarrow> (bool \<times> bool) list \<Rightarrow> bool
     \<Rightarrow> 'd \<Rightarrow> BufferDevice \<Rightarrow> 'i \<Rightarrow> 'd \<times> BufferDevice \<times> 'i \<times> net_event list \<times> (IoErr, unit) result option" where
  "run_reactor ops iface [] can_transmit device buffered i = (device, buffered, i, [], None)"
| "run_reactor ops iface ((notified, timer) # polls) can_transmit device buffered i =
     (case reactor_poll ops can_transmit notified timer device buffered of
        (device, buffered, evs, Pending) \<Rightarrow>
          let (device, buffered, i, evs', r) = run_reactor ops iface polls can_transmit device buffered i in
          (device, buffered, i, evs @ evs', r)
      | (device, buffered, evs, Ready (Inl e)) \<Rightarrow> (device, buffered, i, evs, Some (Err e))
      | (device, buffered, evs, Ready (Inr (wake, stream_ended))) \<Rightarrow>
          let (i, uses) = iface i buffered;
              (buffered, used) = use_tokens uses buffered;
              buffered = buffered\<lparr>dropped_tx := 0\<rparr>
          in if stream_ended then (device, buffered, i, evs @ used, Some (Ok ()))
             else
               let (device, buffered, i, evs', r) =
                     run_reactor ops iface polls (length (send_queue buffered) < max_burst_size buffered)
                       device buffered i
               in (device, buffered, i, evs @ used @ evs', r))"

section \<open>Packets keep their order and the queues their bounds\<close>

definition device_ok :: "BufferDevice \<Rightarrow> bool" where
  "device_ok dev \<longleftrightarrow>
     length (send_queue dev) \<le> max_burst_size dev \<and> length (recv_queue dev) \<le> max_burst_size dev"

definition send_pop :: "BufferDevice \<Rightarrow> (bytes \<times> BufferDevice) option" where
  "send_pop dev =
     (case send_queue dev of [] \<Rightarrow> None | packet # rest \<Rightarrow> Some (packet, dev\<lparr>send_queue := rest\<rparr>))"

interpretation tx_queue: bounded_fifo device_ok send_queue max_burst_size tx_consume send_pop
  by unfold_locales (auto simp: tx_consume_def send_pop_def device_ok_def split: list.splits if_splits)

definition emitted :: "net_event list \<Rightarrow> bytes list" where
  "emitted evs = concat (map (\<lambda>e. case e of Emitted p \<Rightarrow> [p] | _ \<Rightarrow> []) evs)"

definition to_device :: "net_event list \<Rightarrow> bytes list" where
  "to_device evs = concat (map (\<lambda>e. case e of ToDevice p \<Rightarrow> [p] | _ \<Rightarrow> []) evs)"

definition from_device :: "net_event list \<Rightarrow> bytes list" where
  "from_device evs = concat (map (\<lambda>e. case e of FromDevice p \<Rightarrow> [p] | _ \<Rightarrow> []) evs)"

definition delivered :: "net_event list \<Rightarrow> bytes list" where
  "delivered evs = concat (map (\<lambda>e. case e of Delivered p \<Rightarrow> [p] | _ \<Rightarrow> []) evs)"

lemmas event_logs = emitted_def to_device_def from_device_def delivered_def

lemma event_logs_append [simp]:
  "emitted (xs @ ys) = emitted xs @ emitted ys" "to_device (xs @ ys) = to_device xs @ to_device ys"
  "from_device (xs @ ys) = from_device xs @ from_device ys" "delivered (xs @ ys) = delivered xs @ delivered ys"
  by (simp_all add: event_logs)

text \<open>The specification of a stretch of the reactor's work: from \<open>dev\<close> to \<open>dev'\<close> by \<open>evs\<close>.\<close>

definition moves :: "BufferDevice \<Rightarrow> net_event list \<Rightarrow> BufferDevice \<Rightarrow> bool" where
  "moves dev evs dev' \<longleftrightarrow>
     device_ok dev' \<and> max_burst_size dev' = max_burst_size dev
     \<and> subseq (to_device evs @ send_queue dev') (send_queue dev @ emitted evs)
     \<and> delivered evs @ recv_queue dev' = recv_queue dev @ from_device evs"

lemma moves_refl: "device_ok dev \<Longrightarrow> moves dev [] dev"
  by (simp add: moves_def event_logs)

lemma moves_trans:
  assumes "moves a xs b" "moves b ys c"
  shows "moves a (xs @ ys) c"
proof -
  have "subseq ((to_device xs @ send_queue b) @ emitted ys) ((send_queue a @ emitted xs) @ emitted ys)"
    using list_emb_append_mono [of "(=)" "to_device xs @ send_queue b" "send_queue a @ emitted xs"
        "emitted ys" "emitted ys"] assms(1) by (simp add: moves_def)
  moreover have "subseq (to_device xs @ to_device ys @ send_queue c) (to_device xs @ send_queue b @ emitted ys)"
    using assms(2) by (simp add: moves_def subseq_append')
  ultimately have "subseq (to_device (xs @ ys) @ send_queue c) (send_queue a @ emitted (xs @ ys))"
    by (simp add: subseq_order.order_trans)
  moreover have "delivered (xs @ ys) @ recv_queue c = recv_queue a @ from_device (xs @ ys)"
    using assms by (simp add: moves_def)
  ultimately show ?thesis using assms by (simp add: moves_def)
qed

lemma moves_dropped: "moves a xs b \<Longrightarrow> moves a xs (b\<lparr>dropped_tx := n\<rparr>)"
  by (simp add: moves_def device_ok_def)

lemma moves_tx: "device_ok dev \<Longrightarrow> moves dev [Emitted p] (tx_consume p dev)"
  using tx_queue.push_subseq [of dev "[]" "send_queue dev" p] tx_queue.invar_push [of dev p]
  by (auto simp: moves_def event_logs tx_consume_def)

lemma moves_rx:
  assumes "device_ok dev" "receive dev = Some (p, dev')"
  shows "moves dev [Delivered p] dev'"
  using assms by (auto simp: moves_def event_logs receive_def device_ok_def split: list.splits)

lemma moves_use_token: "device_ok dev \<Longrightarrow> use_token u dev = (dev', evs) \<Longrightarrow> moves dev evs dev'"
proof (induction u dev rule: use_token.induct)
  case (1 response dev)
  show ?case
  proof (cases "receive dev")
    case None
    with 1 show ?thesis by (simp add: moves_refl)
  next
    case (Some r)
    obtain p d where r: "r = (p, d)" by force
    have rx: "moves dev [Delivered p] d" using moves_rx 1(1) Some r by simp
    then have "device_ok d" by (simp add: moves_def)
    from moves_trans [OF rx moves_tx [OF this]] rx 1 Some r show ?thesis
      by (auto split: option.splits)
  qed
next
  case (2 p dev)
  then show ?case by (auto intro: moves_tx moves_refl split: if_splits)
qed

lemma moves_use_tokens: "device_ok dev \<Longrightarrow> use_tokens us dev = (dev', evs) \<Longrightarrow> moves dev evs dev'"
proof (induction us arbitrary: dev evs dev')
  case (Cons u us)
  obtain d1 e1 where 1: "use_token u dev = (d1, e1)" by force
  obtain d2 e2 where 2: "use_tokens us d1 = (d2, e2)" by force
  have m: "moves dev e1 d1" by (rule moves_use_token [OF Cons.prems(1) 1])
  then have "moves d1 e2 d2" using Cons.IH [OF _ 2] by (simp add: moves_def)
  from moves_trans [OF m this] 1 2 Cons.prems show ?case by simp
qed (simp add: moves_refl)

lemma poll_cases:
  obtains "r = Pending" | e where "r = Ready (Inl e)" | x where "r = Ready (Inr x)"
  by (metis poll.exhaust sum.exhaust)

lemma poll_send_packets_moves:
  "poll_send_packets ops d ps = (d', rest, evs, r) \<Longrightarrow>
     to_device evs @ rest = ps \<and> emitted evs = [] \<and> from_device evs = [] \<and> delivered evs = []"
proof (induction ps arbitrary: d evs)
  case Nil
  then show ?case by (auto simp: event_logs Let_def split: prod.splits)
next
  case (Cons p ps)
  obtain d1 r1 where 1: "poll_ready ops d = (d1, r1)" by force
  obtain d2 r2 where 2: "start_send ops p d1 = (d2, r2)" by force
  obtain d3 rest3 evs3 r3 where 3: "poll_send_packets ops d2 ps = (d3, rest3, evs3, r3)"
    using prod_cases4 by blast
  show ?case
  proof (cases "\<exists>x. r1 = Ready (Inr x) \<and> (\<exists>y. r2 = Inr y)")
    case True
    with Cons.prems 1 2 3 have "evs = ToDevice p # evs3" "rest3 = rest" "d3 = d'" "r3 = r" by auto
    with Cons.IH [of d2 evs3] 3 show ?thesis by (auto simp: event_logs)
  next
    case False
    with Cons.prems 1 2 show ?thesis
      by (cases r1 rule: poll_cases; cases r2) (auto simp: event_logs)
  qed
qed

lemma receive_burst_moves:
  "receive_burst ops n d q = (d', q', evs, r) \<Longrightarrow>
     q' = q @ from_device evs \<and> length (from_device evs) \<le> n
     \<and> emitted evs = [] \<and> to_device evs = [] \<and> delivered evs = []"
proof (induction n arbitrary: d q evs)
  case 0
  then show ?case by (simp add: event_logs)
next
  case (Suc n)
  obtain d1 r1 where 1: "poll_next ops d = (d1, r1)" by force
  show ?case
  proof (cases "\<exists>p. r1 = Ready (Some (Inr p))")
    case True
    then obtain p where p: "r1 = Ready (Some (Inr p))" by blast
    obtain d2 q2 evs2 r2 where 2: "receive_burst ops n d1 (q @ [p]) = (d2, q2, evs2, r2)"
      using prod_cases4 by blast
    with Suc.prems 1 p have "evs = FromDevice p # evs2" "d2 = d'" "q2 = q'" "r2 = r" by auto
    with Suc.IH [of d1 "q @ [p]" evs2] 2 show ?thesis by (auto simp: event_logs)
  next
    case False
    with Suc.prems 1 show ?thesis
      by (auto simp: event_logs split: poll.splits option.splits sum.splits)
  qed
qed

lemma reactor_poll_moves:
  assumes "device_ok b" "reactor_poll ops ct nt tm d b = (d', b', evs, r)"
  shows "moves b evs b'"
proof -
  obtain d1 rest sent r1 where 1: "poll_send_packets ops d (send_queue b) = (d1, rest, sent, r1)"
    using prod_cases4 by blast
  obtain d2 q got r2 where 2: "receive_burst ops (max_burst_size b - length (recv_queue b)) d1 (recv_queue b)
      = (d2, q, got, r2)"
    using prod_cases4 by blast
  note s = poll_send_packets_moves [OF 1] and g = receive_burst_moves [OF 2]
  have "length rest \<le> length (send_queue b)" using s by (metis le_add2 length_append)
  then have ok: "moves b sent (b\<lparr>send_queue := rest\<rparr>)"
    "moves b (sent @ got) (b\<lparr>send_queue := rest, recv_queue := q\<rparr>)"
    using s g assms(1) by (auto simp: moves_def device_ok_def)
  show ?thesis
    using assms(2) 1 2 ok
    by (auto simp: reactor_poll_def Let_def split: poll.splits sum.splits if_splits)
qed

lemma run_reactor_moves:
  "device_ok b \<Longrightarrow> run_reactor ops iface polls ct d b i = (d', b', i', evs, r) \<Longrightarrow> moves b evs b'"
proof (induction polls arbitrary: ct d b i evs)
  case Nil
  then show ?case by (simp add: moves_refl)
next
  case (Cons p polls)
  obtain nt tm where p: "p = (nt, tm)" by force
  obtain d1 b1 e1 r1 where 1: "reactor_poll ops ct nt tm d b = (d1, b1, e1, r1)"
    using prod_cases4 by blast
  have m1: "moves b e1 b1" by (rule reactor_poll_moves [OF Cons.prems(1) 1])
  then have ok1: "device_ok b1" by (simp add: moves_def)
  consider (pending) "r1 = Pending" | (err) e where "r1 = Ready (Inl e)"
    | (woken) w ended where "r1 = Ready (Inr (w, ended))"
    by (metis poll.exhaust prod.exhaust sum.exhaust)
  then show ?case
  proof cases
    case pending
    obtain d2 b2 i2 e2 r2 where run: "run_reactor ops iface polls ct d1 b1 i = (d2, b2, i2, e2, r2)"
      using prod_cases5 by blast
    have "moves b1 e2 b2" if "b2 = b'"
      using Cons.IH [OF ok1, of ct d1 i e2] run that 1 pending p Cons.prems(2) by simp
    then show ?thesis using moves_trans [OF m1] 1 pending run p Cons.prems(2) by auto
  next
    case err
    then show ?thesis using m1 1 p Cons.prems(2) by simp
  next
    case woken
    obtain j us where j: "iface i b1 = (j, us)" by force
    obtain b2 e2 where u: "use_tokens us b1 = (b2, e2)" by force
    have m2: "moves b (e1 @ e2) (b2\<lparr>dropped_tx := 0\<rparr>)"
      by (intro moves_trans [OF m1] moves_dropped moves_use_tokens [OF ok1 u])
    then have ok2: "device_ok (b2\<lparr>dropped_tx := 0\<rparr>)" by (simp add: moves_def)
    show ?thesis
    proof (cases ended)
      case True
      then show ?thesis using m2 woken 1 j u p Cons.prems(2) by simp
    next
      case False
      obtain d3 b3 i3 e3 r3 where run: "run_reactor ops iface polls
          (length (send_queue b2) < max_burst_size b2) d1 (b2\<lparr>dropped_tx := 0\<rparr>) j = (d3, b3, i3, e3, r3)"
        using prod_cases5 by blast
      then have "moves (b2\<lparr>dropped_tx := 0\<rparr>) e3 b'"
        using Cons.IH [OF ok2] 1 woken j u p False Cons.prems(2) by simp
      from moves_trans [OF m2 this] show ?thesis using woken 1 j u False run p Cons.prems(2) by simp
    qed
  qed
qed

section \<open>Property\<close>

text \<open>
  C11: whatever the device and the protocol stack do, the reactor refines a pair of packet queues:
  the packets handed to the device, followed by those still waiting, are the packets the stack has
  emitted, in order, less some that met a full queue; the packets given to the stack, followed by
  those waiting, are exactly the packets received, in order; and neither queue exceeds the burst size.
\<close>

theorem reactor_refines_queues:
  "case run_reactor ops iface polls can_transmit device (BufferDevice_new burst) i of
     (device', buffered, i', evs, r) \<Rightarrow>
       subseq (to_device evs @ send_queue buffered) (emitted evs)
       \<and> delivered evs @ recv_queue buffered = from_device evs
       \<and> length (send_queue buffered) \<le> (case burst of None \<Rightarrow> 100 | Some n \<Rightarrow> n)
       \<and> length (recv_queue buffered) \<le> (case burst of None \<Rightarrow> 100 | Some n \<Rightarrow> n)"
proof -
  obtain d b j evs r where run: "run_reactor ops iface polls can_transmit device (BufferDevice_new burst) i = (d, b, j, evs, r)"
    using prod_cases5 by blast
  have "device_ok (BufferDevice_new burst)" by (simp add: device_ok_def BufferDevice_new_def)
  from run_reactor_moves [OF this run] run show ?thesis
    by (auto simp: moves_def device_ok_def BufferDevice_new_def DEFAULT_MAX_BURST_SIZE_def split: option.splits)
qed

end
