(* ===== verification/Netstack_Ports.thy ===== *)
theory Netstack_Ports
  imports Netstack
begin

text \<open>
  The port allocation of \<^verbatim>\<open>netstack.rs\<close>: which port is chosen, and that live sockets never share
  one, over every interleaving of the program's socket operations and the library's own work.
\<close>

section \<open>Choosing a port\<close>

definition ephemeral :: "u16 \<Rightarrow> bool" where
  "ephemeral p \<longleftrightarrow> 10001 \<le> unat p \<and> unat p \<le> 60000"

text \<open>The \<open>k\<close>-th candidate after \<open>next\<close>, around the ephemeral range.\<close>

definition port_at :: "u16 \<Rightarrow> nat \<Rightarrow> u16" where
  "port_at next k = of_nat (10001 + (unat next - 10001 + k) mod 50000)"

lemma unat_port_at: "unat (port_at next k) = 10001 + (unat next - 10001 + k) mod 50000"
proof -
  have "(unat next - 10001 + k) mod 50000 < 50000" by simp
  then have "10001 + (unat next - 10001 + k) mod 50000 < 2 ^ 16" by simp
  then show ?thesis unfolding port_at_def unat_of_nat by (intro mod_less) simp
qed

lemma ephemeral_port_at [simp]: "ephemeral (port_at next k)"
proof -
  have "(unat next - 10001 + k) mod 50000 < 50000" by simp
  then show ?thesis unfolding ephemeral_def unat_port_at by linarith
qed

lemma port_at_0: "ephemeral next \<Longrightarrow> port_at next 0 = next"
  by (rule word_unat_eq_iff [THEN iffD2]) (auto simp: unat_port_at ephemeral_def)

lemma port_at_1:
  assumes "ephemeral next"
  shows "(if EPHEMERAL_PORT_LAST \<le> next then EPHEMERAL_PORT_FIRST else next + 1) = port_at next 1"
proof (cases "60000 \<le> unat next")
  case True
  then have "unat next = 60000" using assms by (simp add: ephemeral_def)
  then have "unat next = unat (60000 :: u16)" by simp
  then have "next = 60000" by (rule word_unat_eq_iff [THEN iffD2])
  then show ?thesis by (simp add: port_at_def EPHEMERAL_PORT_LAST_def EPHEMERAL_PORT_FIRST_def)
next
  case False
  have "unat next + 1 < 2 ^ 16" using False by simp
  then have "unat (next + 1) = unat next + 1" by (simp add: unat_word_ariths(1))
  then have "next + 1 = port_at next 1"
    using False assms by (intro word_unat_eq_iff [THEN iffD2]) (simp add: unat_port_at ephemeral_def)
  moreover have "\<not> EPHEMERAL_PORT_LAST \<le> next"
    using False by (simp add: EPHEMERAL_PORT_LAST_def word_le_nat_alt)
  ultimately show ?thesis by simp
qed

lemma port_at_add: "port_at (port_at next 1) k = port_at next (Suc k)"
  by (rule word_unat_eq_iff [THEN iffD2]) (simp add: unat_port_at mod_add_left_eq)

lemma port_at_surj:
  assumes "ephemeral next" "ephemeral p"
  shows "\<exists>k<50000. port_at next k = p"
proof -
  define k where "k = (unat p + 50000 - unat next) mod 50000"
  have "(unat next - 10001 + k) mod 50000 = (unat next - 10001 + (unat p + 50000 - unat next)) mod 50000"
    unfolding k_def by (rule mod_add_right_eq)
  also have "unat next - 10001 + (unat p + 50000 - unat next) = unat p - 10001 + 50000"
    using assms by (simp add: ephemeral_def)
  also have "(unat p - 10001 + 50000) mod 50000 = unat p - 10001"
    unfolding mod_add_self2 using assms by (intro mod_less) (auto simp: ephemeral_def)
  finally have "port_at next k = p"
    using assms by (intro word_unat_eq_iff [THEN iffD2]) (simp add: unat_port_at ephemeral_def)
  moreover have "k < 50000" by (simp add: k_def)
  ultimately show ?thesis by blast
qed

lemma select_loop_spec:
  assumes "ephemeral next"
  shows "case select_loop n next in_use of
      (n', Inr p) \<Rightarrow> \<exists>k<n. p = port_at next k \<and> \<not> in_use p \<and> n' = port_at next (Suc k)
        \<and> (\<forall>j<k. in_use (port_at next j))
    | (n', Inl e) \<Rightarrow> e = AddrNotAvailable \<and> (\<forall>k<n. in_use (port_at next k))"
  using assms
proof (induction n arbitrary: "next")
  case (Suc n)
  note step = port_at_0 [OF Suc.prems] port_at_1 [OF Suc.prems]
  show ?case
  proof (cases "in_use next")
    case False
    then show ?thesis using step by (auto intro!: exI [of _ "0 :: nat"])
  next
    case True
    obtain n' r where loop: "select_loop n (port_at next 1) in_use = (n', r)" by force
    have now: "select_loop (Suc n) next in_use = (n', r)" using True step loop by simp
    note IH = Suc.IH [of "port_at next 1", simplified loop prod.case port_at_add]
    show ?thesis
    proof (cases r)
      case (Inl e)
      with IH step True now show ?thesis by (auto simp: less_Suc_eq_0_disj)
    next
      case (Inr p)
      with IH obtain k where k: "k < n" "p = port_at next (Suc k)" "\<not> in_use p"
        "n' = port_at next (Suc (Suc k))" "\<forall>j<k. in_use (port_at next (Suc j))"
        by auto
      then have "\<forall>j<Suc k. in_use (port_at next j)"
        using True step by (auto simp: less_Suc_eq_0_disj)
      with k now Inr show ?thesis by auto
    qed
  qed
qed simp

lemma select_port_spec:
  assumes "ephemeral next"
  shows "case select_port next 0 in_use of
      (n', Inr p) \<Rightarrow> \<exists>k<50000. p = port_at next k \<and> \<not> in_use p \<and> n' = port_at next (Suc k)
        \<and> (\<forall>j<k. in_use (port_at next j))
    | (n', Inl e) \<Rightarrow> e = AddrNotAvailable \<and> (\<forall>k<50000. in_use (port_at next k))"
proof -
  have "unat (EPHEMERAL_PORT_LAST - EPHEMERAL_PORT_FIRST) + 1 = 50000"
    by (simp add: EPHEMERAL_PORT_LAST_def EPHEMERAL_PORT_FIRST_def)
  then show ?thesis using select_loop_spec [OF assms, of 50000 in_use] by (simp add: select_port_def)
qed

lemma select_port_first_free:
  assumes "ephemeral next" "\<not> in_use next"
  shows "select_port next 0 in_use = (port_at next 1, Ok next)"
proof -
  obtain n' r where r: "select_port next 0 in_use = (n', r)" by force
  note spec = select_port_spec [OF assms(1), of in_use, simplified r prod.case]
  have "\<not> in_use (port_at next 0)" using assms by (simp add: port_at_0)
  with spec r assms show ?thesis
    by (cases r) (use port_at_0 in \<open>fastforce simp: less_Suc_eq_0_disj gr0_conv_Suc\<close>)+
qed

section \<open>No two sockets share a port\<close>

text \<open>\<open>s'\<close> occupies no port that \<open>s\<close> does not.\<close>

definition port_le :: "('t, 'u) smoltcp \<Rightarrow> ('t, 'u) Socket \<Rightarrow> ('t, 'u) Socket \<Rightarrow> bool" where
  "port_le lib s' s \<longleftrightarrow>
     (\<forall>tr fam port. socket_port_in_use lib tr fam port s' \<longrightarrow> socket_port_in_use lib tr fam port s)"

text \<open>
  What is relied on of the library: a socket that has been connected or bound has the local
  endpoint it was given, later operations may release an endpoint but not acquire one, and a new
  handle is one that is not in use.
\<close>

locale smoltcp_laws =
  fixes lib :: "('t, 'u) smoltcp"
  assumes connect_local: "tcp_connect_to lib s remote local = Ok s' \<Longrightarrow> tcp_local_endpoint lib s' = Some local"
    and bind_local: "udp_bind_to lib u local = Ok u' \<Longrightarrow> udp_endpoint lib u' = (Some (sa_ip local), sa_port local)"
    and abort_local: "tcp_local_endpoint lib (tcp_abort lib s) \<in> {None, tcp_local_endpoint lib s}"
    and close_local: "tcp_local_endpoint lib (tcp_close lib s) \<in> {None, tcp_local_endpoint lib s}"
    and recv_local: "tcp_recv_slice lib s n = Ok (d, s') \<Longrightarrow> tcp_local_endpoint lib s' \<in> {None, tcp_local_endpoint lib s}"
    and send_local: "tcp_send_slice lib s buf = Ok (k, s') \<Longrightarrow> tcp_local_endpoint lib s' \<in> {None, tcp_local_endpoint lib s}"
    and udp_close_local: "udp_endpoint lib (udp_close lib u) \<in> {(None, 0), udp_endpoint lib u}"
    and udp_send_local: "udp_send_slice lib u buf a = Ok u' \<Longrightarrow> udp_endpoint lib u' = udp_endpoint lib u"
    and udp_recv_local: "udp_recv_slice lib u n = Ok (d, a, u') \<Longrightarrow> udp_endpoint lib u' = udp_endpoint lib u"
    and fresh: "fresh_handle lib hs \<notin> set hs"

text \<open>
  The steps that change the sockets: the program's own operations, and an interface poll, during
  which the library may change every socket.
\<close>

inductive net_step :: "('t, 'u) smoltcp \<Rightarrow> BufferSize \<Rightarrow> ('t, 'u) Reactor \<Rightarrow> ('t, 'u) Reactor \<Rightarrow> bool"
  for lib sizes where
  Connect: "stream_connect lib sizes src remote r = (r', res) \<Longrightarrow> net_step lib sizes r r'"
| Bind: "udp_socket_new lib sizes src local r = (r', ures) \<Longrightarrow> net_step lib sizes r r'"
| Drop: "net_step lib sizes r (r\<lparr>table := handle_drop h (table r)\<rparr>)"
| Stop: "net_step lib sizes r (stop_sockets lib reason r)"
| Read: "tcp_poll_read lib h n r = Some (r', rres) \<Longrightarrow> net_step lib sizes r r'"
| Write: "tcp_poll_write lib h buf r = Some (r', wres) \<Longrightarrow> net_step lib sizes r r'"
| Shutdown: "tcp_poll_shutdown lib h r = Some (r', pres) \<Longrightarrow> net_step lib sizes r r'"
| SendTo: "udp_send_to lib h buf target r = Some (r', sres) \<Longrightarrow> net_step lib sizes r r'"
| RecvFrom: "udp_recv_from lib h n r = Some (r', fres) \<Longrightarrow> net_step lib sizes r r'"
| Poll: "list_all2 (\<lambda>e e'. fst e' = fst e \<and> port_le lib (snd e') (snd e)) (sockets (table r)) ss \<Longrightarrow>
    net_step lib sizes r (r\<lparr>table := (table r)\<lparr>sockets := ss\<rparr>\<rparr>)"

definition apart :: "('t, 'u) smoltcp \<Rightarrow> ('t, 'u) Socket \<Rightarrow> ('t, 'u) Socket \<Rightarrow> bool" where
  "apart lib s s' \<longleftrightarrow>
     (\<forall>tr fam port. \<not> (socket_port_in_use lib tr fam port s \<and> socket_port_in_use lib tr fam port s'))"

definition table_ok :: "('t, 'u) smoltcp \<Rightarrow> ('t, 'u) SocketTable \<Rightarrow> bool" where
  "table_ok lib t \<longleftrightarrow>
     ephemeral (next_port t) \<and> distinct (map fst (sockets t)) \<and> sorted_wrt (\<lambda>e e'. apart lib (snd e) (snd e')) (sockets t)"

lemma apart_le: "apart lib s s' \<Longrightarrow> port_le lib t s \<Longrightarrow> port_le lib t' s' \<Longrightarrow> apart lib t t'"
  unfolding apart_def port_le_def by blast

lemma apart_sym: "apart lib s s' \<Longrightarrow> apart lib s' s"
  by (auto simp: apart_def)

lemma table_ok_pointwise:
  assumes "table_ok lib t" "list_all2 (\<lambda>e e'. fst e' = fst e \<and> port_le lib (snd e') (snd e)) (sockets t) ss"
  shows "table_ok lib (t\<lparr>sockets := ss\<rparr>)"
proof -
  have len: "length ss = length (sockets t)" using assms(2) by (simp add: list_all2_lengthD)
  have nth: "fst (ss ! i) = fst (sockets t ! i) \<and> port_le lib (snd (ss ! i)) (snd (sockets t ! i))"
    if "i < length ss" for i
    using list_all2_nthD2 [OF assms(2) that] .
  have "map fst ss = map fst (sockets t)" by (intro nth_equalityI) (simp_all add: len nth)
  moreover have "sorted_wrt (\<lambda>e e'. apart lib (snd e) (snd e')) ss"
    unfolding sorted_wrt_iff_nth_less
  proof (intro allI impI)
    fix i j assume "i < j" "j < length ss"
    then show "apart lib (snd (ss ! i)) (snd (ss ! j))"
      using assms(1) len
      by (intro apart_le [OF _ conjunct2 [OF nth] conjunct2 [OF nth]])
        (simp_all add: table_ok_def sorted_wrt_iff_nth_less)
  qed
  ultimately show ?thesis using assms(1) by (simp add: table_ok_def)
qed

lemma update_pointwise:
  assumes "map_of ss h = Some s" "port_le lib s' s"
  shows "list_all2 (\<lambda>e e'. fst e' = fst e \<and> port_le lib (snd e') (snd e)) ss (AList.update h s' ss)"
proof -
  have "port_le lib x x" for x by (simp add: port_le_def)
  with assms show ?thesis
    by (induction ss) (auto intro!: list_all2_refl split: if_splits)
qed

lemmas table_ok_update = table_ok_pointwise [OF _ update_pointwise]

lemma stop_pointwise:
  assumes "\<And>s. port_le lib (f s) s"
  shows "list_all2 (\<lambda>e e'. fst e' = fst e \<and> port_le lib (snd e') (snd e)) ss (map (\<lambda>(h, s). (h, f s)) ss)"
  using assms by (induction ss) auto

lemma table_ok_next_port: "ephemeral n \<Longrightarrow> table_ok lib t \<Longrightarrow> table_ok lib (t\<lparr>next_port := n\<rparr>)"
  by (simp add: table_ok_def)

lemma table_ok_filter: "table_ok lib t \<Longrightarrow> table_ok lib (handle_drop h t)"
  by (auto simp: table_ok_def handle_drop_def distinct_map sorted_wrt_filter inj_on_def)

lemma allocate_port_ok:
  assumes "table_ok lib t" "allocate_port lib t tr fam requested = (t', Inr port)"
  shows "table_ok lib t' \<and> sockets t' = sockets t \<and> \<not> port_in_use lib t tr fam port"
proof -
  obtain n where n: "select_port (next_port t) requested (port_in_use lib t tr fam) = (n, Inr port)"
    "t' = t\<lparr>next_port := n\<rparr>"
    using assms(2) by (auto simp: allocate_port_def split: prod.splits sum.splits)
  have eph: "ephemeral (next_port t)" using assms(1) by (simp add: table_ok_def)
  have "ephemeral n \<and> \<not> port_in_use lib t tr fam port"
  proof (cases "requested = 0")
    case True
    then show ?thesis using select_port_spec [OF eph, of "port_in_use lib t tr fam"] n by auto
  next
    case False
    then show ?thesis using n eph by (auto simp: select_port_def split: if_splits)
  qed
  then show ?thesis using n assms(1) table_ok_next_port by auto
qed

lemma allocate_port_Err:
  "allocate_port lib t tr fam requested = (t', Inl e) \<Longrightarrow> t' = t"
  by (auto simp: allocate_port_def split: prod.splits sum.splits)

context smoltcp_laws
begin

lemma endpoint_le:
  "tcp_local_endpoint lib s' \<in> {None, tcp_local_endpoint lib s} \<Longrightarrow> port_le lib (TcpSocket s') (TcpSocket s)"
  unfolding port_le_def
proof (intro allI impI)
  fix tr fam port
  assume "tcp_local_endpoint lib s' \<in> {None, tcp_local_endpoint lib s}"
    "socket_port_in_use lib tr fam port (TcpSocket s')"
  then show "socket_port_in_use lib tr fam port (TcpSocket s)" by (cases tr) auto
qed

lemma udp_endpoint_le:
  "udp_endpoint lib u' \<in> {(None, 0), udp_endpoint lib u} \<Longrightarrow> port_le lib (UdpSocket u') (UdpSocket u)"
  unfolding port_le_def
proof (intro allI impI)
  fix tr fam port
  assume "udp_endpoint lib u' \<in> {(None, 0), udp_endpoint lib u}"
    "socket_port_in_use lib tr fam port (UdpSocket u')"
  then show "socket_port_in_use lib tr fam port (UdpSocket u)" by (cases tr) auto
qed

lemma port_le_refl [simp]: "port_le lib s s"
  by (simp add: port_le_def)

lemma with_tcp_ok:
  assumes "with_tcp h f r = Some (r', a)" "table_ok lib (table r)"
    and "\<And>s. port_le lib (TcpSocket (fst (f s))) (TcpSocket s)"
  shows "table_ok lib (table r')"
proof -
  obtain s where s: "map_of (sockets (table r)) h = Some (TcpSocket s)"
    using assms(1) by (auto simp: with_tcp_def split: option.splits Socket.splits)
  with assms show ?thesis
    using table_ok_update [OF assms(2) s assms(3) [of s]]
    by (auto simp: with_tcp_def split: prod.splits)
qed

lemma with_udp_ok:
  assumes "with_udp h f r = Some (r', a)" "table_ok lib (table r)"
    and "\<And>s. port_le lib (UdpSocket (fst (f s))) (UdpSocket s)"
  shows "table_ok lib (table r')"
proof -
  obtain s where s: "map_of (sockets (table r)) h = Some (UdpSocket s)"
    using assms(1) by (auto simp: with_udp_def split: option.splits Socket.splits)
  with assms show ?thesis
    using table_ok_update [OF assms(2) s assms(3) [of s]]
    by (auto simp: with_udp_def split: prod.splits)
qed

lemma add_socket_ok:
  assumes "table_ok lib t" "\<And>tr fam port. socket_port_in_use lib tr fam port s \<Longrightarrow> \<not> port_in_use lib t tr fam port"
  shows "table_ok lib (fst (add_socket lib s t))"
proof -
  have "apart lib (snd e) s" if "e \<in> set (sockets t)" for e
    using assms(2) that by (force simp: apart_def port_in_use_def list_ex_iff)
  then show ?thesis
    using assms(1) fresh [of "map fst (sockets t)"]
    by (auto simp: add_socket_def table_ok_def sorted_wrt_append Let_def)
qed

lemma family_matches_iff: "family_matches fam ip \<longleftrightarrow> fam = family_of ip"
  by (cases fam) (auto simp: family_of_def)

lemma connect_ok:
  assumes "table_ok lib (table r)" "stream_connect lib sizes src remote r = (r', res)"
  shows "table_ok lib (table r')"
proof -
  let ?s = "tcp_new lib (tcp_rx_size sizes) (tcp_tx_size sizes)"
  obtain t1 p where a: "allocate_port lib (table r) Tcp (family_of src) 0 = (t1, p)" by force
  show ?thesis
  proof (cases p)
    case (Inl e)
    then have "t1 = table r" using a allocate_port_Err by blast
    with Inl a assms show ?thesis
      by (auto simp: stream_connect_def allocator_connect_tcp_def Let_def)
  next
    case (Inr port)
    note t1 = allocate_port_ok [OF assms(1) a [unfolded Inr]]
    show ?thesis
    proof (cases "tcp_connect_to lib ?s remote (SockAddr src port)")
      case (Inl e)
      with Inr a assms t1 show ?thesis
        by (auto simp: stream_connect_def allocator_connect_tcp_def Let_def)
    next
      case (Inr s')
      have "table_ok lib (fst (add_socket lib (TcpSocket s') t1))"
      proof (rule add_socket_ok)
        show "table_ok lib t1" using t1 by simp
        fix tr fam q assume "socket_port_in_use lib tr fam q (TcpSocket s')"
        then have "tr = Tcp \<and> q = port \<and> fam = family_of src"
          using connect_local [OF Inr] by (cases tr) (auto simp: family_matches_iff)
        then show "\<not> port_in_use lib t1 tr fam q" using t1 by (simp add: port_in_use_def)
      qed
      with Inr \<open>p = Inr port\<close> a assms(2) show ?thesis
        by (auto simp: stream_connect_def allocator_connect_tcp_def Let_def split: prod.splits)
    qed
  qed
qed

lemma bind_ok:
  assumes "table_ok lib (table r)" "udp_socket_new lib sizes src local r = (r', res)"
  shows "table_ok lib (table r')"
proof -
  obtain t1 p where a: "allocate_port lib (table r) Udp (family_of src) (sa_port local) = (t1, p)" by force
  show ?thesis
  proof (cases p)
    case (Inl e)
    then have "t1 = table r" using a allocate_port_Err by blast
    with Inl a assms show ?thesis
      by (auto simp: udp_socket_new_def allocator_new_udp_def Let_def)
  next
    case (Inr port)
    note t1 = allocate_port_ok [OF assms(1) a [unfolded Inr]]
    show ?thesis
    proof (cases "udp_bind_to lib (udp_new lib sizes) (SockAddr src port)")
      case (Inl e)
      with Inr a assms t1 show ?thesis
        by (auto simp: udp_socket_new_def allocator_new_udp_def Let_def)
    next
      case (Inr u')
      have "table_ok lib (fst (add_socket lib (UdpSocket u') t1))"
      proof (rule add_socket_ok)
        show "table_ok lib t1" using t1 by simp
        fix tr fam q assume "socket_port_in_use lib tr fam q (UdpSocket u')"
        then have "tr = Udp \<and> q = port \<and> fam = family_of src"
          using bind_local [OF Inr] by (cases tr) (auto simp: family_matches_iff)
        then show "\<not> port_in_use lib t1 tr fam q" using t1 by (simp add: port_in_use_def)
      qed
      with Inr \<open>p = Inr port\<close> a assms(2) show ?thesis
        by (auto simp: udp_socket_new_def allocator_new_udp_def Let_def split: prod.splits)
    qed
  qed
qed

lemma le_rules:
  "tcp_recv_slice lib s n = Ok (d, s') \<Longrightarrow> port_le lib (TcpSocket s') (TcpSocket s)"
  "tcp_send_slice lib s buf = Ok (k, s') \<Longrightarrow> port_le lib (TcpSocket s') (TcpSocket s)"
  "port_le lib (TcpSocket (tcp_close lib s)) (TcpSocket s)"
  "udp_send_slice lib u buf a = Ok u' \<Longrightarrow> port_le lib (UdpSocket u') (UdpSocket u)"
  "udp_recv_slice lib u n = Ok (d, a, u') \<Longrightarrow> port_le lib (UdpSocket u') (UdpSocket u)"
  "port_le lib (stop_socket lib x) x"
  using endpoint_le [OF recv_local] endpoint_le [OF send_local] endpoint_le [OF close_local]
    udp_endpoint_le udp_send_local udp_recv_local endpoint_le [OF abort_local] udp_endpoint_le [OF udp_close_local]
  by (auto, cases x) auto

lemma tcp_poll_read_ok:
  assumes "table_ok lib (table r)" "tcp_poll_read lib h n r = Some (r', res)"
  shows "table_ok lib (table r')"
proof (cases "is_stopped r")
  case False
  from with_tcp_ok [OF assms(2) [unfolded tcp_poll_read_def if_not_P [OF False]] assms(1)] le_rules(1)
  show ?thesis by (auto split: sum.splits)
qed (use assms in \<open>simp add: tcp_poll_read_def\<close>)

lemma tcp_poll_write_ok:
  assumes "table_ok lib (table r)" "tcp_poll_write lib h buf r = Some (r', res)"
  shows "table_ok lib (table r')"
proof (cases "is_stopped r")
  case False
  from with_tcp_ok [OF assms(2) [unfolded tcp_poll_write_def if_not_P [OF False]] assms(1)] le_rules(2)
  show ?thesis by (auto split: sum.splits)
qed (use assms in \<open>simp add: tcp_poll_write_def\<close>)

lemma tcp_poll_shutdown_ok:
  assumes "table_ok lib (table r)" "tcp_poll_shutdown lib h r = Some (r', res)"
  shows "table_ok lib (table r')"
proof (cases "is_stopped r")
  case False
  from with_tcp_ok [OF assms(2) [unfolded tcp_poll_shutdown_def if_not_P [OF False]] assms(1)] le_rules(3)
  show ?thesis by (auto simp: Let_def)
qed (use assms in \<open>simp add: tcp_poll_shutdown_def\<close>)

lemma udp_send_to_ok:
  assumes "table_ok lib (table r)" "udp_send_to lib h buf target r = Some (r', res)"
  shows "table_ok lib (table r')"
proof (cases "is_stopped r")
  case False
  from with_udp_ok [OF assms(2) [unfolded udp_send_to_def if_not_P [OF False]] assms(1)] le_rules(4)
  show ?thesis by (auto split: sum.splits UdpSendError.splits)
qed (use assms in \<open>simp add: udp_send_to_def\<close>)

lemma udp_recv_from_ok:
  assumes "table_ok lib (table r)" "udp_recv_from lib h n r = Some (r', res)"
  shows "table_ok lib (table r')"
proof (cases "is_stopped r")
  case False
  from with_udp_ok [OF assms(2) [unfolded udp_recv_from_def if_not_P [OF False]] assms(1)] le_rules(5)
  show ?thesis by (auto split: sum.splits UdpRecvError.splits)
qed (use assms in \<open>simp add: udp_recv_from_def\<close>)

lemmas op_ok = connect_ok bind_ok tcp_poll_read_ok tcp_poll_write_ok tcp_poll_shutdown_ok
  udp_send_to_ok udp_recv_from_ok

lemma step_ok: "net_step lib sizes r r' \<Longrightarrow> table_ok lib (table r) \<Longrightarrow> table_ok lib (table r')"
proof (induction rule: net_step.induct)
  case (Stop r reason)
  then show ?case
    using table_ok_pointwise [OF _ stop_pointwise [of lib "stop_socket lib"]] le_rules(6)
    by (simp add: stop_sockets_def)
next
  case (Poll r ss)
  then show ?case using table_ok_pointwise by simp
qed (auto intro: op_ok table_ok_filter)

lemma reachable_ok: "(net_step lib sizes)\<^sup>*\<^sup>* r r' \<Longrightarrow> table_ok lib (table r) \<Longrightarrow> table_ok lib (table r')"
  by (induction rule: rtranclp_induct) (auto intro: step_ok)

end

lemma table_ok_new: "table_ok lib SocketTable_new"
  by (simp add: table_ok_def SocketTable_new_def ephemeral_def EPHEMERAL_PORT_FIRST_def)

lemma table_ok_apart:
  assumes "table_ok lib t" "(h, s) \<in> set (sockets t)" "(h', s') \<in> set (sockets t)" "h \<noteq> h'"
  shows "apart lib s s'"
proof -
  obtain i j where "i < length (sockets t)" "sockets t ! i = (h, s)" "j < length (sockets t)" "sockets t ! j = (h', s')"
    using assms(2,3) by (meson in_set_conv_nth)
  moreover have "apart lib (snd (sockets t ! m)) (snd (sockets t ! n))" if "m < n" "n < length (sockets t)" for m n
    using assms(1) that by (simp add: table_ok_def sorted_wrt_iff_nth_less)
  ultimately show ?thesis
    using assms(4) apart_sym [of lib s' s] by (cases i j rule: linorder_cases) fastforce+
qed

section \<open>A reference instance\<close>

text \<open>A library whose sockets are no more than their local endpoint.\<close>

definition bare_lib :: "(SocketAddr option, IpAddr option \<times> u16) smoltcp" where
  "bare_lib = \<lparr>tcp_new = (\<lambda>_ _. None), tcp_connect_to = (\<lambda>_ _ local. Ok (Some local)),
     tcp_local_endpoint = id, tcp_state = (\<lambda>s. if s = None then Closed else Established),
     tcp_abort = (\<lambda>_. None), tcp_close = (\<lambda>_. None), tcp_is_open = (\<lambda>s. s \<noteq> None),
     tcp_may_recv = (\<lambda>s. s \<noteq> None), tcp_can_recv = (\<lambda>_. False), tcp_recv_slice = (\<lambda>_ _. Err ()),
     tcp_may_send = (\<lambda>s. s \<noteq> None), tcp_can_send = (\<lambda>_. False), tcp_send_slice = (\<lambda>_ _. Err ()),
     tcp_recv_queue = (\<lambda>_. 0), tcp_send_queue = (\<lambda>_. 0),
     udp_new = (\<lambda>_. (None, 0)), udp_bind_to = (\<lambda>_ local. Ok (Some (sa_ip local), sa_port local)),
     udp_endpoint = id, udp_close = (\<lambda>_. (None, 0)), udp_capacity = (\<lambda>_. 8192),
     udp_send_slice = (\<lambda>u _ _. Ok u), udp_recv_slice = (\<lambda>_ _. Err Exhausted),
     fresh_handle = (\<lambda>hs. Suc (fold max hs 0))\<rparr>"

lemma fold_max_ge: "(a :: nat) \<le> fold max xs a \<and> (\<forall>x\<in>set xs. x \<le> fold max xs a)"
proof (induction xs arbitrary: a)
  case (Cons y ys)
  from Cons [of "max y a"] show ?case by simp
qed simp

lemma bare_simps:
  "tcp_new bare_lib rx tx = None" "tcp_connect_to bare_lib t remote local = Ok (Some local)"
  "tcp_local_endpoint bare_lib t = t" "tcp_abort bare_lib t = None" "tcp_close bare_lib t = None"
  "tcp_recv_slice bare_lib t n = Err ()" "tcp_send_slice bare_lib t buf = Err ()"
  "udp_bind_to bare_lib u local = Ok (Some (sa_ip local), sa_port local)" "udp_endpoint bare_lib u = u"
  "udp_close bare_lib u = (None, 0)" "udp_send_slice bare_lib u buf a = Ok u"
  "udp_recv_slice bare_lib u n = Err Exhausted" "fresh_handle bare_lib hs = Suc (fold max hs 0)"
  by (simp_all add: bare_lib_def)

interpretation bare: smoltcp_laws bare_lib
proof unfold_locales
  fix hs
  show "fresh_handle bare_lib hs \<notin> set hs"
    using fold_max_ge [of 0 hs] by (auto simp: bare_simps)
qed (auto simp: bare_simps)

lemma allocate_next:
  "ephemeral (next_port t) \<Longrightarrow> \<not> port_in_use lib t tr fam (next_port t) \<Longrightarrow>
     allocate_port lib t tr fam 0 = (t\<lparr>next_port := port_at (next_port t) 1\<rparr>, Ok (next_port t))"
  by (simp add: allocate_port_def select_port_first_free)

lemmas bare_eval = stream_connect_def allocator_connect_tcp_def add_socket_def bare_simps
  port_in_use_def family_of_def port_at_def ephemeral_def

section \<open>Local ports\<close>

text \<open>
  The port a socket holds, straight from what the library says of the socket: its transport, whether
  its address is IPv4, and the port.
\<close>

fun local_port :: "('t, 'u) smoltcp \<Rightarrow> ('t, 'u) Socket \<Rightarrow> (Transport \<times> bool \<times> u16) option" where
  "local_port lib (TcpSocket s) =
     (case tcp_local_endpoint lib s of None \<Rightarrow> None | Some e \<Rightarrow> Some (Tcp, is_ipv4 (sa_ip e), sa_port e))"
| "local_port lib (UdpSocket s) =
     (case udp_endpoint lib s of (None, p) \<Rightarrow> None | (Some a, p) \<Rightarrow> Some (Udp, is_ipv4 a, p))"

lemma local_port_in_use:
  "local_port lib s = Some (tr, v4, p) \<longleftrightarrow> socket_port_in_use lib tr (if v4 then Ipv4 else Ipv6) p s"
  by (cases s; cases tr; cases v4)
     (auto split: option.splits prod.splits)

section \<open>Properties\<close>

text \<open>
  The port for a new connection is the first free one after the last port given out, going
  round the range 10001 to 60000 once; the search fails only when every port of the range is in
  use; and the next search starts after the port found.
\<close>

lemma select_port_next_free:
  assumes "10001 \<le> unat next" "unat next \<le> 60000"
  shows "case select_port next 0 in_use of
      (n', Inr p) \<Rightarrow> 10001 \<le> unat p \<and> unat p \<le> 60000 \<and> \<not> in_use p
        \<and> (\<exists>k. p = port_at next k \<and> n' = port_at next (Suc k) \<and> list_all (\<lambda>j. in_use (port_at next j)) [0..<k])
    | (n', Inl e) \<Rightarrow> e = AddrNotAvailable \<and> {p. 10001 \<le> unat p \<and> unat p \<le> 60000} \<subseteq> Collect in_use"
proof -
  have eph: "ephemeral next" using assms by (simp add: ephemeral_def)
  obtain n' r where r: "select_port next 0 in_use = (n', r)" by force
  note spec = select_port_spec [OF eph, of in_use, unfolded r prod.case]
  show ?thesis
  proof (cases r)
    case (Inl e)
    then have all: "e = AddrNotAvailable" "\<forall>k<50000. in_use (port_at next k)" using spec by auto
    have "in_use p" if "10001 \<le> unat p" "unat p \<le> 60000" for p
      using port_at_surj [OF eph, of p] all(2) that by (auto simp: ephemeral_def)
    with all(1) r Inl show ?thesis by auto
  next
    case (Inr p)
    then obtain k where "p = port_at next k" "\<not> in_use p" "n' = port_at next (Suc k)"
      "\<forall>j<k. in_use (port_at next j)" using spec by auto
    moreover have "ephemeral (port_at next k)" by simp
    ultimately show ?thesis using r Inr by (auto simp: ephemeral_def list_all_iff)
  qed
qed

lemma select_port_next_free_witness:
  "\<exists>n' p. select_port 10001 0 (\<lambda>p. p = 10001) = (n', Ok p) \<and> p \<noteq> 10001 \<and> unat p \<le> 60000"
proof -
  obtain n' r where r: "select_port 10001 0 (\<lambda>p. p = 10001) = (n', r)" by force
  note free = select_port_next_free [of 10001 "\<lambda>p. p = 10001", unfolded r prod.case]
  have "(10002 :: u16) \<in> {p. 10001 \<le> unat p \<and> unat p \<le> 60000}" "(10002 :: u16) \<noteq> 10001" by simp_all
  then have "\<not> {p. 10001 \<le> unat p \<and> unat p \<le> 60000} \<subseteq> Collect (\<lambda>p :: u16. p = 10001)" by blast
  with free r show ?thesis by (cases r) auto
qed

text \<open>
  C17: however socket operations, interface polls and a stop of the stack interleave, two sockets of
  the stack never occupy the same local port for the same transport and address family.
\<close>

theorem ports_never_shared:
  assumes "smoltcp_laws lib"
    and "(net_step lib sizes)\<^sup>*\<^sup>* \<lparr>mtu = m, table = SocketTable_new, stopped = None\<rparr> r"
    and "(h, s) \<in> set (sockets (table r))" "(h', s') \<in> set (sockets (table r))" "h \<noteq> h'"
  shows "local_port lib s = None \<or> local_port lib s \<noteq> local_port lib s'"
proof -
  have "table_ok lib (table r)"
    using smoltcp_laws.reachable_ok [OF assms(1,2)] table_ok_new [of lib] by simp
  from table_ok_apart [OF this assms(3-5)] show ?thesis
    by (cases "local_port lib s") (auto simp: apart_def local_port_in_use dest: sym)
qed

theorem ports_never_shared_witness:
  "local_port bare_lib (TcpSocket (Some (SockAddr (V4 172 16 0 2) 10001)))
     \<noteq> local_port bare_lib (TcpSocket (Some (SockAddr (V4 172 16 0 2) 10002)))"
proof -
  let ?s1 = "TcpSocket (Some (SockAddr (V4 172 16 0 2) 10001))"
  let ?s2 = "TcpSocket (Some (SockAddr (V4 172 16 0 2) 10002))"
  let ?one = "(1, ?s1)"
  let ?two = "(2, ?s2)"
  let ?r = "\<lambda>ss n. \<lparr>mtu = 1330, table = \<lparr>sockets = ss, next_port = n\<rparr>, stopped = None\<rparr>"
  let ?step = "net_step bare_lib default_BufferSize"
  have "stream_connect bare_lib default_BufferSize (V4 172 16 0 2) (SockAddr (V4 1 1 1 1) 53) (?r [] 10001)
      = (?r [?one] 10002, Ok 1)"
    by (simp add: allocate_next bare_eval)
  then have "?step (?r [] 10001) (?r [?one] 10002)" by (rule net_step.Connect)
  moreover have "stream_connect bare_lib default_BufferSize (V4 172 16 0 2) (SockAddr (V4 1 1 1 1) 53) (?r [?one] 10002)
      = (?r [?one, ?two] 10003, Ok 2)"
    by (simp add: allocate_next bare_eval)
  then have "?step (?r [?one] 10002) (?r [?one, ?two] 10003)" by (rule net_step.Connect)
  ultimately have "?step\<^sup>*\<^sup>* \<lparr>mtu = 1330, table = SocketTable_new, stopped = None\<rparr> (?r [?one, ?two] 10003)"
    by (simp add: SocketTable_new_def EPHEMERAL_PORT_FIRST_def)
  note apart = ports_never_shared [OF bare.smoltcp_laws_axioms this, of 1 ?s1 2 ?s2]
  have "local_port bare_lib ?s1 \<noteq> None" by (simp add: bare_lib_def)
  moreover have "local_port bare_lib ?s1 = None \<or> local_port bare_lib ?s1 \<noteq> local_port bare_lib ?s2"
    by (rule apart) simp_all
  ultimately show ?thesis by argo
qed

end
