(* ===== verification/Addr_Text.thy ===== *)
theory Addr_Text
  imports Net_Addr
begin

text \<open>
  The textual form of addresses is faithful: what \<^verbatim>\<open>Display\<close> prints for an IP or socket address,
  the zero compression and the embedded IPv4 form of IPv6 included, \<^verbatim>\<open>parse\<close> reads back.  Also
  here: \<^verbatim>\<open>parse::<SocketAddr>()\<close> and \<^verbatim>\<open>to_socket_addrs\<close> on text, with the name service as a
  parameter.  A zone index of an IPv6 socket address is read and not kept.
\<close>

section \<open>Socket addresses\<close>

text \<open>\<^verbatim>\<open>read_port\<close>: a colon and a decimal number without limit on its digits.\<close>

definition read_dec :: "nat \<Rightarrow> string \<Rightarrow> (nat \<times> string) option" where
  "read_dec mx s =
     (let ds = takeWhile is_digit s in
      if ds = [] \<or> mx < dec_val ds then None else Some (dec_val ds, drop (length ds) s))"

definition read_port :: "string \<Rightarrow> (u16 \<times> string) option" where
  "read_port s =
     (case read_char (CHR '':'') s of None \<Rightarrow> None
      | Some s \<Rightarrow> map_option (\<lambda>(n, s). (of_nat n, s)) (read_dec 65535 s))"

definition read_scope_id :: "string \<Rightarrow> string" where
  "read_scope_id s =
     (case read_char (CHR ''%'') s of None \<Rightarrow> s
      | Some s' \<Rightarrow> (case read_dec 4294967295 s' of None \<Rightarrow> s | Some (_, s'') \<Rightarrow> s''))"

definition read_socket_addr_v4 :: "string \<Rightarrow> (SocketAddr \<times> string) option" where
  "read_socket_addr_v4 s =
     (case read_ipv4 s of None \<Rightarrow> None
      | Some (ip, s) \<Rightarrow> map_option (\<lambda>(port, s). (SockAddr ip port, s)) (read_port s))"

definition read_socket_addr_v6 :: "string \<Rightarrow> (SocketAddr \<times> string) option" where
  "read_socket_addr_v6 s =
     (case read_char (CHR ''['') s of None \<Rightarrow> None
      | Some s \<Rightarrow>
          (case read_ipv6 s of None \<Rightarrow> None
           | Some (ip, s) \<Rightarrow>
               (case read_char (CHR '']'') (read_scope_id s) of None \<Rightarrow> None
                | Some s \<Rightarrow> map_option (\<lambda>(port, s). (SockAddr ip port, s)) (read_port s))))"

definition parse_socket_addr :: "string \<Rightarrow> SocketAddr option" where
  "parse_socket_addr s =
     (case (case read_socket_addr_v4 s of Some r \<Rightarrow> Some r | None \<Rightarrow> read_socket_addr_v6 s) of
        Some (a, []) \<Rightarrow> Some a
      | _ \<Rightarrow> None)"

text \<open>
  \<^verbatim>\<open>to_socket_addrs\<close> of a string: the address itself, or the name service's answer for the part
  before the last colon.  \<open>lookup\<close> is the name service.
\<close>

definition to_socket_addrs ::
  "(string \<Rightarrow> u16 \<Rightarrow> SocketAddr list option) \<Rightarrow> string \<Rightarrow> SocketAddr list option" where
  "to_socket_addrs lookup s =
     (case parse_socket_addr s of
        Some a \<Rightarrow> Some [a]
      | None \<Rightarrow>
          (case rsplit_once (CHR '':'') s of
             None \<Rightarrow> None
           | Some (host, port) \<Rightarrow>
               (case parse_u16 port of None \<Rightarrow> None | Some p \<Rightarrow> lookup host p)))"

section \<open>Hexadecimal groups\<close>

lemma hex_digit_val:
  assumes "n < 16"
  shows "hex_val (hex_digit n) = Some n" "is_hex (hex_digit n)"
  using assms by (auto simp: hex_val_def hex_digit_def is_hex_def of_char_of take_bit_nat_eq_self Let_def)

lemma show_hex_ne [simp]: "show_hex n \<noteq> []"
  by (subst show_hex.simps) simp

lemma show_hex_hex: "list_all is_hex (show_hex n)"
proof (induction n rule: show_hex.induct)
  case (1 n)
  then show ?case
    by (subst show_hex.simps) (auto simp: hex_digit_val)
qed

lemma hex_num_show_hex: "hex_num (show_hex n) = n"
proof (induction n rule: show_hex.induct)
  case (1 n)
  show ?case
  proof (cases "n < 16")
    case True
    then show ?thesis by (subst show_hex.simps) (simp add: hex_num_def hex_digit_val)
  next
    case False
    with 1 have "hex_num (show_hex (n div 16)) = n div 16" by simp
    with False show ?thesis
      by (subst show_hex.simps) (simp add: hex_num_def hex_digit_val)
  qed
qed

lemma length_show_hex: "n < 16 ^ k \<Longrightarrow> 0 < k \<Longrightarrow> length (show_hex n) \<le> k"
proof (induction k arbitrary: n)
  case (Suc k)
  show ?case
  proof (cases "n < 16")
    case False
    then have "0 < k" using Suc.prems by (cases k) auto
    moreover have "n div 16 < 16 ^ k" using Suc.prems by (simp add: less_mult_imp_div_less mult.commute)
    ultimately show ?thesis using Suc.IH False by (subst show_hex.simps) simp
  qed (simp add: show_hex.simps)
qed simp

lemma read_hex16_show:
  assumes "s = [] \<or> \<not> is_hex (hd s)"
  shows "read_hex16 (show_hex (unat g) @ s) = Some (g, s)"
proof -
  have "takeWhile is_hex (show_hex (unat g) @ s) = show_hex (unat g)"
    using show_hex_hex [of "unat g"] assms by (cases s) (auto simp: takeWhile_append2 list_all_iff)
  moreover have "length (show_hex (unat g)) \<le> 4"
    using unsigned_less [of g, where 'a = nat] by (intro length_show_hex) simp_all
  ultimately show ?thesis by (simp add: read_hex16_def Let_def hex_num_show_hex)
qed

lemma not_hex [simp]: "\<not> is_hex (CHR '':'')" "\<not> is_hex (CHR ''.'')" "\<not> is_hex (CHR '']'')"
  by (simp_all add: is_hex_def hex_val_def)

lemma is_digit_is_hex: "is_digit c \<Longrightarrow> is_hex c"
  by (simp add: is_digit_def is_hex_def hex_val_def)

text \<open>A hexadecimal group that no full stop follows is not the start of an IPv4 address.\<close>

lemma read_ipv4_hex:
  assumes "list_all is_hex h" "s = [] \<or> \<not> is_hex (hd s) \<and> hd s \<noteq> CHR ''.''"
  shows "read_ipv4 (h @ s) = None"
proof -
  let ?ds = "takeWhile is_digit (h @ s)"
  have "(h @ s) = ?ds @ dropWhile is_digit (h @ s)" by simp
  moreover have "dropWhile is_digit (h @ s) = [] \<or> hd (dropWhile is_digit (h @ s)) \<noteq> CHR ''.''"
  proof (cases "list_all is_digit h")
    case True
    then have "dropWhile is_digit (h @ s) = dropWhile is_digit s" by (auto simp: dropWhile_append2 list_all_iff)
    moreover have "dropWhile is_digit s = s"
      using assms(2) is_digit_is_hex by (cases s) auto
    ultimately show ?thesis using assms(2) by auto
  next
    case False
    then obtain c where "c \<in> set h" "\<not> is_digit c" by (auto simp: list_all_iff)
    then have d: "dropWhile is_digit (h @ s) = dropWhile is_digit h @ s" "dropWhile is_digit h \<noteq> []"
      by (auto simp: dropWhile_append1 dropWhile_eq_Nil_conv)
    then have "hd (dropWhile is_digit h) \<in> set h"
      by (metis hd_in_set set_dropWhileD)
    then have "is_hex (hd (dropWhile is_digit h))" using assms(1) by (auto simp: list_all_iff)
    then show ?thesis using d by auto
  qed
  ultimately have rest: "drop (length ?ds) (h @ s) = [] \<or> hd (drop (length ?ds) (h @ s)) \<noteq> CHR ''.''"
    by (metis dropWhile_eq_drop)
  have "read_sep (CHR ''.'') False read_dec8 t = None" if "t = [] \<or> hd t \<noteq> CHR ''.''" for t
    using that by (cases t) (auto simp: read_sep_def read_char_def)
  from this [OF rest] show ?thesis
    by (auto simp: read_ipv4_def read_sep_def read_dec8_def Let_def split: option.splits if_splits)
qed

section \<open>Groups\<close>

declare zero_run.simps [simp del]

text \<open>What may follow the last group without being read as part of it.\<close>

definition stops :: "string \<Rightarrow> bool" where
  "stops s \<longleftrightarrow>
     (case s of
        [] \<Rightarrow> True
      | c # t \<Rightarrow> \<not> is_hex c \<and> c \<noteq> CHR ''.'' \<and> (c = CHR '':'' \<longrightarrow> t = [] \<or> \<not> is_hex (hd t) \<and> hd t \<noteq> CHR ''.''))"

definition colon_groups :: "u16 list \<Rightarrow> string" where
  "colon_groups gs = concat (map (\<lambda>g. CHR '':'' # show_hex (unat g)) gs)"

lemma show_segments_Cons: "show_segments (g # gs) = show_hex (unat g) @ colon_groups gs"
proof (induction gs arbitrary: g)
  case (Cons g' gs)
  show ?case using Cons [of g'] by (simp add: show_segments_def colon_groups_def)
qed (simp add: show_segments_def colon_groups_def)

lemma stops_hd: "stops s \<Longrightarrow> s = [] \<or> \<not> is_hex (hd s) \<and> hd s \<noteq> CHR ''.''"
  by (cases s) (auto simp: stops_def)

lemma colon_groups_hd:
  "stops s \<Longrightarrow> colon_groups gs @ s = [] \<or> \<not> is_hex (hd (colon_groups gs @ s)) \<and> hd (colon_groups gs @ s) \<noteq> CHR ''.''"
  using stops_hd by (cases gs) (auto simp: colon_groups_def)

lemma read_hex16_none: "s = [] \<or> \<not> is_hex (hd s) \<Longrightarrow> read_hex16 s = None"
  by (cases s) (auto simp: read_hex16_def)

lemma read_sep_stops:
  assumes "stops s"
  shows "read_sep (CHR '':'') False read_ipv4 s = None" "read_sep (CHR '':'') False read_hex16 s = None"
proof -
  have "read_ipv4 t = None \<and> read_hex16 t = None" if "t = [] \<or> \<not> is_hex (hd t) \<and> hd t \<noteq> CHR ''.''" for t
    using read_ipv4_hex [of "[]" t] read_hex16_none [of t] that by auto
  then show "read_sep (CHR '':'') False read_ipv4 s = None" "read_sep (CHR '':'') False read_hex16 s = None"
    using assms by (auto simp: read_sep_def read_char_def stops_def split: list.splits)
qed

lemma read_groups_stops: "stops s \<Longrightarrow> read_groups n False s = ([], False, s)"
  using read_sep_stops by (cases n) auto

lemma read_group:
  assumes "t = [] \<or> \<not> is_hex (hd t) \<and> hd t \<noteq> CHR ''.''"
  shows "read_sep (CHR '':'') True read_ipv4 (show_hex (unat g) @ t) = None"
    "read_sep (CHR '':'') False read_ipv4 (CHR '':'' # show_hex (unat g) @ t) = None"
    "read_sep (CHR '':'') True read_hex16 (show_hex (unat g) @ t) = Some (g, t)"
    "read_sep (CHR '':'') False read_hex16 (CHR '':'' # show_hex (unat g) @ t) = Some (g, t)"
  using assms read_ipv4_hex [OF show_hex_hex, of t "unat g"] read_hex16_show [of t g]
  by (auto simp: read_sep_def read_char_def)

lemma read_groups_step:
  assumes "read_sep (CHR '':'') first read_ipv4 s = None" "read_sep (CHR '':'') first read_hex16 s = Some (g, t)"
    "read_groups n False t = (gs, v, r)"
  shows "read_groups (Suc n) first s = (g # gs, v, r)"
  using assms by (cases n) auto

lemma read_groups_v4:
  assumes "read_sep (CHR '':'') first read_ipv4 s = Some (V4 a b c d, t)" "0 < n"
  shows "read_groups (Suc n) first s = ([from_be16 a b, from_be16 c d], True, t)"
  using assms by simp

lemma read_groups_colon:
  "length gs \<le> n \<Longrightarrow> stops s \<Longrightarrow> read_groups n False (colon_groups gs @ s) = (gs, False, s)"
proof (induction gs arbitrary: n)
  case Nil
  then show ?case by (simp add: colon_groups_def read_groups_stops)
next
  case (Cons g gs)
  then obtain m where m: "n = Suc m" by (cases n) auto
  have "colon_groups (g # gs) @ s = CHR '':'' # show_hex (unat g) @ (colon_groups gs @ s)"
    by (simp add: colon_groups_def)
  moreover have "read_groups m False (colon_groups gs @ s) = (gs, False, s)"
    using Cons m by simp
  ultimately show ?case
    using read_groups_step read_group(2,4) [OF colon_groups_hd [OF Cons.prems(2), of gs]] m by metis
qed

lemma read_groups_segments:
  assumes "length gs \<le> n" "stops s"
  shows "read_groups n True (show_segments gs @ s) = (gs, False, s)"
proof (cases gs)
  case Nil
  then show ?thesis
    using stops_hd [OF assms(2)] read_ipv4_hex [of "[]" s] read_hex16_none [of s]
    by (cases n) (auto simp: show_segments_def read_sep_def)
next
  case (Cons g gs')
  then obtain m where m: "n = Suc m" using assms(1) by (cases n) auto
  have "show_segments gs @ s = show_hex (unat g) @ (colon_groups gs' @ s)"
    by (simp add: Cons show_segments_Cons)
  moreover have "read_groups m False (colon_groups gs' @ s) = (gs', False, s)"
    using Cons m assms by (intro read_groups_colon) simp_all
  ultimately show ?thesis
    using read_groups_step read_group(1,3) [OF colon_groups_hd [OF assms(2), of gs']] m Cons by metis
qed

section \<open>Zero compression\<close>

definition zeros_at :: "u16 list \<Rightarrow> nat \<times> nat \<Rightarrow> bool" where
  "zeros_at gs r \<longleftrightarrow> fst r + snd r \<le> length gs \<and> take (snd r) (drop (fst r) gs) = replicate (snd r) 0"

lemma zeros_at_append: "zeros_at gs r \<Longrightarrow> zeros_at (gs @ hs) r"
  by (auto simp: zeros_at_def)

lemma zeros_at_Suc: "zeros_at gs (i, n) \<Longrightarrow> i + n = length gs \<Longrightarrow> zeros_at (gs @ [0]) (i, Suc n)"
  by (auto simp: zeros_at_def replicate_append_same)

lemma zero_run_zeros:
  assumes "zeros_at pre longest" "zeros_at pre cur" "snd cur = 0 \<or> fst cur + snd cur = length pre"
  shows "zeros_at (pre @ gs) (zero_run gs (length pre) cur longest)"
  using assms
proof (induction gs arbitrary: pre cur longest)
  case (Cons g gs)
  show ?case
  proof (cases "g = 0")
    case True
    define cur' where "cur' = (if snd cur = 0 then (length pre, 1) else (fst cur, Suc (snd cur)))"
    have c: "zeros_at (pre @ [g]) cur'" "fst cur' + snd cur' = length (pre @ [g])"
      using zeros_at_Suc [of pre "length pre" 0] zeros_at_Suc [of pre "fst cur" "snd cur"] Cons.prems True
      by (auto simp: cur'_def zeros_at_def)
    have "zeros_at (pre @ [g]) (if snd longest < snd cur' then cur' else longest)"
      using c Cons.prems(1) by (auto intro: zeros_at_append)
    from Cons.IH [OF this c(1)] c(2)
    have "zeros_at (pre @ g # gs) (zero_run gs (Suc (length pre)) cur' (if snd longest < snd cur' then cur' else longest))"
      by simp
    with True show ?thesis by (simp add: zero_run.simps Let_def cur'_def [symmetric])
  next
    case False
    have "zeros_at (pre @ [g]) (0, 0)" by (simp add: zeros_at_def)
    from Cons.IH [OF zeros_at_append [OF Cons.prems(1)] this] False show ?thesis by (simp add: zero_run.simps)
  qed
qed (simp add: zero_run.simps)

lemma zeros_split:
  assumes "zeros_at gs (i, n)"
  shows "take i gs @ replicate n 0 @ drop (i + n) gs = gs" "length (take i gs) = i"
proof -
  have "take n (drop i gs) = replicate n 0" using assms by (simp add: zeros_at_def)
  then show "take i gs @ replicate n 0 @ drop (i + n) gs = gs"
    by (metis append_take_drop_id drop_drop add.commute)
  show "length (take i gs) = i" using assms by (simp add: zeros_at_def)
qed

section \<open>Round trips\<close>

lemma read_ipv6_segments:
  assumes "stops s"
  shows "read_ipv6 (show_segments [a, b, c, d, e, f, g, h] @ s) = Some (V6 a b c d e f g h, s)"
  using read_groups_segments [of "[a, b, c, d, e, f, g, h]" 8 s] assms by (simp add: read_ipv6_def)

lemma read_ipv6_compressed:
  assumes "v6_of_segments (hs @ replicate n 0 @ ts) = Some ip" "length hs + n + length ts = 8" "1 < n" "stops s"
  shows "read_ipv6 (show_segments hs @ ''::'' @ show_segments ts @ s) = Some (ip, s)"
proof -
  have "stops (''::'' @ show_segments ts @ s)" by (simp add: stops_def)
  then have 1: "read_groups 8 True (show_segments hs @ ''::'' @ show_segments ts @ s)
      = (hs, False, ''::'' @ show_segments ts @ s)"
    using assms(2) by (intro read_groups_segments) simp_all
  have 2: "read_groups (8 - (length hs + 1)) True (show_segments ts @ s) = (ts, False, s)"
    using assms by (intro read_groups_segments) auto
  have "8 - (length hs + length ts) = n" "length hs \<noteq> 8" using assms by auto
  then show ?thesis
    using 1 2 assms(1) unfolding read_ipv6_def by (simp add: read_char_def)
qed

lemma from_be16_bytes: "from_be16 (ucast (drop_bit 8 w)) (ucast (w :: u16)) = w"
  by simp

lemma read_ipv6_mapped:
  assumes "s = [] \<or> \<not> is_digit (hd s)" "stops s"
  shows "read_ipv6 (''::ffff:'' @ show_v4 (ucast (drop_bit 8 g)) (ucast g) (ucast (drop_bit 8 h)) (ucast h) @ s)
    = Some (V6 0 0 0 0 0 0xffff g h, s)"
proof -
  let ?v4 = "show_v4 (ucast (drop_bit 8 g)) (ucast g) (ucast (drop_bit 8 h)) (ucast h) @ s"
  have ff: "show_hex 65535 = ''ffff''"
    by (simp add: show_hex.simps hex_digit_def char_of_def bit_Suc_0_iff)
  have 1: "read_groups 8 True (''::ffff:'' @ ?v4) = ([], False, ''::ffff:'' @ ?v4)"
    using read_groups_segments [of "[]" 8 "''::ffff:'' @ ?v4"] by (simp add: show_segments_def stops_def)
  have 2: "read_sep (CHR '':'') True read_ipv4 (''ffff:'' @ ?v4) = None"
    "read_sep (CHR '':'') True read_hex16 (''ffff:'' @ ?v4) = Some (0xffff, CHR '':'' # ?v4)"
    using read_group [of "CHR '':'' # ?v4" "0xffff"] by (simp_all add: ff)
  have 3: "read_sep (CHR '':'') False read_ipv4 (CHR '':'' # ?v4)
      = Some (V4 (ucast (drop_bit 8 g)) (ucast g) (ucast (drop_bit 8 h)) (ucast h), s)"
    using read_ipv4_show [OF assms(1)] by (simp add: read_sep_def read_char_def)
  have "read_groups (Suc 5) False (CHR '':'' # ?v4) = ([g, h], True, s)"
    using read_groups_v4 [OF 3, of 5] by simp
  from read_groups_step [OF 2 this]
  have "read_groups 7 True (''ffff:'' @ ?v4) = ([0xffff, g, h], True, s)"
    by simp
  with 1 show ?thesis unfolding read_ipv6_def by (simp add: read_char_def eval_nat_numeral)
qed

lemma read_ipv6_show:
  assumes "\<not> is_ipv4 ip" "s = [] \<or> \<not> is_digit (hd s)" "stops s"
  shows "read_ipv6 (show_ip ip @ s) = Some (ip, s)"
proof (cases ip)
  case (V6 a b c d e f g h)
  let ?gs = "[a, b, c, d, e, f, g, h]"
  show ?thesis
  proof (cases "take 5 ?gs = [0, 0, 0, 0, 0] \<and> f = 0xffff")
    case True
    then show ?thesis using read_ipv6_mapped [OF assms(2,3), of g h] V6 by simp
  next
    case False
    obtain i n where r: "zero_run ?gs 0 (0, 0) (0, 0) = (i, n)" by force
    have z: "zeros_at ?gs (i, n)"
      using zero_run_zeros [of "[]" "(0, 0)" "(0, 0)" ?gs] r by (simp add: zeros_at_def)
    show ?thesis
    proof (cases "1 < n")
      case True
      have "v6_of_segments (take i ?gs @ replicate n 0 @ drop (i + n) ?gs) = Some ip"
        using zeros_split(1) [OF z] V6 by simp
      moreover have "length (take i ?gs) + n + length (drop (i + n) ?gs) = 8"
        using z by (auto simp: zeros_at_def)
      ultimately have "read_ipv6 (show_segments (take i ?gs) @ ''::'' @ show_segments (drop (i + n) ?gs) @ s) = Some (ip, s)"
        by (rule read_ipv6_compressed [OF _ _ True assms(3)])
      with r True False V6 show ?thesis by (auto simp: Let_def)
    next
      case no: False
      then show ?thesis using read_ipv6_segments [OF assms(3)] r False V6 by (auto simp: Let_def)
    qed
  qed
qed (use assms in simp)

lemma show_v6_not_v4:
  assumes "\<not> is_ipv4 ip"
  shows "read_ipv4 (show_ip ip) = None"
proof -
  have colon: "read_ipv4 (CHR '':'' # t) = None" for t using read_ipv4_hex [of "[]" "CHR '':'' # t"] by simp
  have seg: "read_ipv4 (show_segments gs @ s) = None" if "s = [] \<or> hd s = CHR '':''" for gs s
  proof (cases gs)
    case (Cons g gs')
    have "colon_groups gs' @ s = [] \<or> hd (colon_groups gs' @ s) = CHR '':''"
      using that by (cases gs') (auto simp: colon_groups_def)
    then show ?thesis
      using read_ipv4_hex [OF show_hex_hex, of "colon_groups gs' @ s"] Cons by (auto simp: show_segments_Cons)
  qed (use that colon [of "tl s"] read_ipv4_hex [of "[]" "[]"] in \<open>cases s; auto simp: show_segments_def\<close>)
  show ?thesis
  proof (cases ip)
    case (V6 a b c d e f g h)
    let ?gs = "[a, b, c, d, e, f, g, h]"
    obtain i n where r: "zero_run ?gs 0 (0, 0) (0, 0) = (i, n)" by force
    have "read_ipv4 (show_segments (take i ?gs) @ ''::'' @ show_segments (drop (i + n) ?gs)) = None"
      by (rule seg) simp
    moreover have "read_ipv4 (show_segments ?gs) = None" using seg [of "[]"] by simp
    ultimately show ?thesis using colon V6 r by (simp add: Let_def)
  qed (use assms in simp)
qed

lemma parse_ip_show [simp]: "parse_ip (show_ip ip) = Some ip"
proof (cases "is_ipv4 ip")
  case False
  then show ?thesis
    using read_ipv6_show [of ip "[]"] show_v6_not_v4 by (simp add: parse_ip_def stops_def)
qed (rule parse_ip_show_v4)

lemma read_port_show: "read_port (CHR '':'' # show_u16 p) = Some (p, [])"
proof -
  have "unat p < 65536" using unsigned_less [of p, where 'a = nat] by simp
  moreover have "takeWhile is_digit (show_nat (unat p)) = show_nat (unat p)"
    using takeWhile_show_nat [of "[]" "unat p"] by (simp only: append_Nil2 simp_thms)
  ultimately show ?thesis
    by (simp add: read_port_def read_char_def read_dec_def show_u16_def Let_def del: takeWhile_eq_all_conv)
qed

lemma parse_socket_addr_show [simp]: "parse_socket_addr (show_socket_addr a) = Some a"
proof (cases a)
  case (SockAddr ip p)
  show ?thesis
  proof (cases "is_ipv4 ip")
    case True
    then obtain x y z w where ip: "ip = V4 x y z w" by (cases ip) auto
    have "\<not> is_digit (CHR '':'')" by (simp add: is_digit_def)
    then show ?thesis
      using read_ipv4_show [of "CHR '':'' # show_u16 p" x y z w] read_port_show [of p] ip SockAddr
      by (simp add: parse_socket_addr_def read_socket_addr_v4_def)
  next
    case False
    have "\<not> is_digit (CHR '']'')" "stops (CHR '']'' # t)" for t by (simp_all add: is_digit_def stops_def)
    then have "read_ipv6 (show_ip ip @ '']:'' @ show_u16 p) = Some (ip, '']:'' @ show_u16 p)"
      using read_ipv6_show [OF False, of "'']:'' @ show_u16 p"] by simp
    moreover have "read_ipv4 (CHR ''['' # t) = None" for t
      using read_ipv4_hex [of "[]" "CHR ''['' # t"] by (simp add: is_hex_def hex_val_def)
    ultimately show ?thesis
      using read_port_show [of p] False SockAddr
      by (simp add: parse_socket_addr_def read_socket_addr_v4_def read_socket_addr_v6_def read_char_def read_scope_id_def)
  qed
qed

lemma to_socket_addrs_show [simp]: "to_socket_addrs lookup (show_socket_addr a) = Some [a]"
  by (simp add: to_socket_addrs_def)

text \<open>Printed addresses consist of hexadecimal digits, colons, full stops and brackets.\<close>

definition addr_char :: "char \<Rightarrow> bool" where
  "addr_char c \<longleftrightarrow> is_hex c \<or> c \<in> set '':.[]''"

lemma addr_char_graphic: "addr_char c \<Longrightarrow> graphic c \<and> c \<noteq> CHR ''/'' \<and> c \<noteq> CHR ''='' \<and> c \<noteq> CHR '',''"
  by (auto simp: addr_char_def is_hex_def hex_val_def graphic_def Let_def split: if_splits)

lemma show_nat_addr: "list_all addr_char (show_nat n)"
  using show_nat_digits [of n] is_digit_is_hex by (auto simp: list_all_iff addr_char_def)

lemma show_segments_addr: "list_all addr_char (show_segments gs)"
proof (cases gs)
  case (Cons g gs')
  have "list_all addr_char (show_hex n)" for n
    using show_hex_hex [of n] by (auto simp: list_all_iff addr_char_def)
  then show ?thesis
    by (auto simp: Cons show_segments_Cons colon_groups_def list_all_iff addr_char_def)
qed (simp add: show_segments_def)

lemma show_ip_addr: "list_all addr_char (show_ip ip)"
proof (cases ip)
  case (V4 a b c d)
  have "addr_char (CHR ''.'')" by (simp add: addr_char_def)
  then show ?thesis using show_nat_addr by (simp add: V4 show_v4_def show_u8_def)
next
  case (V6 a b c d e f g h)
  have "addr_char (CHR ''.'')" "addr_char (CHR '':'')" "addr_char (CHR ''f'')"
    by (simp_all add: addr_char_def is_hex_def hex_val_def)
  then show ?thesis
    using show_nat_addr show_segments_addr by (auto simp: V6 show_v4_def show_u8_def Let_def split: prod.splits)
qed

lemma parse_ip_Nil: "parse_ip [] = None"
proof -
  have "read_groups 8 True [] = ([], False, [])"
    using read_groups_segments [of "[]" 8 "[]"] by (simp add: show_segments_def stops_def)
  then show ?thesis
    using read_ipv4_hex [of "[]" "[]"] by (simp add: parse_ip_def read_ipv6_def read_char_def)
qed

lemma show_ip_ne [simp]: "show_ip ip \<noteq> []"
  using parse_ip_show [of ip] parse_ip_Nil by force

end
