(* ===== verification/Fsutil.thy ===== *)
theory Fsutil
  imports Addr_Text Streams
begin

text \<open>
  \<^verbatim>\<open>fsutil.rs\<close>: the atomic private file.  The file system is a map from paths to files (mode and
  content); which system calls fail, and how many bytes a failing write leaves behind, is given by
  \<open>fs_faults\<close>, so every failure the code handles is a case of the model.
\<close>

section \<open>Files\<close>

record path =
  dir :: "string list"
  file_name :: string

type_synonym file_entry = "nat \<times> bytes"
type_synonym fs = "path \<Rightarrow> file_entry option"

record fs_faults =
  open_err :: "IoErr option"
  write_err :: "(nat \<times> IoErr) option"
  rename_err :: "IoErr option"
  remove_err :: "IoErr option"

definition no_faults :: fs_faults where
  "no_faults = \<lparr>open_err = None, write_err = None, rename_err = None, remove_err = None\<rparr>"

text \<open>\<^verbatim>\<open>fs::read_to_string\<close>: the content, which must be UTF-8.\<close>

definition read_to_string :: "fs \<Rightarrow> path \<Rightarrow> string option" where
  "read_to_string fs p = (case fs p of None \<Rightarrow> None | Some (_, bs) \<Rightarrow> from_utf8 bs)"

section \<open>Writing\<close>

definition pad_hex :: "nat \<Rightarrow> nat \<Rightarrow> string" where
  "pad_hex w n = replicate (w - length (show_hex n)) (CHR ''0'') @ show_hex n"

text \<open>The temporary file is a sibling of the target with a random 128-bit number in its name.\<close>

definition temporary :: "nat \<Rightarrow> path \<Rightarrow> path" where
  "temporary r p =
     \<lparr>dir = (if dir p = [] then [''.''] else dir p),
      file_name = ''.warp-socks-'' @ pad_hex 32 r @ ''.tmp''\<rparr>"

definition PRIVATE_MODE :: nat where "PRIVATE_MODE = 6 * 8 ^ 2"

definition write_private :: "fs_faults \<Rightarrow> nat \<Rightarrow> path \<Rightarrow> bytes \<Rightarrow> fs \<Rightarrow> fs \<times> (IoErr, unit) result" where
  "write_private faults r p contents fs =
     (let tmp = temporary r p in
      case open_err faults of
        Some e \<Rightarrow> (fs, Err e)
      | None \<Rightarrow>
          if fs tmp \<noteq> None then (fs, Err AlreadyExists)
          else
            let (fs, result) =
                  (case write_err faults of
                     Some (n, e) \<Rightarrow> (fs(tmp \<mapsto> (PRIVATE_MODE, take n contents)), Err e)
                   | None \<Rightarrow>
                       (case rename_err faults of
                          Some e \<Rightarrow> (fs(tmp \<mapsto> (PRIVATE_MODE, contents)), Err e)
                        | None \<Rightarrow> ((fs(tmp := None))(p \<mapsto> (PRIVATE_MODE, contents)), Ok ())))
            in if is_ok result then (fs, result)
               else ((if remove_err faults = None then fs(tmp := None) else fs), result))"

lemma write_private_Ok: "write_private faults r p contents fs = (fs', Ok ()) \<Longrightarrow> fs' p = Some (PRIVATE_MODE, contents)"
  by (auto simp: write_private_def Let_def split: option.splits if_splits)

section \<open>Property\<close>

text \<open>
  C36: replacing a private file is atomic under every failure: either the call succeeds and the
  target has the new content with the owner-only mode, or it fails and the target is as before; no
  other file changes, and the temporary name is as it was unless removing the file fails too.
\<close>

theorem write_private_atomic:
  assumes "p \<noteq> temporary r p" "write_private faults r p contents fs = (fs', res)"
  shows "fs' p = (if is_ok res then Some (PRIVATE_MODE, contents) else fs p)
    \<and> (\<forall>q. q \<noteq> p \<and> q \<noteq> temporary r p \<longrightarrow> fs' q = fs q)
    \<and> (is_ok res \<or> remove_err faults = None \<longrightarrow> fs' (temporary r p) = fs (temporary r p))"
  using assms by (cases "fs (temporary r p)") (auto simp: write_private_def Let_def split: option.splits if_splits prod.splits)

text \<open>A write that fails after one byte leaves the old content and no temporary file.\<close>

lemma write_private_atomic_witness:
  "\<exists>fs'. write_private (no_faults\<lparr>write_err := Some (1, OtherIo)\<rparr>) 7 \<lparr>dir = [''data''], file_name = ''wg0.conf''\<rparr> [1, 2, 3]
       (\<lambda>q. if file_name q = ''wg0.conf'' then Some (PRIVATE_MODE, [9]) else None) = (fs', Err OtherIo)
     \<and> fs' \<lparr>dir = [''data''], file_name = ''wg0.conf''\<rparr> = Some (PRIVATE_MODE, [9])
     \<and> fs' (temporary 7 \<lparr>dir = [''data''], file_name = ''wg0.conf''\<rparr>) = None"
proof -
  let ?p = "\<lparr>dir = [''data''], file_name = ''wg0.conf''\<rparr>"
  let ?fs = "\<lambda>q. if file_name q = ''wg0.conf'' then Some (PRIVATE_MODE, [9]) else (None :: file_entry option)"
  have ne: "?p \<noteq> temporary 7 ?p" by (simp add: temporary_def)
  obtain fs' where "write_private (no_faults\<lparr>write_err := Some (1, OtherIo)\<rparr>) 7 ?p [1, 2, 3] ?fs = (fs', Err OtherIo)"
    by (simp add: write_private_def no_faults_def temporary_def Let_def)
  from write_private_atomic [OF ne this] this show ?thesis
    by (simp add: no_faults_def) (simp add: temporary_def)
qed

end
