(* ===== verification/Wgconf.thy ===== *)
theory Wgconf
  imports Fsutil
begin

text \<open>
  The WireGuard configuration: \<^verbatim>\<open>config.rs\<close> (the run-time record and the reader of \<^verbatim>\<open>wg0.conf\<close>)
  and the part of \<^verbatim>\<open>registration/teams.rs\<close> that turns a registered account into a configuration and
  writes the snapshot.  The base64 engine is a parameter; the name service behind
  \<^verbatim>\<open>to_socket_addrs\<close> is another.
\<close>

section \<open>The configuration record\<close>

record WgConfig =
  private_key :: bytes
  peer_public_key :: bytes
  endpoint :: SocketAddr
  reserved :: "u8 \<times> u8 \<times> u8"
  address_v4 :: IpAddr
  address_v6 :: IpAddr

record b64 =
  b64_encode :: "bytes \<Rightarrow> string"
  b64_decode :: "string \<Rightarrow> bytes option"

type_synonym name_service = "string \<Rightarrow> u16 \<Rightarrow> SocketAddr list option"

datatype ConfErr =
    ReadFailed | BadBase64 | KeyLength nat | BadEndpoint string | NoAddress string | BadReserved string
  | BadAddress string | Missing string | WriteFailed IoErr

definition decode_key :: "b64 \<Rightarrow> string \<Rightarrow> (ConfErr, bytes) result" where
  "decode_key b s =
     (case b64_decode b (trim s) of
        None \<Rightarrow> Err BadBase64
      | Some raw \<Rightarrow> if length raw = 32 then Ok raw else Err (KeyLength (length raw)))"

definition first_addr :: "name_service \<Rightarrow> string \<Rightarrow> (ConfErr, SocketAddr) result" where
  "first_addr lookup s =
     (case to_socket_addrs lookup s of
        None \<Rightarrow> Err (BadEndpoint s)
      | Some [] \<Rightarrow> Err (NoAddress s)
      | Some (a # _) \<Rightarrow> Ok a)"

section \<open>Reading\<close>

record conf_fields =
  f_private :: "bytes option"
  f_public :: "bytes option"
  f_endpoint :: "SocketAddr option"
  f_reserved :: "u8 \<times> u8 \<times> u8"
  f_v4 :: "IpAddr option"
  f_v6 :: "IpAddr option"

definition no_fields :: conf_fields where
  "no_fields = \<lparr>f_private = None, f_public = None, f_endpoint = None, f_reserved = (0, 0, 0),
     f_v4 = None, f_v6 = None\<rparr>"

fun parse_reserved :: "string list \<Rightarrow> (u8 \<times> u8 \<times> u8) option" where
  "parse_reserved [a, b, c] =
     (case (parse_u8 (trim a), parse_u8 (trim b), parse_u8 (trim c)) of
        (Some x, Some y, Some z) \<Rightarrow> Some (x, y, z)
      | _ \<Rightarrow> None)"
| "parse_reserved _ = None"

definition conf_entry :: "b64 \<Rightarrow> name_service \<Rightarrow> string \<Rightarrow> string \<Rightarrow> conf_fields \<Rightarrow> (ConfErr, conf_fields) result" where
  "conf_entry b lookup key v st =
     (if key = ''PrivateKey'' then rbind (decode_key b v) (\<lambda>k. Ok (st\<lparr>f_private := Some k\<rparr>))
      else if key = ''PublicKey'' then rbind (decode_key b v) (\<lambda>k. Ok (st\<lparr>f_public := Some k\<rparr>))
      else if key = ''Endpoint'' then rbind (first_addr lookup v) (\<lambda>a. Ok (st\<lparr>f_endpoint := Some a\<rparr>))
      else if key = ''Reserved'' then
        (case parse_reserved (split_on (CHR '','') v) of
           None \<Rightarrow> Err (BadReserved v) | Some r \<Rightarrow> Ok (st\<lparr>f_reserved := r\<rparr>))
      else if key = ''Address'' then
        (case parse_ip (trim (hd (split_on (CHR ''/'') v))) of
           None \<Rightarrow> Err (BadAddress v)
         | Some ip \<Rightarrow> Ok (if is_ipv4 ip then st\<lparr>f_v4 := Some ip\<rparr> else st\<lparr>f_v6 := Some ip\<rparr>))
      else Ok st)"

definition conf_line :: "b64 \<Rightarrow> name_service \<Rightarrow> string \<Rightarrow> conf_fields \<Rightarrow> (ConfErr, conf_fields) result" where
  "conf_line b lookup line st =
     (case split_once (CHR ''='') (trim line) of
        None \<Rightarrow> Ok st
      | Some (key, v) \<Rightarrow> conf_entry b lookup (trim key) (trim v) st)"

fun conf_lines :: "b64 \<Rightarrow> name_service \<Rightarrow> string list \<Rightarrow> conf_fields \<Rightarrow> (ConfErr, conf_fields) result" where
  "conf_lines b lookup [] st = Ok st"
| "conf_lines b lookup (l # ls) st = rbind (conf_line b lookup l st) (conf_lines b lookup ls)"

definition parse_wg_conf :: "b64 \<Rightarrow> name_service \<Rightarrow> fs \<Rightarrow> path \<Rightarrow> (ConfErr, WgConfig) result" where
  "parse_wg_conf b lookup fs p =
     rbind (ok_or ReadFailed (read_to_string fs p)) (\<lambda>text.
     rbind (conf_lines b lookup (str_lines text) no_fields) (\<lambda>st.
     rbind (ok_or (Missing ''PrivateKey'') (f_private st)) (\<lambda>priv.
     rbind (ok_or (Missing ''PublicKey'') (f_public st)) (\<lambda>pub.
     rbind (ok_or (Missing ''Endpoint'') (f_endpoint st)) (\<lambda>ep.
     rbind (ok_or (Missing ''IPv4 Address'') (f_v4 st)) (\<lambda>v4.
     rbind (ok_or (Missing ''IPv6 Address'') (f_v6 st)) (\<lambda>v6.
       Ok \<lparr>private_key = priv, peer_public_key = pub, endpoint = ep, reserved = f_reserved st,
           address_v4 = v4, address_v6 = v6\<rparr>)))))))"

section \<open>From an account\<close>

record WgAccountPeer =
  public_key :: string
  endpoint_host :: string

record WgAccount =
  acc_private_key :: string
  client_id :: string
  peers :: "WgAccountPeer list"
  acc_v4 :: string
  acc_v6 :: string

text \<open>Padding to a multiple of four, decoding, and the first three bytes over zeros.\<close>

definition reserved_bytes :: "b64 \<Rightarrow> string \<Rightarrow> u8 \<times> u8 \<times> u8" where
  "reserved_bytes b cid =
     (if cid = [] then (0, 0, 0)
      else
        let padded = cid @ replicate ((4 - length cid mod 4) mod 4) (CHR ''='');
            decoded = (case b64_decode b padded of None \<Rightarrow> [] | Some d \<Rightarrow> d)
        in case decoded @ [0, 0, 0] of x # y # z # _ \<Rightarrow> (x, y, z) | _ \<Rightarrow> (0, 0, 0))"

definition DEFAULT_ENDPOINT :: string where
  "DEFAULT_ENDPOINT = ''engage.cloudflareclient.com:2408''"

definition chosen_endpoint :: "string option \<Rightarrow> string \<Rightarrow> string" where
  "chosen_endpoint override host =
     (case override of
        Some s \<Rightarrow> if s \<noteq> [] then s else if host = [] then DEFAULT_ENDPOINT else host
      | None \<Rightarrow> if host = [] then DEFAULT_ENDPOINT else host)"

text \<open>\<^verbatim>\<open>parse::<Ipv4Addr>()\<close> and \<^verbatim>\<open>parse::<Ipv6Addr>()\<close>.\<close>

definition parse_v4 :: "string \<Rightarrow> IpAddr option" where
  "parse_v4 s = (if 15 < length s then None else case read_ipv4 s of Some (ip, []) \<Rightarrow> Some ip | _ \<Rightarrow> None)"

definition parse_v6 :: "string \<Rightarrow> IpAddr option" where
  "parse_v6 s = (case read_ipv6 s of Some (ip, []) \<Rightarrow> Some ip | _ \<Rightarrow> None)"

definition build_wg_config :: "b64 \<Rightarrow> name_service \<Rightarrow> WgAccount \<Rightarrow> string option \<Rightarrow> (ConfErr, WgConfig) result" where
  "build_wg_config b lookup account override =
     (if acc_private_key account = [] then Err (Missing ''PrivateKey'')
      else
        case peers account of
          [] \<Rightarrow> Err (Missing ''Peer'')
        | peer # _ \<Rightarrow>
            if public_key peer = [] then Err (Missing ''Peer PublicKey'')
            else if acc_v4 account = [] then Err (Missing ''IPv4'')
            else if acc_v6 account = [] then Err (Missing ''IPv6'')
            else
              rbind (first_addr lookup (chosen_endpoint override (endpoint_host peer))) (\<lambda>ep.
              rbind (ok_or (BadAddress (acc_v4 account)) (parse_v4 (hd (split_on (CHR ''/'') (acc_v4 account))))) (\<lambda>v4.
              rbind (ok_or (BadAddress (acc_v6 account)) (parse_v6 (hd (split_on (CHR ''/'') (acc_v6 account))))) (\<lambda>v6.
              rbind (decode_key b (acc_private_key account)) (\<lambda>priv.
              rbind (decode_key b (public_key peer)) (\<lambda>pub.
                Ok \<lparr>private_key = priv, peer_public_key = pub, endpoint = ep,
                    reserved = reserved_bytes b (client_id account), address_v4 = v4, address_v6 = v6\<rparr>))))))"

section \<open>The snapshot\<close>

fun show_reserved :: "u8 \<times> u8 \<times> u8 \<Rightarrow> string" where
  "show_reserved (x, y, z) = show_u8 x @ '','' @ show_u8 y @ '','' @ show_u8 z"

definition wg_conf_lines :: "b64 \<Rightarrow> WgConfig \<Rightarrow> string list" where
  "wg_conf_lines b c =
     [''[Interface]'',
      ''PrivateKey = '' @ b64_encode b (private_key c),
      ''Address = '' @ show_ip (address_v4 c) @ ''/32'',
      ''Address = '' @ show_ip (address_v6 c) @ ''/128'',
      [],
      ''[Peer]'',
      ''PublicKey = '' @ b64_encode b (peer_public_key c),
      ''AllowedIPs = 0.0.0.0/0,::/0'',
      ''Endpoint = '' @ show_socket_addr (endpoint c),
      ''Reserved = '' @ show_reserved (reserved c)]"

definition write_wg_conf :: "b64 \<Rightarrow> fs_faults \<Rightarrow> nat \<Rightarrow> WgConfig \<Rightarrow> path \<Rightarrow> fs \<Rightarrow> fs \<times> (ConfErr, unit) result" where
  "write_wg_conf b faults r c p fs =
     (let text = concat (map (\<lambda>l. l @ [CHR 0x0A]) (wg_conf_lines b c));
          (fs, res) = write_private faults r p (str_bytes text) fs
      in (fs, rmap_err WriteFailed res))"

section \<open>Text the reader keeps\<close>

text \<open>What the snapshot relies on of base64: it is reversible, and its alphabet is printable ASCII.\<close>

locale b64_laws =
  fixes b :: b64
  assumes decode_encode: "b64_decode b (b64_encode b bs) = Some bs"
    and encode_graphic: "list_all graphic (b64_encode b bs)"
    and encode_ne: "bs \<noteq> [] \<Longrightarrow> b64_encode b bs \<noteq> []"

definition plain :: "char \<Rightarrow> bool" where
  "plain c \<longleftrightarrow> graphic c \<or> c = CHR '' ''"

lemma plain_ascii: "plain c \<Longrightarrow> char_byte c < 0x80"
proof -
  assume "plain c"
  then have "(of_char c :: nat) < 128" by (auto simp: plain_def graphic_def)
  moreover have "(of_char c :: u8) = word_of_nat (of_char c)" by (simp add: of_nat_of_char)
  ultimately show ?thesis by (simp add: char_byte_def word_less_nat_alt unat_of_nat)
qed

lemma read_lines:
  assumes "\<forall>l\<in>set ls. list_all plain l" "fs p = Some (m, str_bytes (concat (map (\<lambda>l. l @ [CHR 0x0A]) ls)))"
  shows "read_to_string fs p = Some (concat (map (\<lambda>l. l @ [CHR 0x0A]) ls))"
    "str_lines (concat (map (\<lambda>l. l @ [CHR 0x0A]) ls)) = ls"
proof -
  have "char_byte (CHR 0x0A) < 0x80" by (simp add: char_byte_def)
  then have "utf8_valid (str_bytes (concat (map (\<lambda>l. l @ [CHR 0x0A]) ls)))"
    using assms(1) plain_ascii by (intro utf8_valid_ascii) (auto simp: str_bytes_def list_all_iff)
  then show "read_to_string fs p = Some (concat (map (\<lambda>l. l @ [CHR 0x0A]) ls))"
    using assms(2) by (simp add: read_to_string_def from_utf8_def)
  have "\<not> plain (CHR 0x0A)" "\<not> plain (CHR 0x0D)" by (simp_all add: plain_def graphic_def)
  then show "str_lines (concat (map (\<lambda>l. l @ [CHR 0x0A]) ls)) = ls"
    using assms(1) by (intro str_lines_concat) (metis last_in_set list_all_iff)
qed

lemma trim_space:
  assumes "v \<noteq> []" "list_all graphic v"
  shows "trim (CHR '' '' # v) = v"
proof -
  have ends: "graphic (hd v)" "graphic (last v)" using assms by (auto simp: list_all_iff)
  have "lead_ws ws_seqs (CHR '' '' # v) = 1" by (simp add: lead_ws_def ws_seqs_def)
  moreover have "lead_ws ws_seqs v = 0"
    using lead_ws_0 [of ws_seqs v] ws_seqs_ends ends(1) by blast
  ultimately have "trim_start (CHR '' '' # v) = v"
    using strip_lead.simps [of ws_seqs "CHR '' '' # v"] strip_lead.simps [of ws_seqs v]
    by (simp add: trim_start_def)
  then show ?thesis using ends by (simp add: trim_def)
qed

lemma trim_key: "trim (''PrivateKey '') = ''PrivateKey''" "trim (''PublicKey '') = ''PublicKey''"
  "trim (''Endpoint '') = ''Endpoint''" "trim (''Reserved '') = ''Reserved''" "trim (''Address '') = ''Address''"
  "trim (''AllowedIPs '') = ''AllowedIPs''"
  by (simp_all add: str_eval)

lemma conf_line_value:
  assumes "v \<noteq> []" "list_all graphic v" "CHR ''='' \<notin> set key" "key \<noteq> []" "graphic (hd key)"
  shows "conf_line b lookup (key @ ''= '' @ v) st = conf_entry b lookup (trim key) v st"
proof -
  have "trim (key @ ''= '' @ v) = key @ ''= '' @ v"
    using assms by (intro trim_graphic) (auto simp: list_all_iff)
  then show ?thesis
    using trim_space [OF assms(1,2)] assms(3) by (simp add: conf_line_def)
qed

lemmas conf_line_key =
  conf_line_value [of _ "''PrivateKey ''", unfolded trim_key] conf_line_value [of _ "''PublicKey ''", unfolded trim_key]
  conf_line_value [of _ "''Endpoint ''", unfolded trim_key] conf_line_value [of _ "''Reserved ''", unfolded trim_key]
  conf_line_value [of _ "''Address ''", unfolded trim_key] conf_line_value [of _ "''AllowedIPs ''", unfolded trim_key]

lemma conf_line_section: "conf_line b lookup ''[Interface]'' st = Ok st" "conf_line b lookup ''[Peer]'' st = Ok st"
  "conf_line b lookup [] st = Ok st"
  by (simp_all add: conf_line_def str_eval)

lemma digits_graphic: "list_all graphic (show_nat n)"
  using show_nat_digits [of n] is_digit_graphic by (auto simp: list_all_iff)

lemma addr_graphic: "list_all graphic (show_ip ip)" "CHR ''/'' \<notin> set (show_ip ip)"
  "list_all graphic (show_socket_addr a)"
proof -
  show ip: "list_all graphic (show_ip ip)" "CHR ''/'' \<notin> set (show_ip ip)" for ip
    using show_ip_addr [of ip] addr_char_graphic by (auto simp: list_all_iff)
  obtain i p where "a = SockAddr i p" by (cases a)
  then show "list_all graphic (show_socket_addr a)"
    using ip(1) [of i] digits_graphic by (simp add: show_u16_def graphic_def)
qed

lemma show_socket_addr_ne [simp]: "show_socket_addr a \<noteq> []"
  by (cases a) auto

lemma trim_show_ip: "trim (show_ip ip) = show_ip ip"
  using addr_graphic(1) [of ip] by (intro trim_graphic) (auto simp: list_all_iff)

lemma conf_entry_Address:
  assumes "list_all graphic suffix"
  shows "conf_line b lookup (''Address = '' @ show_ip ip @ ''/'' @ suffix) st
    = Ok (if is_ipv4 ip then st\<lparr>f_v4 := Some ip\<rparr> else st\<lparr>f_v6 := Some ip\<rparr>)"
proof -
  have "hd (split_on (CHR ''/'') (show_ip ip @ ''/'' @ suffix)) = show_ip ip"
    using split_on_append_delim [OF addr_graphic(2)] by simp
  moreover have "list_all graphic (show_ip ip @ ''/'' @ suffix)"
    using addr_graphic(1) [of ip] assms by (simp add: graphic_def)
  ultimately show ?thesis
    using conf_line_key(5) [of "show_ip ip @ ''/'' @ suffix" b lookup st] trim_show_ip [of ip]
    by (simp add: conf_entry_def graphic_def)
qed

lemma conf_entry_Reserved:
  "conf_line b lookup (''Reserved = '' @ show_reserved r) st = Ok (st\<lparr>f_reserved := r\<rparr>)"
proof (cases r)
  case (fields x y z)
  have "CHR '','' \<notin> set (show_nat n)" for n
    using show_nat_addr [of n] addr_char_graphic by (auto simp: list_all_iff)
  then have "split_on (CHR '','') (show_reserved r) = [show_u8 x, show_u8 y, show_u8 z]"
    by (simp add: fields show_u8_def split_on_append_delim)
  moreover have "trim (show_u8 w) = show_u8 w" for w by (simp add: show_u8_def)
  moreover have "show_reserved r \<noteq> []" "list_all graphic (show_reserved r)"
    using digits_graphic by (auto simp: fields show_u8_def graphic_def)
  ultimately show ?thesis
    using conf_line_key(4) [of "show_reserved r" b lookup st]
    by (simp add: conf_entry_def graphic_def fields)
qed

lemma conf_entry_Endpoint:
  "conf_line b lookup (''Endpoint = '' @ show_socket_addr a) st = Ok (st\<lparr>f_endpoint := Some a\<rparr>)"
  using conf_line_key(3) [of "show_socket_addr a" b lookup st] addr_graphic(3) [of a]
  by (simp add: conf_entry_def first_addr_def graphic_def)

lemma conf_entry_AllowedIPs: "conf_line b lookup ''AllowedIPs = 0.0.0.0/0,::/0'' st = Ok st"
  using conf_line_key(6) [of "''0.0.0.0/0,::/0''" b lookup st] by (simp add: conf_entry_def graphic_def)

definition wf_config :: "WgConfig \<Rightarrow> bool" where
  "wf_config c \<longleftrightarrow>
     length (private_key c) = 32 \<and> length (peer_public_key c) = 32
     \<and> is_ipv4 (address_v4 c) \<and> \<not> is_ipv4 (address_v6 c)"

context b64_laws
begin

lemma decode_key_encode:
  assumes "length bs = 32"
  shows "decode_key b (b64_encode b bs) = Ok bs"
proof -
  have "trim (b64_encode b bs) = b64_encode b bs"
    using encode_graphic [of bs] by (intro trim_graphic) (auto simp: list_all_iff)
  then show ?thesis using assms decode_encode by (simp add: decode_key_def)
qed

lemma conf_entry_keys:
  assumes "length bs = 32"
  shows "conf_line b lookup (''PrivateKey = '' @ b64_encode b bs) st = Ok (st\<lparr>f_private := Some bs\<rparr>)"
    "conf_line b lookup (''PublicKey = '' @ b64_encode b bs) st = Ok (st\<lparr>f_public := Some bs\<rparr>)"
proof -
  have "bs \<noteq> []" using assms by auto
  then have "b64_encode b bs \<noteq> []" by (rule encode_ne)
  then show "conf_line b lookup (''PrivateKey = '' @ b64_encode b bs) st = Ok (st\<lparr>f_private := Some bs\<rparr>)"
    "conf_line b lookup (''PublicKey = '' @ b64_encode b bs) st = Ok (st\<lparr>f_public := Some bs\<rparr>)"
    using conf_line_key(1,2) [of "b64_encode b bs" b lookup st] encode_graphic [of bs] decode_key_encode [OF assms]
    by (simp_all add: conf_entry_def graphic_def)
qed

lemma written_plain: "\<forall>l\<in>set (wg_conf_lines b c). list_all plain l"
proof -
  have g: "list_all graphic s \<Longrightarrow> list_all plain s" for s by (auto simp: list_all_iff plain_def)
  obtain x y z where r: "reserved c = (x, y, z)" by (cases "reserved c")
  have "list_all plain ''[Interface]''" "list_all plain ''PrivateKey = ''" "list_all plain ''Address = ''"
    "list_all plain ''/32''" "list_all plain ''/128''" "list_all plain ''[Peer]''" "list_all plain ''PublicKey = ''"
    "list_all plain ''AllowedIPs = 0.0.0.0/0,::/0''" "list_all plain ''Endpoint = ''" "list_all plain ''Reserved = ''"
    "list_all plain '',''" "list_all plain []"
    by (simp_all add: plain_def graphic_def)
  then show ?thesis
    using addr_graphic(1,3) [THEN g] digits_graphic [THEN g] encode_graphic [THEN g]
    by (simp only: wg_conf_lines_def r show_reserved.simps show_u8_def list_all_append
        list.set insert_iff empty_iff simp_thms ball_simps)
qed

lemma conf_lines_written:
  assumes "wf_config c"
  shows "conf_lines b lookup (wg_conf_lines b c) no_fields
      = Ok \<lparr>f_private = Some (private_key c), f_public = Some (peer_public_key c), f_endpoint = Some (endpoint c),
            f_reserved = reserved c, f_v4 = Some (address_v4 c), f_v6 = Some (address_v6 c)\<rparr>"
proof -
  have "list_all graphic ''32''" "list_all graphic ''128''" by (simp_all add: graphic_def)
  note a = this [THEN conf_entry_Address]
  have slash: "''/32'' = ''/'' @ ''32''" "''/128'' = ''/'' @ ''128''" by simp_all
  note k = conf_entry_keys [of "private_key c"] conf_entry_keys [of "peer_public_key c"]
  have wf: "length (private_key c) = 32" "length (peer_public_key c) = 32" "is_ipv4 (address_v4 c)" "\<not> is_ipv4 (address_v6 c)"
    using assms by (simp_all add: wf_config_def)
  show ?thesis
    unfolding wg_conf_lines_def conf_lines.simps conf_line_section rbind_simps k(1) [OF wf(1)] slash a
      k(4) [OF wf(2)] conf_entry_AllowedIPs conf_entry_Endpoint conf_entry_Reserved
    using wf(3,4) by (simp add: no_fields_def)
qed

end

lemma parse_written:
  assumes "b64_laws b" "wf_config c" "fs p = Some (m, str_bytes (concat (map (\<lambda>l. l @ [CHR 0x0A]) (wg_conf_lines b c))))"
  shows "parse_wg_conf b lookup fs p = Ok c"
proof -
  note r = read_lines [OF b64_laws.written_plain [OF assms(1)], of fs p m c]
  show ?thesis
    unfolding parse_wg_conf_def r(1) [OF assms(3)] ok_or_simps rbind_simps r(2) [OF assms(3)]
      b64_laws.conf_lines_written [OF assms(1,2)]
    by simp
qed

section \<open>A configuration built from an account is well formed\<close>

lemma read_ipv4_v4: "read_ipv4 s = Some (ip, t) \<Longrightarrow> is_ipv4 ip"
  by (auto simp: read_ipv4_def split: option.splits)

lemma v6_of_segments_v6: "v6_of_segments gs = Some ip \<Longrightarrow> \<not> is_ipv4 ip"
  by (induction gs rule: v6_of_segments.induct) auto

lemma read_ipv6_v6: "read_ipv6 s = Some (ip, t) \<Longrightarrow> \<not> is_ipv4 ip"
  using v6_of_segments_v6 by (auto simp: read_ipv6_def Let_def split: prod.splits if_splits option.splits)

lemma decode_key_length: "decode_key b s = Ok k \<Longrightarrow> length k = 32"
  by (auto simp: decode_key_def split: option.splits if_splits)

lemma parse_family: "parse_v4 s = Some ip \<Longrightarrow> is_ipv4 ip" "parse_v6 s = Some ip \<Longrightarrow> \<not> is_ipv4 ip"
  by (auto simp: parse_v4_def parse_v6_def dest: read_ipv4_v4 read_ipv6_v6 split: option.splits list.splits if_splits)

lemma build_wg_config_wf: "build_wg_config b lookup account override = Ok c \<Longrightarrow> wf_config c"
  by (auto simp: build_wg_config_def wf_config_def rbind_Inr_iff ok_or_Inr_iff
      dest: decode_key_length parse_family split: list.splits if_splits)

lemma write_wg_conf_Ok:
  assumes "write_wg_conf b faults r c p fs = (fs', Ok ())"
  shows "fs' p = Some (PRIVATE_MODE, str_bytes (concat (map (\<lambda>l. l @ [CHR 0x0A]) (wg_conf_lines b c))))"
  using assms by (auto simp: write_wg_conf_def Let_def dest!: write_private_Ok split: prod.splits)

section \<open>A base64-like engine\<close>

text \<open>An engine with the laws: two letters per byte.\<close>

fun pair_decode :: "string \<Rightarrow> bytes option" where
  "pair_decode [] = Some []"
| "pair_decode [_] = None"
| "pair_decode (c # d # s) =
     map_option (\<lambda>bs. of_nat (16 * ((of_char c :: nat) - 65) + ((of_char d :: nat) - 65)) # bs) (pair_decode s)"

definition pair_encode :: "bytes \<Rightarrow> string" where
  "pair_encode bs = concat (map (\<lambda>x. [char_of (65 + unat x div 16), char_of (65 + unat x mod 16)]) bs)"

definition pair_b64 :: b64 where
  "pair_b64 = \<lparr>b64_encode = pair_encode, b64_decode = pair_decode\<rparr>"

lemma pair_byte:
  fixes x :: u8
  shows "(of_char (char_of (65 + unat x div 16) :: char) :: nat) = 65 + unat x div 16"
    "(of_char (char_of (65 + unat x mod 16) :: char) :: nat) = 65 + unat x mod 16"
    "unat x div 16 < 16"
proof -
  have "unat x < 256" using unsigned_less [of x, where 'a = nat] by simp
  then show d: "unat x div 16 < 16" by (simp add: less_mult_imp_div_less)
  show "(of_char (char_of (65 + unat x div 16) :: char) :: nat) = 65 + unat x div 16"
    "(of_char (char_of (65 + unat x mod 16) :: char) :: nat) = 65 + unat x mod 16"
    using d by (simp_all add: of_char_of take_bit_nat_eq_self)
qed

lemma pair_encode_Cons:
  "pair_encode (x # bs) = char_of (65 + unat x div 16) # char_of (65 + unat x mod 16) # pair_encode bs"
  by (simp add: pair_encode_def)

interpretation pair: b64_laws pair_b64
proof
  fix bs :: bytes
  show "b64_decode pair_b64 (b64_encode pair_b64 bs) = Some bs"
  proof (induction bs)
    case (Cons x bs)
    have "(16 * ((of_char (char_of (65 + unat x div 16) :: char) :: nat) - 65)
        + ((of_char (char_of (65 + unat x mod 16) :: char) :: nat) - 65)) = unat x"
      unfolding pair_byte by simp
    then have "(of_nat (16 * ((of_char (char_of (65 + unat x div 16) :: char) :: nat) - 65)
        + ((of_char (char_of (65 + unat x mod 16) :: char) :: nat) - 65)) :: u8) = x"
      by (simp only: of_nat_unat ucast_id)
    with Cons show ?case by (simp add: pair_b64_def pair_encode_Cons del: of_char_of of_nat_add of_nat_mult)
  qed (simp add: pair_b64_def pair_encode_def)
  show "list_all graphic (b64_encode pair_b64 bs)"
  proof (induction bs)
    case (Cons x bs)
    have "unat x mod 16 < 16" by simp
    with Cons pair_byte [of x] show ?case by (simp add: pair_b64_def pair_encode_def graphic_def)
  qed (simp add: pair_b64_def pair_encode_def)
  show "bs \<noteq> [] \<Longrightarrow> b64_encode pair_b64 bs \<noteq> []"
    by (cases bs) (simp_all add: pair_b64_def pair_encode_def)
qed

section \<open>Property\<close>

text \<open>
  C26: the configuration a registered account gives is what the snapshot written from it says: once
  \<^verbatim>\<open>write_wg_conf\<close> has succeeded, reading the file back yields the same keys, addresses, reserved bytes
  and endpoint, without asking a name service.
\<close>

theorem snapshot_reads_back:
  assumes "b64_laws b" "build_wg_config b lookup account override = Ok c"
    "write_wg_conf b faults r c p fs = (fs', Ok ())"
  shows "parse_wg_conf b lookup' fs' p = Ok c"
  using parse_written [of b c fs' p PRIVATE_MODE lookup'] assms build_wg_config_wf write_wg_conf_Ok by metis

lemma snapshot_reads_back_witness:
  "\<exists>c fs'. build_wg_config pair_b64 (\<lambda>_ _. None)
       \<lparr>acc_private_key = b64_encode pair_b64 (replicate 32 1), client_id = [],
        peers = [\<lparr>public_key = b64_encode pair_b64 (replicate 32 2), endpoint_host = []\<rparr>],
        acc_v4 = show_ip (V4 10 0 0 2) @ ''/32'', acc_v6 = show_ip (V6 0xfd00 0 0 0 0 0 0 2)\<rparr>
       (Some (show_socket_addr (SockAddr (V4 1 2 3 4) 2408))) = Ok c
     \<and> address_v4 c = V4 10 0 0 2 \<and> address_v6 c = V6 0xfd00 0 0 0 0 0 0 2
     \<and> write_wg_conf pair_b64 no_faults 7 c \<lparr>dir = [], file_name = ''wg0.conf''\<rparr> (\<lambda>_. None) = (fs', Ok ())
     \<and> parse_wg_conf pair_b64 (\<lambda>_ _. None) fs' \<lparr>dir = [], file_name = ''wg0.conf''\<rparr> = Ok c"
proof -
  let ?acc = "\<lparr>acc_private_key = b64_encode pair_b64 (replicate 32 1), client_id = [],
        peers = [\<lparr>public_key = b64_encode pair_b64 (replicate 32 2), endpoint_host = []\<rparr>],
        acc_v4 = show_ip (V4 10 0 0 2) @ ''/32'', acc_v6 = show_ip (V6 0xfd00 0 0 0 0 0 0 2)\<rparr>"
  let ?p = "\<lparr>dir = [], file_name = ''wg0.conf''\<rparr>"
  let ?c = "\<lparr>private_key = replicate 32 1, peer_public_key = replicate 32 2, endpoint = SockAddr (V4 1 2 3 4) 2408,
      reserved = (0, 0, 0), address_v4 = V4 10 0 0 2, address_v6 = V6 0xfd00 0 0 0 0 0 0 2\<rparr>"
  have v4: "parse_v4 (show_ip (V4 10 0 0 2)) = Some (V4 10 0 0 2)"
    using read_ipv4_show [of "[]" 10 0 0 2] by (simp add: parse_v4_def) (simp add: show_v4_def show_u8_def show_nat.simps)
  have v6: "parse_v6 (show_ip ip) = Some ip" if "\<not> is_ipv4 ip" for ip
    using read_ipv6_show [OF that, of "[]"] by (simp add: parse_v6_def stops_def)
  have slash: "hd (split_on (CHR ''/'') (show_ip ip @ ''/32'')) = show_ip ip"
    "hd (split_on (CHR ''/'') (show_ip ip)) = show_ip ip" for ip
    using split_on_append_delim [OF addr_graphic(2), of ip "''32''"] addr_graphic(2) [of ip] by simp_all
  have "\<not> is_ipv4 (V6 0xfd00 0 0 0 0 0 0 2)" by simp
  note v6 [OF this]
  then have built: "build_wg_config pair_b64 (\<lambda>_ _. None) ?acc (Some (show_socket_addr (SockAddr (V4 1 2 3 4) 2408))) = Ok ?c"
    using v4 slash pair.decode_key_encode [of "replicate 32 1"] pair.decode_key_encode [of "replicate 32 2"]
      pair.encode_ne [of "replicate 32 1"] pair.encode_ne [of "replicate 32 2"]
    by (simp del: show_ip.simps show_socket_addr.simps
        add: build_wg_config_def first_addr_def chosen_endpoint_def reserved_bytes_def)
  obtain fs' where w: "write_wg_conf pair_b64 no_faults 7 ?c ?p (\<lambda>_. None) = (fs', Ok ())"
    by (simp add: write_wg_conf_def write_private_def no_faults_def Let_def)
  from snapshot_reads_back [OF pair.b64_laws_axioms built w, of "\<lambda>_ _. None"] built w show ?thesis
    by (intro exI [of _ ?c] exI [of _ fs']) simp
qed

end
