(* ===== verification/Registration.thy ===== *)
theory Registration
  imports Wgconf
begin

text \<open>
  \<^verbatim>\<open>registration/teams.rs\<close> and \<^verbatim>\<open>registration/masque.rs\<close>: how accounts and credentials are obtained, kept
  and given up.  The HTTP service is a function from requests to replies, the JSON library the
  functions that read and print the modelled structures, the cryptographic libraries a record of
  their operations; none of these is code of this repository.
\<close>

section \<open>Teams accounts\<close>

datatype RegErr =
    NoToken | TokenSpace | TokenIsLink | TokenFormat | BadAccount | TokenExpired | OutOfRetries
  | SaveFailed IoErr | SendFailed string | BodyFailed string | ApiStatus string nat | BadJson string
  | NoSpki | NoPkcs8 | BadPem string | BadKey | BadPinned | NoCert | NoFile | NoIdent | RemoveFailed IoErr

definition token_char :: "char \<Rightarrow> bool" where
  "token_char c \<longleftrightarrow>
     (let n = of_char c :: nat in
      48 \<le> n \<and> n \<le> 57 \<or> 65 \<le> n \<and> n \<le> 90 \<or> 97 \<le> n \<and> n \<le> 122 \<or> c = CHR ''-'' \<or> c = CHR ''_'')"

definition parse_token :: "string \<Rightarrow> (RegErr, string) result" where
  "parse_token raw =
     (if raw = [] then Err NoToken
      else if raw \<noteq> trim raw then Err TokenSpace
      else if contains_sub ''token='' raw \<or> is_prefix ''com.cloudflare.warp://'' raw then Err TokenIsLink
      else
        case split_on (CHR ''.'') raw of
          [a, b, c] \<Rightarrow> if \<forall>p\<in>set [a, b, c]. p \<noteq> [] \<and> list_all token_char p then Ok raw else Err TokenFormat
        | _ \<Rightarrow> Err TokenFormat)"

definition CHARSET :: string where
  "CHARSET = ''ABCDEFGHIJKLMNOPQRSTUVWXYZabcdefghijklmnopqrstuvwxyz0123456789''"

text \<open>\<^verbatim>\<open>random_alnum\<close> on the random choices it makes.\<close>

definition random_alnum :: "nat list \<Rightarrow> string" where
  "random_alnum choices = map (\<lambda>i. CHARSET ! (i mod length CHARSET)) choices"

definition pad_dec :: "nat \<Rightarrow> nat \<Rightarrow> string" where
  "pad_dec w n = replicate (w - length (show_nat n)) (CHR ''0'') @ show_nat n"

text \<open>\<^verbatim>\<open>current_tos\<close> on the calendar fields of the current time.\<close>

fun current_tos :: "nat \<times> nat \<times> nat \<times> nat \<times> nat \<times> nat \<Rightarrow> string" where
  "current_tos (y, mo, d, h, mi, s) =
     pad_dec 4 y @ ''-'' @ pad_dec 2 mo @ ''-'' @ pad_dec 2 d @ ''T'' @ pad_dec 2 h @ '':''
     @ pad_dec 2 mi @ '':'' @ pad_dec 2 s @ ''.000Z''"

record TeamsRegisterRequest =
  device_key :: string
  install_id :: string
  fcm_token :: string
  tos :: string
  model :: string
  serial_number :: string
  locale_name :: string

text \<open>What one request came to: a response with its \<^verbatim>\<open>Retry-After\<close> field, or no response.\<close>

datatype teams_reply = TeamsReply (reply_status: nat) (reply_retry: "string option") (reply_body: string)
  | NoReply string

record TeamsRegistrar =
  teams_token :: string
  account_path :: path
  retries :: nat
  retry_delay :: nat

definition TeamsRegistrar_new :: "string \<Rightarrow> path \<Rightarrow> TeamsRegistrar" where
  "TeamsRegistrar_new t p = \<lparr>teams_token = t, account_path = p, retries = 2, retry_delay = 2\<rparr>"

record account_json =
  has_account :: "string \<Rightarrow> bool"
  account_of :: "string \<Rightarrow> WgAccount option"
  account_text :: "WgAccount \<Rightarrow> bytes"
  account_of_slice :: "bytes \<Rightarrow> WgAccount option"

definition account_save ::
  "account_json \<Rightarrow> fs_faults \<Rightarrow> nat \<Rightarrow> WgAccount \<Rightarrow> path \<Rightarrow> fs \<Rightarrow> fs \<times> (RegErr, unit) result" where
  "account_save json faults rnd a p fs =
     (let (fs, res) = write_private faults rnd p (account_text json a) fs in (fs, rmap_err SaveFailed res))"

definition account_load :: "account_json \<Rightarrow> fs \<Rightarrow> path \<Rightarrow> (RegErr, WgAccount) result" where
  "account_load json fs p =
     rbind (ok_or NoFile (fs p)) (\<lambda>(_, data). ok_or (BadJson ''account'') (account_of_slice json data))"

definition DURATION_MAX_SECS :: nat where "DURATION_MAX_SECS = 2 ^ 64 - 1"

text \<open>The delay before the next attempt, in seconds.\<close>

definition retry_wait :: "nat \<Rightarrow> nat \<Rightarrow> teams_reply \<Rightarrow> nat" where
  "retry_wait base attempt reply =
     (let delay = min DURATION_MAX_SECS (base * attempt) in
      case reply of
        TeamsReply _ (Some v) _ \<Rightarrow>
          (case parse_u64 (trim v) of None \<Rightarrow> delay | Some s \<Rightarrow> max delay (unat s))
      | _ \<Rightarrow> delay)"

text \<open>
  The request loop.  \<open>api n\<close> is the outcome of the \<open>n\<close>-th request; the result carries the waits
  between requests.
\<close>

function register_loop ::
  "account_json \<Rightarrow> (nat \<Rightarrow> teams_reply) \<Rightarrow> fs_faults \<Rightarrow> nat \<Rightarrow> TeamsRegistrar \<Rightarrow> string \<Rightarrow> nat \<Rightarrow> fs
     \<Rightarrow> fs \<times> nat list \<times> (RegErr, WgAccount) result" where
  "register_loop json api faults rnd reg private_b64 attempt fs =
     (let reply = api attempt;
          expired =
            (case reply of
               TeamsReply st _ body \<Rightarrow> st = 401 \<and> contains_sub ''token is expired'' body
             | NoReply _ \<Rightarrow> False)
      in case reply of
           TeamsReply st _ body \<Rightarrow>
             if st = 200 \<and> has_account json body then
               (case account_of json body of
                  None \<Rightarrow> (fs, [], Err BadAccount)
                | Some account \<Rightarrow>
                    let account = account\<lparr>acc_private_key := private_b64\<rparr>;
                        (fs, res) = account_save json faults rnd account (account_path reg) fs
                    in (fs, [], rbind res (\<lambda>_. Ok account)))
             else if expired then (fs, [], Err TokenExpired)
             else if max 1 (retries reg) \<le> attempt then (fs, [], Err OutOfRetries)
             else
               let (fs, waits, r) = register_loop json api faults rnd reg private_b64 (Suc attempt) fs
               in (fs, retry_wait (retry_delay reg) attempt reply # waits, r)
         | NoReply _ \<Rightarrow>
             if max 1 (retries reg) \<le> attempt then (fs, [], Err OutOfRetries)
             else
               let (fs, waits, r) = register_loop json api faults rnd reg private_b64 (Suc attempt) fs
               in (fs, retry_wait (retry_delay reg) attempt reply # waits, r))"
  by pat_completeness auto
termination
  by (relation "measure (\<lambda>(_, _, _, _, reg, _, attempt, _). max 1 (retries reg) - attempt)") auto

declare register_loop.simps [simp del]

definition REGISTER_URL :: string where
  "REGISTER_URL = ''https://api.cloudflareclient.com/v0a2158/reg''"

text \<open>
  \<^verbatim>\<open>TeamsRegistrar::register\<close>: the key pair and the identifiers are given; \<open>api\<close> is the service, a function
  of the address, the token in the header, the request and its number.
\<close>

definition teams_request :: "b64 \<Rightarrow> bytes \<Rightarrow> nat list \<Rightarrow> nat list \<Rightarrow> nat \<times> nat \<times> nat \<times> nat \<times> nat \<times> nat \<Rightarrow> TeamsRegisterRequest" where
  "teams_request b public r22 r134 now =
     (let iid = random_alnum r22 in
      \<lparr>device_key = b64_encode b public, install_id = iid, fcm_token = iid @ '':APA91b'' @ random_alnum r134,
       tos = current_tos now, model = ''PC'', serial_number = iid, locale_name = ''zh_CN''\<rparr>)"

definition teams_register ::
  "b64 \<Rightarrow> account_json \<Rightarrow> (string \<Rightarrow> string \<Rightarrow> TeamsRegisterRequest \<Rightarrow> nat \<Rightarrow> teams_reply) \<Rightarrow> fs_faults \<Rightarrow> nat
     \<Rightarrow> bytes \<times> bytes \<Rightarrow> nat list \<times> nat list \<Rightarrow> (nat \<Rightarrow> nat \<times> nat \<times> nat \<times> nat \<times> nat \<times> nat)
     \<Rightarrow> TeamsRegistrar \<Rightarrow> fs \<Rightarrow> fs \<times> nat list \<times> (RegErr, WgAccount) result" where
  "teams_register b json api faults rnd keys ids now reg fs =
     (case parse_token (teams_token reg) of
        Inl e \<Rightarrow> (fs, [], Err e)
      | Inr raw \<Rightarrow>
          register_loop json (\<lambda>n. api REGISTER_URL raw (teams_request b (snd keys) (fst ids) (snd ids) (now n)) n) faults rnd reg
            (b64_encode b (fst keys)) 1 fs)"

section \<open>MASQUE credentials\<close>

record Registration =
  reg_id :: string
  reg_token :: string
  reg_account :: string
  key_type :: string
  tunnel_type :: string
  reg_private_key :: string
  endpoint_v4 :: string
  endpoint_v6 :: string
  endpoint_ports :: "u16 list"
  reg_peer_public_key :: string
  assigned_ipv4 :: string
  assigned_ipv6 :: string

record RegCredentials =
  registration :: Registration
  client_cert_der :: bytes
  client_key_der :: bytes
  pinned_spki_der :: bytes

record Peer =
  peer_pem :: string
  peer_v4 :: string
  peer_v6 :: string
  peer_ports :: "int list"

record EnrollConfig =
  cfg_peers :: "Peer list"
  cfg_v4 :: string
  cfg_v6 :: string

record RegResult =
  res_id :: string
  res_token :: string
  res_account :: string
  res_key_type :: string
  res_tunnel_type :: string
  res_config :: "EnrollConfig option"

text \<open>What is put into a certificate; times are in seconds.\<close>

record CertificateParams =
  common_name :: string
  not_before :: nat
  not_after :: nat
  cert_is_ca :: bool
  key_usages :: "string list"
  extended_key_usages :: "string list"
  serial_number :: u64

text \<open>Signing keys \<open>'k\<close> and verifying keys \<open>'v\<close> of the elliptic-curve library, and the certificate library.\<close>

record ('k, 'v) crypto =
  verifying_key :: "'k \<Rightarrow> 'v"
  public_key_der :: "'v \<Rightarrow> bytes option"
  public_key_of_pem :: "string \<Rightarrow> 'v option"
  pkcs8_der :: "'k \<Rightarrow> bytes option"
  from_pkcs8_der :: "bytes \<Rightarrow> 'k option"
  self_signed :: "CertificateParams \<Rightarrow> bytes \<Rightarrow> bytes \<Rightarrow> bytes option"

text \<open>When a certificate is made and what the signer draws for it: signatures are randomised.\<close>

type_synonym issue = "nat \<times> bytes"

record RegisterRequest =
  rq_key :: string
  rq_install_id :: string
  rq_fcm_token :: string
  rq_tos :: string
  rq_model :: string
  rq_serial_number :: string
  rq_os_version :: string
  rq_key_type :: string
  rq_tunnel_type :: string
  rq_locale :: string
  rq_warp_enabled :: bool

record EnrollRequest =
  eq_key :: string
  eq_key_type :: string
  eq_tunnel_type :: string

definition API_BASE :: string where
  "API_BASE = ''https://api.cloudflareclient.com/v0''"

text \<open>The three calls: address, the \<^verbatim>\<open>Authorization\<close> field where there is one, and the body.\<close>

datatype ApiRequest =
    PostReg string RegisterRequest
  | PatchReg string string EnrollRequest
  | DeleteReg string string

definition reg_url :: "string \<Rightarrow> string" where
  "reg_url i = API_BASE @ ''/reg/'' @ i"

definition bearer :: "string \<Rightarrow> string" where
  "bearer t = ''Bearer '' @ t"

text \<open>The first request, on the random key and serial number and the current time.\<close>

definition register_request :: "b64 \<Rightarrow> bytes \<Rightarrow> bytes \<Rightarrow> string \<Rightarrow> ApiRequest" where
  "register_request b wg_public serial tos_now =
     PostReg (API_BASE @ ''/reg'')
       \<lparr>rq_key = b64_encode b wg_public, rq_install_id = [], rq_fcm_token = [], rq_tos = tos_now, rq_model = ''PC'',
        rq_serial_number = b64_encode b serial, rq_os_version = [], rq_key_type = ''curve25519'',
        rq_tunnel_type = ''wireguard'', rq_locale = ''en_US'', rq_warp_enabled = True\<rparr>"

definition enroll_request :: "b64 \<Rightarrow> RegResult \<Rightarrow> bytes \<Rightarrow> ApiRequest" where
  "enroll_request b step1 spki =
     PatchReg (reg_url (res_id step1)) (bearer (res_token step1))
       \<lparr>eq_key = b64_encode b spki, eq_key_type = ''secp256r1'', eq_tunnel_type = ''masque''\<rparr>"

datatype ApiReply = NoResponse | NoBody nat | Response nat string

record reg_json =
  result_of :: "string \<Rightarrow> RegResult option"
  reg_text :: "Registration \<Rightarrow> bytes"
  reg_of :: "bytes \<Rightarrow> Registration option"
  ident_of :: "bytes \<Rightarrow> (string \<times> string) option"

text \<open>\<^verbatim>\<open>strip_host\<close>: without brackets and port.\<close>

definition strip_host :: "string \<Rightarrow> string" where
  "strip_host s =
     (let s = trim s in
      if s = [] then []
      else
        case (case strip_prefix ''['' s of None \<Rightarrow> None | Some rest \<Rightarrow> split_once (CHR '']'') rest) of
          Some (host, _) \<Rightarrow> host
        | None \<Rightarrow> hd (split_on (CHR '':'') s))"

text \<open>\<^verbatim>\<open>as u16\<close> of a 64-bit port keeps the low 16 bits.\<close>

definition ports_u16 :: "int list \<Rightarrow> u16 list" where
  "ports_u16 ps = map word_of_int ps"

definition client_cn :: "string \<Rightarrow> string" where
  "client_cn i = i @ ''.masque2.cloudflareclient.com''"

definition client_params :: "string \<Rightarrow> nat \<Rightarrow> CertificateParams" where
  "client_params i now =
     \<lparr>common_name = client_cn i, not_before = now, not_after = now + 24 * 60 * 60, cert_is_ca = False,
      key_usages = [''DigitalSignature''], extended_key_usages = [''ClientAuth''], serial_number = of_nat now\<rparr>"

definition build_client_cert :: "('k, 'v) crypto \<Rightarrow> issue \<Rightarrow> string \<Rightarrow> 'k \<Rightarrow> (RegErr, bytes) result" where
  "build_client_cert c iss i k =
     rbind (ok_or NoPkcs8 (pkcs8_der c k)) (\<lambda>der. ok_or NoCert (self_signed c (client_params i (fst iss)) (snd iss) der))"

definition build_credentials :: "b64 \<Rightarrow> ('k, 'v) crypto \<Rightarrow> issue \<Rightarrow> Registration \<Rightarrow> 'k \<Rightarrow> (RegErr, RegCredentials) result" where
  "build_credentials b c iss reg k =
     rbind (build_client_cert c iss (reg_id reg) k) (\<lambda>cert.
     rbind (if reg_peer_public_key reg = [] then Ok []
            else ok_or BadPinned (b64_decode b (reg_peer_public_key reg))) (\<lambda>pinned.
     rbind (ok_or NoPkcs8 (pkcs8_der c k)) (\<lambda>der.
       Ok \<lparr>registration = reg, client_cert_der = cert, client_key_der = der, pinned_spki_der = pinned\<rparr>)))"

definition call_api :: "(ApiRequest \<Rightarrow> ApiReply) \<Rightarrow> string \<Rightarrow> ApiRequest \<Rightarrow> (RegErr, string) result" where
  "call_api api what req =
     (case api req of
        NoResponse \<Rightarrow> Err (SendFailed what)
      | NoBody _ \<Rightarrow> Err (BodyFailed what)
      | Response st body \<Rightarrow> if 200 \<le> st \<and> st < 300 then Ok body else Err (ApiStatus what st))"

text \<open>The part of the second answer that describes the edge.\<close>

definition edge_of :: "b64 \<Rightarrow> ('k, 'v) crypto \<Rightarrow> Peer \<Rightarrow> Registration \<Rightarrow> (RegErr, Registration) result" where
  "edge_of b c peer reg =
     (let reg = reg\<lparr>endpoint_v4 := strip_host (peer_v4 peer), endpoint_v6 := strip_host (peer_v6 peer),
                    endpoint_ports := ports_u16 (peer_ports peer)\<rparr>
      in if peer_pem peer = [] then Ok reg
         else
           rbind (ok_or (BadPem (peer_pem peer)) (public_key_of_pem c (peer_pem peer))) (\<lambda>vk.
           rbind (ok_or NoSpki (public_key_der c vk)) (\<lambda>der.
             Ok (reg\<lparr>reg_peer_public_key := b64_encode b der\<rparr>))))"

text \<open>The registration put together from both answers.\<close>

definition registration_of ::
  "b64 \<Rightarrow> ('k, 'v) crypto \<Rightarrow> RegResult \<Rightarrow> RegResult \<Rightarrow> bytes \<Rightarrow> (RegErr, Registration) result" where
  "registration_of b c step1 step2 der =
     (let reg = \<lparr>reg_id = res_id step2, reg_token = res_token step1, reg_account = res_account step2,
                 key_type = res_key_type step2, tunnel_type = res_tunnel_type step2,
                 reg_private_key = b64_encode b der, endpoint_v4 = [], endpoint_v6 = [], endpoint_ports = [],
                 reg_peer_public_key = [], assigned_ipv4 = [], assigned_ipv6 = []\<rparr>
      in case res_config step2 of
           None \<Rightarrow> Ok reg
         | Some cfg \<Rightarrow>
             rbind (case cfg_peers cfg of [] \<Rightarrow> Ok reg | peer # _ \<Rightarrow> edge_of b c peer reg) (\<lambda>reg.
               Ok (reg\<lparr>assigned_ipv4 := cfg_v4 cfg, assigned_ipv6 := cfg_v6 cfg\<rparr>)))"

definition register_masque ::
  "b64 \<Rightarrow> ('k, 'v) crypto \<Rightarrow> reg_json \<Rightarrow> (ApiRequest \<Rightarrow> ApiReply) \<Rightarrow> issue \<Rightarrow> string \<Rightarrow> bytes \<times> bytes \<Rightarrow> 'k \<Rightarrow> (RegErr, RegCredentials) result" where
  "register_masque b c json api iss tos_now rnd k =
     rbind (call_api api ''register'' (register_request b (fst rnd) (snd rnd) tos_now)) (\<lambda>body.
     rbind (ok_or (BadJson ''register'') (result_of json body)) (\<lambda>step1.
     rbind (ok_or NoSpki (public_key_der c (verifying_key c k))) (\<lambda>spki.
     rbind (call_api api ''enroll'' (enroll_request b step1 spki)) (\<lambda>body.
     rbind (ok_or (BadJson ''enroll'') (result_of json body)) (\<lambda>step2.
     rbind (ok_or NoPkcs8 (pkcs8_der c k)) (\<lambda>der.
     rbind (registration_of b c step1 step2 der) (\<lambda>reg.
       build_credentials b c iss reg k)))))))"

definition save :: "reg_json \<Rightarrow> fs_faults \<Rightarrow> nat \<Rightarrow> Registration \<Rightarrow> path \<Rightarrow> fs \<Rightarrow> fs \<times> (RegErr, unit) result" where
  "save json faults rnd reg p fs =
     (let (fs, res) = write_private faults rnd p (reg_text json reg) fs in (fs, rmap_err SaveFailed res))"

definition load :: "b64 \<Rightarrow> ('k, 'v) crypto \<Rightarrow> reg_json \<Rightarrow> issue \<Rightarrow> fs \<Rightarrow> path \<Rightarrow> (RegErr, RegCredentials) result" where
  "load b c json iss fs p =
     rbind (ok_or NoFile (fs p)) (\<lambda>(_, data).
     rbind (ok_or (BadJson ''load'') (reg_of json data)) (\<lambda>reg.
     rbind (ok_or BadKey (b64_decode b (reg_private_key reg))) (\<lambda>der.
     rbind (ok_or BadKey (from_pkcs8_der c der)) (\<lambda>k.
       build_credentials b c iss reg k))))"

definition refresh_credentials :: "b64 \<Rightarrow> ('k, 'v) crypto \<Rightarrow> issue \<Rightarrow> RegCredentials \<Rightarrow> (RegErr, RegCredentials) result" where
  "refresh_credentials b c iss creds =
     rbind (ok_or BadKey (from_pkcs8_der c (client_key_der creds))) (\<lambda>k.
       build_credentials b c iss (registration creds) k)"

text \<open>\<^verbatim>\<open>delete\<close>: the local file goes only after the service has confirmed.\<close>

definition delete :: "reg_json \<Rightarrow> (ApiRequest \<Rightarrow> ApiReply) \<Rightarrow> IoErr option \<Rightarrow> path \<Rightarrow> fs \<Rightarrow> fs \<times> (RegErr, unit) result" where
  "delete json api remove_fault p fs =
     (case fs p of
        None \<Rightarrow> (fs, Err NoFile)
      | Some (_, data) \<Rightarrow>
          (case ident_of json data of
             None \<Rightarrow> (fs, Err (BadJson ''delete''))
           | Some (i, t) \<Rightarrow>
               if i = [] \<or> t = [] then (fs, Err NoIdent)
               else
                 (case api (DeleteReg (reg_url i) (bearer t)) of
                    NoResponse \<Rightarrow> (fs, Err (SendFailed ''delete''))
                  | NoBody st \<Rightarrow>
                      if 200 \<le> st \<and> st < 300 then
                        (case remove_fault of None \<Rightarrow> (fs(p := None), Ok ()) | Some e \<Rightarrow> (fs, Err (RemoveFailed e)))
                      else (fs, Err (ApiStatus ''delete'' st))
                  | Response st _ \<Rightarrow>
                      if 200 \<le> st \<and> st < 300 then
                        (case remove_fault of None \<Rightarrow> (fs(p := None), Ok ()) | Some e \<Rightarrow> (fs, Err (RemoveFailed e)))
                      else (fs, Err (ApiStatus ''delete'' st)))))"

section \<open>Teams registration ends, waits and keeps the key\<close>

lemma retry_wait_ge:
  "min DURATION_MAX_SECS (base * n) \<le> retry_wait base n reply"
  "reply = TeamsReply st (Some v) body \<Longrightarrow> parse_u64 (trim v) = Some s \<Longrightarrow> unat s \<le> retry_wait base n reply"
  by (auto simp: retry_wait_def Let_def split: teams_reply.splits option.splits)

definition attempts_ok :: "(nat \<Rightarrow> teams_reply) \<Rightarrow> TeamsRegistrar \<Rightarrow> nat \<Rightarrow> nat list \<Rightarrow> bool" where
  "attempts_ok api reg attempt waits \<longleftrightarrow>
     (waits \<noteq> [] \<longrightarrow> attempt + length waits \<le> max 1 (retries reg))
     \<and> (\<forall>i<length waits. waits ! i = retry_wait (retry_delay reg) (attempt + i) (api (attempt + i)))"

lemma attempts_ok_Cons:
  assumes "attempts_ok api reg (Suc attempt) waits" "attempt < max 1 (retries reg)"
  shows "attempts_ok api reg attempt (retry_wait (retry_delay reg) attempt (api attempt) # waits)"
  using assms by (cases waits) (auto simp: attempts_ok_def nth_Cons split: nat.splits)

lemma attempts_ok_Nil: "attempts_ok api reg attempt []"
  by (simp add: attempts_ok_def)

definition saved_account :: "account_json \<Rightarrow> TeamsRegistrar \<Rightarrow> string \<Rightarrow> fs \<Rightarrow> (RegErr, WgAccount) result \<Rightarrow> bool" where
  "saved_account json reg priv fs r \<longleftrightarrow>
     (case r of Inl _ \<Rightarrow> True
      | Inr a \<Rightarrow> acc_private_key a = priv \<and> fs (account_path reg) = Some (PRIVATE_MODE, account_text json a))"

lemma register_loop_spec:
  "register_loop json api faults rnd reg priv attempt fs = (fs', waits, r) \<Longrightarrow>
     attempts_ok api reg attempt waits \<and> saved_account json reg priv fs' r"
proof (induction json api faults rnd reg priv attempt fs arbitrary: fs' waits r rule: register_loop.induct)
  case (1 json api faults rnd reg priv attempt fs)
  obtain f2 w2 r2 where rec: "register_loop json api faults rnd reg priv (Suc attempt) fs = (f2, w2, r2)"
    using prod_cases3 by blast
  show ?case
  proof (cases "\<exists>w. waits = retry_wait (retry_delay reg) attempt (api attempt) # w")
    case True
    then have "attempts_ok api reg (Suc attempt) w2 \<and> saved_account json reg priv f2 r2"
      "attempt < max 1 (retries reg)" "waits = retry_wait (retry_delay reg) attempt (api attempt) # w2" "f2 = fs'" "r2 = r"
      using "1.IH" [OF refl refl] "1.prems" rec
      by (auto simp: register_loop.simps [of json api faults rnd reg priv attempt] Let_def
          split: teams_reply.splits option.splits prod.splits if_splits)
    then show ?thesis using attempts_ok_Cons by blast
  next
    case False
    then have "waits = [] \<and> saved_account json reg priv fs' r"
      using "1.prems" rec
      by (auto simp: register_loop.simps [of json api faults rnd reg priv attempt] Let_def saved_account_def
          account_save_def rmap_err_def rbind_def split: teams_reply.splits option.splits prod.splits if_splits sum.splits dest: write_private_Ok)
    then show ?thesis using attempts_ok_Nil by blast
  qed
qed

section \<open>Credentials survive a restart\<close>

text \<open>Credentials with a new certificate for the same name and key.\<close>

definition reissued :: "('k, 'v) crypto \<Rightarrow> issue \<Rightarrow> RegCredentials \<Rightarrow> (RegErr, RegCredentials) result" where
  "reissued c iss creds =
     (case self_signed c (client_params (reg_id (registration creds)) (fst iss)) (snd iss) (client_key_der creds) of
        None \<Rightarrow> Err NoCert
      | Some cert \<Rightarrow> Ok (creds\<lparr>client_cert_der := cert\<rparr>))"

text \<open>What the code relies on: keys and registrations are read back as they were written.\<close>

locale reg_laws = b64_laws b for b +
  fixes c :: "('k, 'v) crypto" and json :: reg_json
  assumes pkcs8_inverse: "pkcs8_der c k = Some der \<Longrightarrow> from_pkcs8_der c der = Some k"
    and json_inverse: "reg_of json (reg_text json reg) = Some reg"
begin

lemma refresh_built:
  assumes "build_credentials b c iss reg k = Ok creds"
  shows "registration creds = reg \<and> pkcs8_der c k = Some (client_key_der creds)
    \<and> refresh_credentials b c iss' creds = build_credentials b c iss' reg k
    \<and> build_credentials b c iss' reg k = reissued c iss' creds"
  using assms pkcs8_inverse
  by (auto simp: build_credentials_def build_client_cert_def refresh_credentials_def reissued_def rbind_Inr_iff ok_or_Inr_iff
      split: option.splits)

lemma load_saved:
  assumes "fs p = Some (m, reg_text json reg)" "reg_private_key reg = b64_encode b der" "pkcs8_der c k = Some der"
  shows "load b c json iss fs p = build_credentials b c iss reg k"
  using assms json_inverse decode_encode pkcs8_inverse by (simp add: load_def)

end

lemma edge_of_key: "edge_of b c peer reg = Ok reg' \<Longrightarrow> reg_private_key reg' = reg_private_key reg"
  by (auto simp: edge_of_def Let_def rbind_Inr_iff ok_or_Inr_iff split: if_splits)

lemma registration_of_key: "registration_of b c step1 step2 der = Ok reg \<Longrightarrow> reg_private_key reg = b64_encode b der"
  by (auto simp: registration_of_def Let_def rbind_Inr_iff dest!: edge_of_key split: option.splits list.splits)

lemma register_masque_key:
  assumes "register_masque b c json api iss tos_now rnd k = Ok creds"
  obtains reg der where "build_credentials b c iss reg k = Ok creds" "pkcs8_der c k = Some der"
    "reg_private_key reg = b64_encode b der"
  using assms registration_of_key by (fastforce simp: register_masque_def rbind_Inr_iff ok_or_Inr_iff)

subsection \<open>Libraries with the laws\<close>

text \<open>
  A key is its byte string and a certificate the name followed by the key; a registration is printed as
  its fields, each after its length in unary.
\<close>

definition bytes_crypto :: "(bytes, bytes) crypto" where
  "bytes_crypto = \<lparr>verifying_key = id, public_key_der = Some, public_key_of_pem = (\<lambda>s. Some (str_bytes s)),
     pkcs8_der = Some, from_pkcs8_der = Some, self_signed = (\<lambda>ps drawn der. Some (str_bytes (common_name ps) @ drawn @ der))\<rparr>"

definition fields_text :: "bytes list \<Rightarrow> bytes" where
  "fields_text fs = concat (map (\<lambda>f. replicate (length f) 1 @ 0 # f) fs)"

fun text_fields :: "nat \<Rightarrow> bytes \<Rightarrow> bytes list" where
  "text_fields 0 bs = []"
| "text_fields (Suc k) bs =
     (let n = length (takeWhile (\<lambda>x. x = 1) bs); r = drop (Suc n) bs in take n r # text_fields k (drop n r))"

fun be16s :: "bytes \<Rightarrow> u16 list" where
  "be16s (a # b # r) = from_be16 a b # be16s r"
| "be16s _ = []"

definition reg_fields :: "Registration \<Rightarrow> bytes list" where
  "reg_fields r = map str_bytes [reg_id r, reg_token r, reg_account r, key_type r, tunnel_type r, reg_private_key r,
     endpoint_v4 r, endpoint_v6 r, reg_peer_public_key r, assigned_ipv4 r, assigned_ipv6 r]
     @ [concat (map to_be16 (endpoint_ports r))]"

fun fields_reg :: "bytes list \<Rightarrow> Registration option" where
  "fields_reg [i, t, a, kt, tt, pk, v4, v6, pp, a4, a6, ports] =
     Some \<lparr>reg_id = bytes_str i, reg_token = bytes_str t, reg_account = bytes_str a, key_type = bytes_str kt,
       tunnel_type = bytes_str tt, reg_private_key = bytes_str pk, endpoint_v4 = bytes_str v4,
       endpoint_v6 = bytes_str v6, endpoint_ports = be16s ports, reg_peer_public_key = bytes_str pp,
       assigned_ipv4 = bytes_str a4, assigned_ipv6 = bytes_str a6\<rparr>"
| "fields_reg _ = None"

definition fields_json :: "(string \<Rightarrow> RegResult option) \<Rightarrow> (bytes \<Rightarrow> (string \<times> string) option) \<Rightarrow> reg_json" where
  "fields_json f g = \<lparr>result_of = f, reg_text = fields_text \<circ> reg_fields, reg_of = fields_reg \<circ> text_fields 12, ident_of = g\<rparr>"

lemma text_fields_text: "text_fields (length fs) (fields_text fs) = fs"
proof (induction fs)
  case (Cons f fs)
  have "takeWhile (\<lambda>x. x = 1) (replicate n 1 @ 0 # ys) = replicate n (1 :: u8)" for n ys
    by (induction n) auto
  moreover have "fields_text (f # fs) = replicate (length f) 1 @ 0 # f @ fields_text fs"
    by (simp add: fields_text_def)
  ultimately show ?case using Cons by (simp add: Let_def)
qed simp

lemma be16s_to_be16: "be16s (concat (map to_be16 ps)) = ps"
  by (induction ps) (simp_all add: to_be16_def)

interpretation fields: reg_laws pair_b64 bytes_crypto "fields_json f g" for f g
proof unfold_locales
  fix reg
  have "length (reg_fields reg) = 12" by (simp add: reg_fields_def)
  with text_fields_text [of "reg_fields reg"] have "text_fields 12 (fields_text (reg_fields reg)) = reg_fields reg"
    by (simp only:)
  moreover have "fields_reg (reg_fields reg) = Some reg" by (simp add: reg_fields_def be16s_to_be16)
  ultimately show "reg_of (fields_json f g) (reg_text (fields_json f g) reg) = Some reg"
    by (simp only: fields_json_def reg_json.simps comp_apply)
qed (simp add: bytes_crypto_def)

definition demo_reg_json :: reg_json where
  "demo_reg_json = fields_json (\<lambda>_. Some \<lparr>res_id = ''dev'', res_token = ''tok'', res_account = ''acc'', res_key_type = ''secp256r1'',
          res_tunnel_type = ''masque'', res_config = Some \<lparr>cfg_peers = [\<lparr>peer_pem = ''edge'', peer_v4 = ''1.2.3.4:0'',
          peer_v6 = ''[fd00::1]:0'', peer_ports = [443]\<rparr>], cfg_v4 = ''10.0.0.2'', cfg_v6 = ''fd00::2''\<rparr>\<rparr>) (\<lambda>_. None)"

section \<open>Properties\<close>

text \<open>
  C38: credentials survive a restart.  What a successful registration saved, \<^verbatim>\<open>load\<close> turns into the
  registration, the private key and the pinned edge key it had, with a certificate newly signed for
  the same name and key and the day that follows, whenever it is loaded and whatever the signer
  draws; refreshing the ones in memory does the same.  Both fail only if no certificate can be made.
\<close>

theorem credentials_survive_restart:
  assumes "reg_laws b c json" "register_masque b c json api iss tos_now rnd k = Ok creds"
    "save json faults r (registration creds) p fs = (fs', Ok ())"
  shows "load b c json iss' fs' p =
      (case self_signed c (client_params (reg_id (registration creds)) (fst iss')) (snd iss') (client_key_der creds) of
         None \<Rightarrow> Err NoCert
       | Some cert \<Rightarrow> Ok (creds\<lparr>client_cert_der := cert\<rparr>))
    \<and> refresh_credentials b c iss' creds = load b c json iss' fs' p \<and> from_pkcs8_der c (client_key_der creds) = Some k"
proof -
  from assms(2) obtain reg der where r: "build_credentials b c iss reg k = Ok creds" "pkcs8_der c k = Some der"
    "reg_private_key reg = b64_encode b der" by (rule register_masque_key)
  note built = reg_laws.refresh_built [OF assms(1) r(1)]
  have "fs' p = Some (PRIVATE_MODE, reg_text json reg)"
    using assms(3) built by (auto simp: save_def dest: write_private_Ok split: prod.splits)
  then show ?thesis
    using reg_laws.load_saved [OF assms(1), of fs' p PRIVATE_MODE reg der k iss'] r built
      reg_laws.pkcs8_inverse [OF assms(1)] by (simp add: reissued_def)
qed

theorem credentials_survive_restart_witness:
  "\<exists>creds fs'. register_masque pair_b64 bytes_crypto
       demo_reg_json
       (\<lambda>_. Response 200 ''ok'') (5, [9]) ''now'' ([1, 2], [5]) [3, 4] = Ok creds
     \<and> save demo_reg_json
       no_faults 7 (registration creds) \<lparr>dir = [], file_name = ''reg.json''\<rparr> (\<lambda>_. None) = (fs', Ok ())
     \<and> pinned_spki_der creds = str_bytes ''edge''
     \<and> load pair_b64 bytes_crypto demo_reg_json (90, [8]) fs' \<lparr>dir = [], file_name = ''reg.json''\<rparr> =
         Ok (creds\<lparr>client_cert_der := str_bytes (client_cn (reg_id (registration creds))) @ [8] @ client_key_der creds\<rparr>)"
proof -
  have ne: "b64_encode pair_b64 (str_bytes ''edge'') \<noteq> []" by (rule pair.encode_ne) (simp add: str_bytes_def)
  obtain creds where creds: "register_masque pair_b64 bytes_crypto demo_reg_json (\<lambda>_. Response 200 ''ok'') (5, [9]) ''now'' ([1, 2], [5]) [3, 4] = Ok creds"
    "pinned_spki_der creds = str_bytes ''edge''"
    using ne pair.decode_encode [of "str_bytes ''edge''"]
    by (simp add: register_masque_def demo_reg_json_def fields_json_def call_api_def bytes_crypto_def registration_of_def
        edge_of_def build_credentials_def build_client_cert_def)
  obtain fs' where fs': "save demo_reg_json no_faults 7 (registration creds) \<lparr>dir = [], file_name = ''reg.json''\<rparr> (\<lambda>_. None) = (fs', Ok ())"
    by (simp add: save_def write_private_def no_faults_def Let_def)
  have "reg_laws pair_b64 bytes_crypto demo_reg_json" unfolding demo_reg_json_def by (rule fields.reg_laws_axioms)
  from credentials_survive_restart [OF this creds(1) fs', of "(90, [8])"] creds fs' show ?thesis
    by (auto simp: bytes_crypto_def client_params_def)
qed

text \<open>
  Giving up a registration never loses the credentials before the service has confirmed: the file is
  removed exactly when \<^verbatim>\<open>delete\<close> succeeds, which takes a success status for the identifier and token in the
  file; in every other case the file system is unchanged.
\<close>

lemma delete_only_confirmed:
  "case delete json api fault p fs of
     (fs', Inl e) \<Rightarrow> fs' = fs
   | (fs', Inr u) \<Rightarrow> fs' = fs(p := None)
       \<and> (\<exists>m data i t. fs p = Some (m, data) \<and> ident_of json data = Some (i, t) \<and> i \<noteq> [] \<and> t \<noteq> []
            \<and> (case api (DeleteReg (reg_url i) (bearer t)) of NoResponse \<Rightarrow> False
                | NoBody st \<Rightarrow> st div 100 = 2 | Response st body \<Rightarrow> st div 100 = 2))"
  by (auto simp: delete_def split: option.splits prod.splits ApiReply.splits if_splits)

text \<open>
  Teams registration makes at most the configured number of requests, waits between them at least
  the growing delay and any \<^verbatim>\<open>Retry-After\<close> it was given, and an account it returns carries the local private
  key and has been saved.
\<close>

lemma teams_registration_bounded:
  "case register_loop json api faults rnd reg priv 1 fs of
     (fs', waits, r) \<Rightarrow>
       length waits < max 1 (retries reg)
       \<and> waits = map (\<lambda>n. retry_wait (retry_delay reg) n (api n)) [1..<Suc (length waits)]
       \<and> (case r of Inl e \<Rightarrow> True
          | Inr a \<Rightarrow> acc_private_key a = priv \<and> fs' (account_path reg) = Some (PRIVATE_MODE, account_text json a))"
proof -
  obtain fs' waits r where run: "register_loop json api faults rnd reg priv 1 fs = (fs', waits, r)"
    using prod_cases3 by blast
  note spec = register_loop_spec [OF run]
  have w: "waits = map (\<lambda>n. retry_wait (retry_delay reg) n (api n)) [1..<Suc (length waits)]"
    using spec by (intro nth_equalityI) (simp_all del: upt_Suc add: attempts_ok_def)
  have l: "length waits < max 1 (retries reg)"
    using spec by (cases "waits = []") (auto simp: attempts_ok_def)
  have s: "case r of Inl e \<Rightarrow> True
      | Inr a \<Rightarrow> acc_private_key a = priv \<and> fs' (account_path reg) = Some (PRIVATE_MODE, account_text json a)"
    using spec by (simp add: saved_account_def)
  show ?thesis unfolding run prod.case by (intro conjI l w s)
qed

end
