(* ===== verification/Device_Link.thy ===== *)
theory Device_Link
  imports Netstack
begin

text \<open>
  What the reactor makes of its device.  A device that keeps an account of the packets handed to it
  and of the packets it has handed out has, after any stretch of the reactor's work, exactly the
  packets of the reactor's own trace in that account, and every invariant of its operations.
\<close>

locale reactor_device =
  fixes ops :: "'d AsyncDevice"
    and inv :: "'d \<Rightarrow> bool"
    and fed :: "'d \<Rightarrow> bytes list"
    and opened :: "'d \<Rightarrow> bytes list"
  assumes ready: "inv d \<Longrightarrow> poll_ready ops d = (d', r) \<Longrightarrow> inv d' \<and> fed d' = fed d \<and> opened d' = opened d"
    and flush: "inv d \<Longrightarrow> poll_flush ops d = (d', r) \<Longrightarrow> inv d' \<and> fed d' = fed d \<and> opened d' = opened d"
    and send: "inv d \<Longrightarrow> start_send ops p d = (d', s) \<Longrightarrow> inv d' \<and> fed d' = fed d @ [p] \<and> opened d' = opened d"
    and recv: "inv d \<Longrightarrow> poll_next ops d = (d', q) \<Longrightarrow>
      inv d' \<and> fed d' = fed d \<and> opened d' = opened d @ (case q of Ready (Some (Inr p)) \<Rightarrow> [p] | _ \<Rightarrow> [])"
begin

definition accounts :: "'d \<Rightarrow> net_event list \<Rightarrow> 'd \<Rightarrow> bool" where
  "accounts d evs d' \<longleftrightarrow> inv d' \<and> fed d' = fed d @ to_device evs \<and> opened d' = opened d @ from_device evs"

lemma accounts_trans: "accounts a xs b \<Longrightarrow> accounts b ys c \<Longrightarrow> accounts a (xs @ ys) c"
  by (simp add: accounts_def)

lemma send_accounts:
  "inv d \<Longrightarrow> poll_send_packets ops d ps = (d', rest, evs, r) \<Longrightarrow> accounts d evs d'"
proof (induction ps arbitrary: d evs)
  case Nil
  then show ?case using flush by (auto simp: accounts_def event_logs split: prod.splits)
next
  case (Cons p ps)
  obtain d1 r1 where 1: "poll_ready ops d = (d1, r1)" by force
  obtain d2 r2 where 2: "start_send ops p d1 = (d2, r2)" by force
  obtain d3 rest3 evs3 r3 where 3: "poll_send_packets ops d2 ps = (d3, rest3, evs3, r3)"
    using prod_cases4 by blast
  note s1 = ready [OF Cons.prems(1) 1]
  note s2 = send [OF conjunct1 [OF s1] 2]
  have s3: "accounts d2 evs3 d3" if "d3 = d'" "evs3 = evs3" "rest3 = rest" "r3 = r"
    using Cons.IH [of d2 evs3] s2 3 that by simp
  show ?case
    using Cons.prems 1 2 3 s1 s2 s3
    by (cases r1 rule: poll_cases; cases r2) (auto simp: accounts_def event_logs)
qed

lemma burst_accounts:
  "inv d \<Longrightarrow> receive_burst ops n d q = (d', q', evs, r) \<Longrightarrow> accounts d evs d'"
proof (induction n arbitrary: d q evs)
  case 0
  then show ?case by (simp add: accounts_def event_logs)
next
  case (Suc n)
  obtain d1 r1 where 1: "poll_next ops d = (d1, r1)" by force
  note s1 = recv [OF Suc.prems(1) 1]
  show ?case
  proof (cases "\<exists>p. r1 = Ready (Some (Inr p))")
    case True
    then obtain p where p: "r1 = Ready (Some (Inr p))" by blast
    obtain d2 q2 evs2 r2 where 2: "receive_burst ops n d1 (q @ [p]) = (d2, q2, evs2, r2)"
      using prod_cases4 by blast
    with Suc.prems 1 p have eq: "evs = FromDevice p # evs2" "d2 = d'" "q2 = q'" "r2 = r" by auto
    then have "accounts d1 evs2 d'" using Suc.IH [of d1 "q @ [p]" evs2] s1 2 by simp
    with eq s1 p show ?thesis by (simp add: accounts_def event_logs)
  next
    case False
    with Suc.prems 1 s1 show ?thesis
      by (auto simp: accounts_def event_logs split: poll.splits option.splits sum.splits)
  qed
qed

lemma poll_accounts:
  assumes "inv d" "reactor_poll ops ct nt tm d b = (d', b', evs, r)"
  shows "accounts d evs d'"
proof -
  obtain d1 rest sent r1 where 1: "poll_send_packets ops d (send_queue b) = (d1, rest, sent, r1)"
    using prod_cases4 by blast
  obtain d2 q got r2 where 2: "receive_burst ops (max_burst_size b - length (recv_queue b)) d1 (recv_queue b)
      = (d2, q, got, r2)"
    using prod_cases4 by blast
  have a: "accounts d sent d1" by (rule send_accounts [OF assms(1) 1])
  then have "accounts d1 got d2" using burst_accounts [OF _ 2] by (simp add: accounts_def)
  with a accounts_trans have "accounts d (sent @ got) d2" by blast
  with a show ?thesis
    using assms(2) 1 2 by (auto simp: reactor_poll_def Let_def split: poll.splits sum.splits if_splits)
qed

lemma tokens_events: "use_tokens us b = (b', evs) \<Longrightarrow> to_device evs = [] \<and> from_device evs = []"
proof (induction us arbitrary: b evs)
  case (Cons u us)
  obtain b1 e1 where 1: "use_token u b = (b1, e1)" by force
  obtain b2 e2 where 2: "use_tokens us b1 = (b2, e2)" by force
  have "to_device e1 = [] \<and> from_device e1 = []"
    using 1 by (cases u) (auto simp: event_logs split: option.splits if_splits)
  with Cons 1 2 show ?case by fastforce
qed (simp add: event_logs)

lemma run_accounts:
  "inv d \<Longrightarrow> run_reactor ops iface polls ct d b i = (d', b', i', evs, r) \<Longrightarrow> accounts d evs d'"
proof (induction polls arbitrary: ct d b i evs)
  case Nil
  then show ?case by (simp add: accounts_def event_logs)
next
  case (Cons p polls)
  obtain nt tm where p: "p = (nt, tm)" by force
  obtain d1 b1 e1 r1 where 1: "reactor_poll ops ct nt tm d b = (d1, b1, e1, r1)"
    using prod_cases4 by blast
  have a1: "accounts d e1 d1" by (rule poll_accounts [OF Cons.prems(1) 1])
  then have inv1: "inv d1" by (simp add: accounts_def)
  consider (pending) "r1 = Pending" | (err) e where "r1 = Ready (Inl e)"
    | (woken) w ended where "r1 = Ready (Inr (w, ended))"
    by (metis poll.exhaust prod.exhaust sum.exhaust)
  then show ?case
  proof cases
    case pending
    obtain d2 b2 i2 e2 r2 where run: "run_reactor ops iface polls ct d1 b1 i = (d2, b2, i2, e2, r2)"
      using prod_cases5 by blast
    then have eq: "d2 = d'" "b2 = b'" "i2 = i'" "r2 = r" "evs = e1 @ e2"
      using 1 pending p Cons.prems(2) by auto
    then show ?thesis using Cons.IH [OF inv1, of ct b1 i e2] run accounts_trans [OF a1] by simp
  next
    case err
    then show ?thesis using a1 1 p Cons.prems(2) by simp
  next
    case woken
    obtain j us where j: "iface i b1 = (j, us)" by force
    obtain b2 e2 where u: "use_tokens us b1 = (b2, e2)" by force
    have a2: "accounts d (e1 @ e2) d1"
      using a1 tokens_events [OF u] by (simp add: accounts_def)
    show ?thesis
    proof (cases ended)
      case True
      then show ?thesis using a2 woken 1 j u p Cons.prems(2) by simp
    next
      case False
      obtain d3 b3 i3 e3 r3 where run: "run_reactor ops iface polls
          (length (send_queue b2) < max_burst_size b2) d1 (b2\<lparr>dropped_tx := 0\<rparr>) j = (d3, b3, i3, e3, r3)"
        using prod_cases5 by blast
      then have eq: "d3 = d'" "b3 = b'" "i3 = i'" "r3 = r" "evs = (e1 @ e2) @ e3"
        using 1 woken j u p False Cons.prems(2) by auto
      then show ?thesis
        using Cons.IH [OF inv1, of _ "b2\<lparr>dropped_tx := 0\<rparr>" j e3] run accounts_trans [OF a2] by simp
    qed
  qed
qed

lemma run_device:
  assumes "inv d" "run_reactor ops iface polls ct d b i = (d', b', i', evs, r)"
  shows "inv d'" "fed d' = fed d @ to_device evs" "opened d' = opened d @ from_device evs"
  using run_accounts [OF assms] by (simp_all add: accounts_def)

end

end
