(* ===== verification/Tunnel.thy ===== *)
theory Tunnel
  imports Device_Link Wgconf
begin

text \<open>
  \<^verbatim>\<open>tunnel.rs\<close>: the WireGuard tunnel as the device of the network stack.  The protocol machine
  (\<^verbatim>\<open>boringtun\<close>) and the outer UDP socket with its clock and timer are libraries: a record of their
  operations over states \<open>'t\<close> and \<open>'s\<close>, which include the randomness and the time they read.  Log lines are
  left out; what is counted for them is kept.
\<close>

section \<open>Libraries\<close>

datatype WireGuardError =
    DestinationBufferTooSmall | IncorrectPacketLength | UnexpectedPacket | WrongPacketType | WrongIndex
  | WrongKey | InvalidTai64nTimestamp | WrongTai64nTimestamp | InvalidMac | InvalidAeadTag | InvalidCounter
  | DuplicateCounter | InvalidPacket | NoCurrentSession | LockFailed | ConnectionExpired | UnderLoad

datatype TunnResult =
    TunnDone | TunnErr WireGuardError | TunnNetwork bytes | TunnV4 bytes | TunnV6 bytes

record ('t, 's) wg_lib =
  decapsulate :: "bytes \<Rightarrow> 't \<Rightarrow> 't \<times> TunnResult"
  encapsulate :: "bytes \<Rightarrow> 't \<Rightarrow> 't \<times> TunnResult"
  update_timers :: "'t \<Rightarrow> 't \<times> TunnResult"
  handshake_initiation :: "'t \<Rightarrow> 't \<times> TunnResult"
  handshaken :: "'t \<Rightarrow> bool"
  try_send :: "bytes \<Rightarrow> 's \<Rightarrow> 's \<times> (IoErr, nat) result"
  send_ready :: "'s \<Rightarrow> 's \<times> (IoErr, unit) result poll"
  sock_send :: "bytes \<Rightarrow> 's \<Rightarrow> 's \<times> (IoErr, nat) result"
  sock_recv :: "nat \<Rightarrow> 's \<Rightarrow> 's \<times> (IoErr, bytes) result poll"
  recv_within :: "nat \<Rightarrow> nat \<Rightarrow> 's \<Rightarrow> 's \<times> (IoErr, bytes) result option"
  tick_due :: "'s \<Rightarrow> 's \<times> bool"
  clock :: "'s \<Rightarrow> nat"
  packet_views :: wire_lib

section \<open>Rejected packets\<close>

definition TUNNEL_MTU :: nat where "TUNNEL_MTU = 1330"
definition PACKET_BUF :: nat where "PACKET_BUF = 2048"
definition MAX_PENDING_NETWORK_PACKETS :: nat where "MAX_PENDING_NETWORK_PACKETS = 256"
definition MAX_RECEIVE_BURST :: nat where "MAX_RECEIVE_BURST = 64"

text \<open>Ten seconds, in nanoseconds.\<close>

definition DECAP_ERROR_REPORT_INTERVAL :: nat where "DECAP_ERROR_REPORT_INTERVAL = 10 * 10 ^ 9"

record DecapErrorReport =
  report_total :: u64
  report_since :: u64

record DecapErrorTracker =
  total :: u64
  since_last_report :: u64
  last_report_at :: "nat option"

definition default_DecapErrorTracker :: DecapErrorTracker where
  "default_DecapErrorTracker = \<lparr>total = 0, since_last_report = 0, last_report_at = None\<rparr>"

definition observe :: "nat \<Rightarrow> DecapErrorTracker \<Rightarrow> DecapErrorTracker \<times> DecapErrorReport option" where
  "observe now tr =
     (let tr = tr\<lparr>total := saturating_add (total tr) 1, since_last_report := saturating_add (since_last_report tr) 1\<rparr>;
          should_report = (total tr = 1
            \<or> (case last_report_at tr of None \<Rightarrow> False | Some prev \<Rightarrow> DECAP_ERROR_REPORT_INTERVAL \<le> now - prev))
      in if should_report
         then (tr\<lparr>since_last_report := 0, last_report_at := Some now\<rparr>,
               Some \<lparr>report_total = total tr, report_since = since_last_report tr\<rparr>)
         else (tr, None))"

fun decap_error_class :: "WireGuardError \<Rightarrow> string" where
  "decap_error_class WrongIndex = ''session''"
| "decap_error_class WrongKey = ''session''"
| "decap_error_class NoCurrentSession = ''session''"
| "decap_error_class ConnectionExpired = ''session''"
| "decap_error_class InvalidCounter = ''replay''"
| "decap_error_class DuplicateCounter = ''replay''"
| "decap_error_class InvalidMac = ''authentication''"
| "decap_error_class InvalidAeadTag = ''authentication''"
| "decap_error_class LockFailed = ''resource''"
| "decap_error_class UnderLoad = ''resource''"
| "decap_error_class DestinationBufferTooSmall = ''malformed''"
| "decap_error_class IncorrectPacketLength = ''malformed''"
| "decap_error_class UnexpectedPacket = ''malformed''"
| "decap_error_class WrongPacketType = ''malformed''"
| "decap_error_class InvalidTai64nTimestamp = ''malformed''"
| "decap_error_class WrongTai64nTimestamp = ''malformed''"
| "decap_error_class InvalidPacket = ''malformed''"

definition decap_error_is_warning :: "WireGuardError \<Rightarrow> bool" where
  "decap_error_is_warning e \<longleftrightarrow> e \<noteq> DuplicateCounter"

section \<open>The tunnel\<close>

datatype Trick = NoTrick | T1 | T2

record ('t, 's) WgTunnel =
  tunn :: 't
  sock :: 's
  wg_reserved :: "u8 \<times> u8 \<times> u8"
  trick :: Trick
  started_at :: nat
  peer_endpoint :: SocketAddr
  observer :: ObserverInner
  tracker :: DecapErrorTracker
  pending_network :: "bytes list"

text \<open>\<^verbatim>\<open>WgTunnel::connect\<close> once the libraries have given a protocol machine and a connected socket.\<close>

definition bind_addr :: "WgConfig \<Rightarrow> SocketAddr" where
  "bind_addr c = (if is_ipv4 (sa_ip (endpoint c)) then SockAddr (V4 0 0 0 0) 0 else SockAddr (V6 0 0 0 0 0 0 0 0) 0)"

definition tunnel_connect ::
  "('t, 's) wg_lib \<Rightarrow> (bytes \<Rightarrow> bytes \<Rightarrow> 't option) \<Rightarrow> (SocketAddr \<Rightarrow> SocketAddr \<Rightarrow> (IoErr, 's) result) \<Rightarrow> WgConfig \<Rightarrow> Trick
     \<Rightarrow> (IoErr, ('t, 's) WgTunnel) result" where
  "tunnel_connect L new_tunn connect_udp c tr =
     (case new_tunn (private_key c) (peer_public_key c) of
        None \<Rightarrow> Err OtherIo
      | Some t \<Rightarrow>
          rbind (connect_udp (bind_addr c) (endpoint c)) (\<lambda>s.
            Ok \<lparr>tunn = t, sock = s, wg_reserved = reserved c, trick = tr, started_at = clock L s,
                peer_endpoint = endpoint c, observer = observer_new, tracker = default_DecapErrorTracker,
                pending_network = []\<rparr>))"

definition wg_packet :: "bytes \<Rightarrow> bool" where
  "wg_packet p \<longleftrightarrow> 3 < length p \<and> 0 < p ! 0 \<and> p ! 0 < 5"

fun patch_reserved :: "u8 \<times> u8 \<times> u8 \<Rightarrow> bytes \<Rightarrow> bytes" where
  "patch_reserved (x, y, z) p = (if wg_packet p then p ! 0 # x # y # z # drop 4 p else p)"

definition strip_reserved :: "bytes \<Rightarrow> bytes" where
  "strip_reserved p = (if wg_packet p then p ! 0 # 0 # 0 # 0 # drop 4 p else p)"

definition prepare_network_packet :: "('t, 's) WgTunnel \<Rightarrow> bytes \<Rightarrow> bytes" where
  "prepare_network_packet w p = patch_reserved (wg_reserved w) p"

definition elapsed :: "('t, 's) wg_lib \<Rightarrow> ('t, 's) WgTunnel \<Rightarrow> nat" where
  "elapsed L w = clock L (sock w) - started_at w"

definition observing :: "(ObserverInner \<Rightarrow> ObserverInner) \<Rightarrow> ('t, 's) WgTunnel \<Rightarrow> ('t, 's) WgTunnel" where
  "observing f w = w\<lparr>observer := f (observer w)\<rparr>"

definition observe_decap_error :: "('t, 's) wg_lib \<Rightarrow> WireGuardError \<Rightarrow> ('t, 's) WgTunnel \<Rightarrow> ('t, 's) WgTunnel" where
  "observe_decap_error L e w = w\<lparr>tracker := fst (observe (elapsed L w) (tracker w))\<rparr>"

subsection \<open>The outer queue\<close>

definition queue_network :: "bytes \<Rightarrow> ('t, 's) WgTunnel \<Rightarrow> ('t, 's) WgTunnel" where
  "queue_network packet w =
     (if length (pending_network w) = MAX_PENDING_NETWORK_PACKETS then observing record_outer_tx_dropped w
      else
        let w = w\<lparr>pending_network := pending_network w @ [packet]\<rparr>
        in observing (record_outer_backlog (length (pending_network w))) w)"

definition send_or_queue_network ::
  "('t, 's) wg_lib \<Rightarrow> bytes \<Rightarrow> ('t, 's) WgTunnel \<Rightarrow> ('t, 's) WgTunnel \<times> (IoErr, unit) result" where
  "send_or_queue_network L packet w =
     (if pending_network w = [] then
        (case try_send L packet (sock w) of
           (s, Inr n) \<Rightarrow> (observing (record_outer_tx n) (w\<lparr>sock := s\<rparr>), Ok ())
         | (s, Inl e) \<Rightarrow>
             if e = WouldBlock then (queue_network packet (w\<lparr>sock := s\<rparr>), Ok ()) else (w\<lparr>sock := s\<rparr>, Err e))
      else (queue_network packet w, Ok ()))"

function poll_network_flush ::
  "('t, 's) wg_lib \<Rightarrow> ('t, 's) WgTunnel \<Rightarrow> ('t, 's) WgTunnel \<times> (IoErr, unit) result poll" where
  "poll_network_flush L w =
     (case pending_network w of
        [] \<Rightarrow> (w, Ready (Ok ()))
      | packet # rest \<Rightarrow>
          (case send_ready L (sock w) of
             (s, Pending) \<Rightarrow> (w\<lparr>sock := s\<rparr>, Pending)
           | (s, Ready (Inl e)) \<Rightarrow> (w\<lparr>sock := s\<rparr>, Ready (Err e))
           | (s, Ready (Inr _)) \<Rightarrow>
               (case try_send L packet s of
                  (s, Inr n) \<Rightarrow>
                    poll_network_flush L
                      (observing (record_outer_backlog (length rest))
                        ((observing (record_outer_tx n) (w\<lparr>sock := s\<rparr>))\<lparr>pending_network := rest\<rparr>))
                | (s, Inl e) \<Rightarrow> (w\<lparr>sock := s\<rparr>, if e = WouldBlock then Pending else Ready (Err e)))))"
  by pat_completeness auto
termination
  by (relation "measure (\<lambda>(L, w). length (pending_network w))") (auto simp: observing_def)

declare poll_network_flush.simps [simp del]

subsection \<open>Timers\<close>

text \<open>The packet the timers ask for; a value of the machine that makes no sense here is an error.\<close>

definition timer_packet ::
  "('t, 's) wg_lib \<Rightarrow> ('t, 's) WgTunnel \<Rightarrow> ('t, 's) WgTunnel \<times> (IoErr, bytes option) result" where
  "timer_packet L w =
     (case update_timers L (tunn w) of
        (t, r) \<Rightarrow>
          (case r of
             TunnNetwork p \<Rightarrow> (w\<lparr>tunn := t\<rparr>, Ok (Some (prepare_network_packet w p)))
           | TunnDone \<Rightarrow> (w\<lparr>tunn := t\<rparr>, Ok None)
           | TunnErr e \<Rightarrow>
               if e = ConnectionExpired then
                 (case handshake_initiation L t of
                    (t, TunnNetwork p) \<Rightarrow> (w\<lparr>tunn := t\<rparr>, Ok (Some (prepare_network_packet w p)))
                  | (t, TunnDone) \<Rightarrow> (w\<lparr>tunn := t\<rparr>, Ok None)
                  | (t, _) \<Rightarrow> (w\<lparr>tunn := t\<rparr>, Err OtherIo))
               else (w\<lparr>tunn := t\<rparr>, Err OtherIo)
           | _ \<Rightarrow> (w\<lparr>tunn := t\<rparr>, Err OtherIo)))"

definition try_tick :: "('t, 's) wg_lib \<Rightarrow> ('t, 's) WgTunnel \<Rightarrow> ('t, 's) WgTunnel \<times> (IoErr, unit) result" where
  "try_tick L w =
     (case timer_packet L w of
        (w, Inl e) \<Rightarrow> (w, Err e)
      | (w, Inr None) \<Rightarrow> (w, Ok ())
      | (w, Inr (Some packet)) \<Rightarrow> send_or_queue_network L packet w)"

text \<open>The loop over the ticks that are due.\<close>

partial_function (option) tick_loop ::
  "('t, 's) wg_lib \<Rightarrow> ('t, 's) WgTunnel \<Rightarrow> (('t, 's) WgTunnel \<times> (IoErr, unit) result) option" where
  "tick_loop L w =
     (case tick_due L (sock w) of
        (s, due) \<Rightarrow>
          if due then
            (case try_tick L (w\<lparr>sock := s\<rparr>) of
               (w, Inl e) \<Rightarrow> Some (w, Err e)
             | (w, Inr _) \<Rightarrow> tick_loop L w)
          else Some (w\<lparr>sock := s\<rparr>, Ok ()))"

subsection \<open>Receiving\<close>

definition record_plain ::
  "('t, 's) wg_lib \<Rightarrow> Direction \<Rightarrow> bytes \<Rightarrow> ('t, 's) WgTunnel \<Rightarrow> ('t, 's) WgTunnel" where
  "record_plain L d p w = observing (record_plaintext (packet_views L) (elapsed_ms (elapsed L w)) d p) w"

text \<open>The loop over the results of one datagram: the machine is asked again until it has no more to send.\<close>

partial_function (option) decap_loop ::
  "('t, 's) wg_lib \<Rightarrow> ('t, 's) WgTunnel \<Rightarrow> TunnResult \<Rightarrow> (('t, 's) WgTunnel \<times> (IoErr, bytes option) result) option" where
  "decap_loop L w res =
     (case res of
        TunnDone \<Rightarrow> Some (observing (record_decap Done) w, Ok None)
      | TunnErr e \<Rightarrow> Some (observe_decap_error L e (observing (record_decap Error) w), Ok None)
      | TunnNetwork p \<Rightarrow>
          (case send_or_queue_network L (prepare_network_packet w p) (observing (record_decap WriteToNetwork) w) of
             (w, Inl e) \<Rightarrow> Some (w, Err e)
           | (w, Inr _) \<Rightarrow>
               (case decapsulate L [] (tunn w) of (t, res) \<Rightarrow> decap_loop L (w\<lparr>tunn := t\<rparr>) res))
      | TunnV4 p \<Rightarrow> Some (record_plain L Rx p (observing (record_decap WriteToTunnelV4) w), Ok (Some p))
      | TunnV6 p \<Rightarrow> Some (record_plain L Rx p (observing (record_decap WriteToTunnelV6) w), Ok (Some p)))"

definition poll_recv_plaintext ::
  "('t, 's) wg_lib \<Rightarrow> ('t, 's) WgTunnel \<Rightarrow> (('t, 's) WgTunnel \<times> (IoErr, bytes option) result poll) option" where
  "poll_recv_plaintext L w =
     (case sock_recv L PACKET_BUF (sock w) of
        (s, Pending) \<Rightarrow> Some (w\<lparr>sock := s\<rparr>, Pending)
      | (s, Ready (Inl e)) \<Rightarrow> Some (w\<lparr>sock := s\<rparr>, Ready (Err e))
      | (s, Ready (Inr raw)) \<Rightarrow>
          (let w = observing (record_outer_rx (length raw)) (w\<lparr>sock := s\<rparr>);
               (t, res) = decapsulate L (strip_reserved raw) (tunn w)
           in map_option (\<lambda>(w, r). (w, Ready r)) (decap_loop L (w\<lparr>tunn := t\<rparr>) res)))"

text \<open>At most \<open>n\<close> datagrams; after that the task asks to be polled again.\<close>

fun recv_turns ::
  "('t, 's) wg_lib \<Rightarrow> nat \<Rightarrow> ('t, 's) WgTunnel \<Rightarrow> (('t, 's) WgTunnel \<times> (IoErr, bytes) result option poll) option" where
  "recv_turns L 0 w = Some (w, Pending)"
| "recv_turns L (Suc n) w =
     (case poll_recv_plaintext L w of
        None \<Rightarrow> None
      | Some (w, Pending) \<Rightarrow> Some (w, Pending)
      | Some (w, Ready (Inl e)) \<Rightarrow> Some (w, Ready (Some (Err e)))
      | Some (w, Ready (Inr (Some p))) \<Rightarrow> Some (w, Ready (Some (Ok p)))
      | Some (w, Ready (Inr None)) \<Rightarrow> recv_turns L n w)"

definition wg_poll_next ::
  "('t, 's) wg_lib \<Rightarrow> ('t, 's) WgTunnel \<Rightarrow> (('t, 's) WgTunnel \<times> (IoErr, bytes) result option poll) option" where
  "wg_poll_next L w =
     (case tick_loop L w of
        None \<Rightarrow> None
      | Some (w, Inl e) \<Rightarrow> Some (w, Ready (Some (Err e)))
      | Some (w, Inr _) \<Rightarrow>
          (case poll_network_flush L w of
             (w, Ready (Inl e)) \<Rightarrow> Some (w, Ready (Some (Err e)))
           | (w, _) \<Rightarrow> recv_turns L MAX_RECEIVE_BURST w))"

subsection \<open>Sending\<close>

definition wg_start_send ::
  "('t, 's) wg_lib \<Rightarrow> bytes \<Rightarrow> ('t, 's) WgTunnel \<Rightarrow> ('t, 's) WgTunnel \<times> (IoErr, unit) result" where
  "wg_start_send L packet w =
     (let w = record_plain L Tx packet w in
      case encapsulate L packet (tunn w) of
        (t, TunnNetwork p) \<Rightarrow> send_or_queue_network L (prepare_network_packet w p) (w\<lparr>tunn := t\<rparr>)
      | (t, TunnDone) \<Rightarrow> (w\<lparr>tunn := t\<rparr>, Ok ())
      | (t, _) \<Rightarrow> (w\<lparr>tunn := t\<rparr>, Err OtherIo))"

text \<open>
  The tunnel as the reactor's device.  A call of \<^verbatim>\<open>poll_next\<close> that never returns would never give the
  reactor an answer; \<open>Pending\<close> stands in for it.
\<close>

definition wg_device :: "('t, 's) wg_lib \<Rightarrow> ('t, 's) WgTunnel AsyncDevice" where
  "wg_device L =
     \<lparr>poll_ready = poll_network_flush L, start_send = wg_start_send L, poll_flush = poll_network_flush L,
      poll_next = (\<lambda>w. case wg_poll_next L w of Some r \<Rightarrow> r | None \<Rightarrow> (w, Pending))\<rparr>"

subsection \<open>The handshake\<close>

fun send_all :: "('t, 's) wg_lib \<Rightarrow> bytes list \<Rightarrow> ('t, 's) WgTunnel \<Rightarrow> ('t, 's) WgTunnel \<times> (IoErr, unit) result" where
  "send_all L [] w = (w, Ok ())"
| "send_all L (p # ps) w =
     (case sock_send L p (sock w) of
        (s, Inl e) \<Rightarrow> (w\<lparr>sock := s\<rparr>, Err e)
      | (s, Inr n) \<Rightarrow> send_all L ps (observing (record_outer_tx n) (w\<lparr>sock := s\<rparr>)))"

text \<open>
  Decoy packets on their random choices: the first byte and the connection identifier of the header, and
  the filling of each packet.
\<close>

definition clist :: bytes where
  "clist = [0xDC, 0xDE, 0xD3, 0xD9, 0xD0, 0xEC, 0xEE, 0xE3]"

definition decoy_header :: "Trick \<Rightarrow> nat \<Rightarrow> bytes \<Rightarrow> bytes" where
  "decoy_header tr i cid =
     (case tr of
        T2 \<Rightarrow> [clist ! (i mod length clist), 0x00, 0x00, 0x00, 0x01, 0x08] @ cid @ [0x00, 0x00, 0x44, 0xD0]
      | _ \<Rightarrow> [])"

definition send_decoy_packets ::
  "('t, 's) wg_lib \<Rightarrow> nat \<times> bytes \<times> bytes list \<Rightarrow> ('t, 's) WgTunnel \<Rightarrow> ('t, 's) WgTunnel \<times> (IoErr, unit) result" where
  "send_decoy_packets L rnd w =
     (case rnd of
        (i, cid, fillings) \<Rightarrow>
          if trick w = NoTrick then (w, Ok ())
          else send_all L (map (\<lambda>f. decoy_header (trick w) i cid @ f) fillings) w)"

definition send_now :: "('t, 's) wg_lib \<Rightarrow> bytes \<Rightarrow> ('t, 's) WgTunnel \<Rightarrow> ('t, 's) WgTunnel \<times> (IoErr, unit) result" where
  "send_now L p w = send_all L [prepare_network_packet w p] w"

definition tick :: "('t, 's) wg_lib \<Rightarrow> ('t, 's) WgTunnel \<Rightarrow> ('t, 's) WgTunnel \<times> (IoErr, unit) result" where
  "tick L w =
     (case update_timers L (tunn w) of
        (t, r) \<Rightarrow>
          (case r of
             TunnNetwork p \<Rightarrow> send_now L p (w\<lparr>tunn := t\<rparr>)
           | TunnDone \<Rightarrow> (w\<lparr>tunn := t\<rparr>, Ok ())
           | TunnErr e \<Rightarrow>
               if e = ConnectionExpired then
                 (case handshake_initiation L t of
                    (t, TunnNetwork p) \<Rightarrow> send_now L p (w\<lparr>tunn := t\<rparr>)
                  | (t, _) \<Rightarrow> (w\<lparr>tunn := t\<rparr>, Ok ()))
               else (w\<lparr>tunn := t\<rparr>, Err OtherIo)
           | _ \<Rightarrow> (w\<lparr>tunn := t\<rparr>, Err OtherIo)))"

partial_function (option) pump_loop ::
  "('t, 's) wg_lib \<Rightarrow> ('t, 's) WgTunnel \<Rightarrow> TunnResult \<Rightarrow> (('t, 's) WgTunnel \<times> (IoErr, unit) result) option" where
  "pump_loop L w res =
     (case res of
        TunnDone \<Rightarrow> Some (observing (record_decap Done) w, Ok ())
      | TunnErr e \<Rightarrow> Some (observe_decap_error L e (observing (record_decap Error) w), Ok ())
      | TunnNetwork p \<Rightarrow>
          (case send_now L p (observing (record_decap WriteToNetwork) w) of
             (w, Inl e) \<Rightarrow> Some (w, Err e)
           | (w, Inr _) \<Rightarrow>
               (case decapsulate L [] (tunn w) of (t, res) \<Rightarrow> pump_loop L (w\<lparr>tunn := t\<rparr>) res))
      | TunnV4 p \<Rightarrow> Some (observing (record_decap WriteToTunnelV4) w, Ok ())
      | TunnV6 p \<Rightarrow> Some (observing (record_decap WriteToTunnelV6) w, Ok ()))"

definition pump_once ::
  "('t, 's) wg_lib \<Rightarrow> nat \<Rightarrow> ('t, 's) WgTunnel \<Rightarrow> (('t, 's) WgTunnel \<times> (IoErr, unit) result) option" where
  "pump_once L wait w =
     (case recv_within L wait PACKET_BUF (sock w) of
        (s, None) \<Rightarrow> Some (tick L (w\<lparr>sock := s\<rparr>))
      | (s, Some (Inl e)) \<Rightarrow> Some (w\<lparr>sock := s\<rparr>, Err e)
      | (s, Some (Inr raw)) \<Rightarrow>
          (let w = observing (record_outer_rx (length raw)) (w\<lparr>sock := s\<rparr>);
               (t, res) = decapsulate L (strip_reserved raw) (tunn w)
           in case pump_loop L (w\<lparr>tunn := t\<rparr>) res of
                None \<Rightarrow> None
              | Some (w, Inl e) \<Rightarrow> Some (w, Err e)
              | Some (w, Inr _) \<Rightarrow> Some (tick L w)))"

partial_function (option) handshake_loop ::
  "('t, 's) wg_lib \<Rightarrow> nat \<Rightarrow> ('t, 's) WgTunnel \<Rightarrow> (('t, 's) WgTunnel \<times> (IoErr, unit) result) option" where
  "handshake_loop L deadline w =
     (if clock L (sock w) < deadline then
        if handshaken L (tunn w) then Some (w, Ok ())
        else
          (case pump_once L 500 w of
             None \<Rightarrow> None
           | Some (w, r) \<Rightarrow> (case r of Inl e \<Rightarrow> Some (w, Err e) | Inr _ \<Rightarrow> handshake_loop L deadline w))
      else Some (w, Err TimedOut))"

text \<open>\<open>timeout\<close> in nanoseconds.\<close>

definition handshake ::
  "('t, 's) wg_lib \<Rightarrow> nat \<times> bytes \<times> bytes list \<Rightarrow> nat \<Rightarrow> ('t, 's) WgTunnel \<Rightarrow> (('t, 's) WgTunnel \<times> (IoErr, unit) result) option" where
  "handshake L rnd timeout w =
     (case send_decoy_packets L rnd w of
        (w, Inl e) \<Rightarrow> Some (w, Err e)
      | (w, Inr _) \<Rightarrow>
          (case handshake_initiation L (tunn w) of
             (t, TunnNetwork p) \<Rightarrow>
               (case send_now L p (w\<lparr>tunn := t\<rparr>) of
                  (w, Inl e) \<Rightarrow> Some (w, Err e)
                | (w, Inr _) \<Rightarrow> handshake_loop L (clock L (sock w) + timeout) w)
           | (t, _) \<Rightarrow> Some (w\<lparr>tunn := t\<rparr>, Err OtherIo)))"

end
