(* ===== verification/Tunnel_Flow.thy ===== *)
theory Tunnel_Flow
  imports Tunnel
begin

text \<open>
  The flow of packets through the tunnel and the reactor together.  \<open>logging\<close> adds to any protocol
  machine the history of the packets it produced, was given and opened, and to any socket the history
  of the datagrams it accepted; the lemmas relate these histories to each other and to the reactor's
  trace.  At the end: a poll of the tunnel returns, given what the libraries document.
\<close>

section \<open>Histories\<close>

record wg_log =
  produced :: "bytes list"
  fed_plain :: "bytes list"
  opened_plain :: "bytes list"

definition no_log :: wg_log where
  "no_log = \<lparr>produced = [], fed_plain = [], opened_plain = []\<rparr>"

fun net :: "TunnResult \<Rightarrow> bytes list" where
  "net (TunnNetwork p) = [p]"
| "net _ = []"

fun plain_of :: "TunnResult \<Rightarrow> bytes list" where
  "plain_of (TunnV4 p) = [p]"
| "plain_of (TunnV6 p) = [p]"
| "plain_of _ = []"

definition log_net :: "TunnResult \<Rightarrow> wg_log \<Rightarrow> wg_log" where
  "log_net r lg = lg\<lparr>produced := produced lg @ net r\<rparr>"

definition logging :: "('t, 's) wg_lib \<Rightarrow> ('t \<times> wg_log, 's \<times> bytes list) wg_lib" where
  "logging L =
     \<lparr>decapsulate = (\<lambda>d (t, lg). case decapsulate L d t of (t, r) \<Rightarrow>
        ((t, (log_net r lg)\<lparr>opened_plain := opened_plain lg @ plain_of r\<rparr>), r)),
      encapsulate = (\<lambda>p (t, lg). case encapsulate L p t of (t, r) \<Rightarrow>
        ((t, (log_net r lg)\<lparr>fed_plain := fed_plain lg @ [p]\<rparr>), r)),
      update_timers = (\<lambda>(t, lg). case update_timers L t of (t, r) \<Rightarrow> ((t, log_net r lg), r)),
      handshake_initiation = (\<lambda>(t, lg). case handshake_initiation L t of (t, r) \<Rightarrow> ((t, log_net r lg), r)),
      handshaken = (\<lambda>(t, lg). handshaken L t),
      try_send = (\<lambda>p (s, sent). case try_send L p s of (s, r) \<Rightarrow> ((s, if is_ok r then sent @ [p] else sent), r)),
      send_ready = (\<lambda>(s, sent). case send_ready L s of (s, r) \<Rightarrow> ((s, sent), r)),
      sock_send = (\<lambda>p (s, sent). case sock_send L p s of (s, r) \<Rightarrow> ((s, if is_ok r then sent @ [p] else sent), r)),
      sock_recv = (\<lambda>n (s, sent). case sock_recv L n s of (s, r) \<Rightarrow> ((s, sent), r)),
      recv_within = (\<lambda>ms n (s, sent). case recv_within L ms n s of (s, r) \<Rightarrow> ((s, sent), r)),
      tick_due = (\<lambda>(s, sent). case tick_due L s of (s, r) \<Rightarrow> ((s, sent), r)),
      clock = (\<lambda>(s, sent). clock L s),
      packet_views = packet_views L\<rparr>"

type_synonym ('t, 's) logged_tunnel = "('t \<times> wg_log, 's \<times> bytes list) WgTunnel"

definition tlog :: "('t, 's) logged_tunnel \<Rightarrow> wg_log" where
  "tlog w = snd (tunn w)"

definition sent :: "('t, 's) logged_tunnel \<Rightarrow> bytes list" where
  "sent w = snd (sock w)"

lemmas observing_simps [simp] =
  observing_def record_plain_def observe_decap_error_def

section \<open>The outer queue\<close>

interpretation wg_queue: bounded_fifo
  "\<lambda>w. length (pending_network w) \<le> MAX_PENDING_NETWORK_PACKETS" pending_network
  "\<lambda>_. MAX_PENDING_NETWORK_PACKETS" queue_network
  "\<lambda>w. case pending_network w of [] \<Rightarrow> None | p # ps \<Rightarrow> Some (p, w\<lparr>pending_network := ps\<rparr>)"
  by unfold_locales (auto simp: queue_network_def)

definition sent_in_order :: "('t, 's) logged_tunnel \<Rightarrow> bytes list \<Rightarrow> bool" where
  "sent_in_order w xs \<longleftrightarrow>
     length (pending_network w) \<le> MAX_PENDING_NETWORK_PACKETS \<and> subseq (sent w @ pending_network w) xs"

lemma sent_in_order_cong:
  "pending_network w' = pending_network w \<Longrightarrow> sent w' = sent w \<Longrightarrow> sent_in_order w' xs = sent_in_order w xs"
  by (simp add: sent_in_order_def)

lemma sent_in_order_longer: "sent_in_order w xs \<Longrightarrow> sent_in_order w (xs @ ys)"
  by (auto simp: sent_in_order_def)

lemma queue_network_keeps [simp]:
  "tunn (queue_network p w) = tunn w" "sock (queue_network p w) = sock w" "wg_reserved (queue_network p w) = wg_reserved w"
  by (simp_all add: queue_network_def Let_def)

lemma queue_in_order:
  assumes "sent_in_order w xs"
  shows "sent_in_order (queue_network p w) (xs @ [p])"
  using assms wg_queue.push_subseq [of w "sent w" xs p] wg_queue.invar_push [of w p]
  by (simp add: sent_in_order_def sent_def)

lemma send_or_queue_in_order:
  assumes "sent_in_order w xs" "send_or_queue_network (logging L) p w = (w', r)"
  shows "sent_in_order w' (xs @ [p]) \<and> tunn w' = tunn w \<and> wg_reserved w' = wg_reserved w"
proof (cases "pending_network w = []")
  case False
  then show ?thesis using assms queue_in_order [OF assms(1), of p] by (auto simp: send_or_queue_network_def)
next
  case True
  obtain s lg where s: "sock w = (s, lg)" by force
  obtain s' q where t: "try_send L p s = (s', q)" by force
  have x: "subseq lg xs" using assms(1) True s by (simp add: sent_in_order_def sent_def)
  have moved: "sent_in_order (w\<lparr>sock := (s', lg)\<rparr>) xs"
    using assms(1) s by (simp add: sent_in_order_def sent_def)
  show ?thesis
  proof (cases q)
    case (Inr n)
    have "subseq (lg @ [p]) (xs @ [p])" using x by (simp add: list_emb_append_mono)
    then show ?thesis
      using assms(2) True s t Inr by (auto simp: send_or_queue_network_def logging_def sent_in_order_def sent_def)
  next
    case (Inl e)
    then show ?thesis
      using assms(2) True s t queue_in_order [OF moved, of p] sent_in_order_longer [OF moved, of "[p]"]
      by (auto simp: send_or_queue_network_def logging_def split: if_splits)
  qed
qed

lemma flush_in_order:
  "sent_in_order w xs \<Longrightarrow> poll_network_flush (logging L) w = (w', r) \<Longrightarrow>
     sent_in_order w' xs \<and> tunn w' = tunn w \<and> wg_reserved w' = wg_reserved w"
proof (induction "logging L" w arbitrary: w' r rule: poll_network_flush.induct)
  case (1 w)
  show ?case
  proof (cases "pending_network w")
    case Nil
    then show ?thesis using 1 by (simp add: poll_network_flush.simps)
  next
    case (Cons p rest)
    obtain s lg where s: "sock w = (s, lg)" by force
    obtain s1 q where r1: "send_ready L s = (s1, q)" by force
    obtain s2 q2 where r2: "try_send L p s1 = (s2, q2)" by force
    have keep: "sent_in_order (w\<lparr>sock := (s', lg)\<rparr>) xs" for s'
      using 1(2) s by (simp add: sent_in_order_def sent_def)
    show ?thesis
    proof (cases "\<exists>u. q = Ready (Inr u) \<and> (\<exists>n. q2 = Inr n)")
      case True
      then obtain n where n: "q2 = Inr n" "q = Ready (Inr ())" by auto
      let ?w = "observing (record_outer_backlog (length rest))
        ((observing (record_outer_tx n) (w\<lparr>sock := (s2, lg @ [p])\<rparr>))\<lparr>pending_network := rest\<rparr>)"
      have "sent_in_order ?w xs"
        using 1(2) s Cons by (simp add: sent_in_order_def sent_def)
      moreover have "poll_network_flush (logging L) ?w = (w', r)"
        using 1(3) Cons s r1 r2 n by (subst (asm) poll_network_flush.simps) (simp add: logging_def)
      ultimately show ?thesis
        using 1(1) [OF Cons, of "(s1, lg)" "Ready (Ok ())" "Ok ()" "()" "(s2, lg @ [p])" "Ok n" n w' r] s r1 r2 n
        by (simp add: logging_def)
    next
      case False
      then show ?thesis
        using 1(3) Cons s r1 r2 keep
        by (subst (asm) poll_network_flush.simps)
          (auto simp: logging_def split: poll.splits sum.splits if_splits)
    qed
  qed
qed

section \<open>Every operation keeps the order\<close>

text \<open>
  \<open>flow_ok\<close> is the invariant.  \<open>midway w res\<close> is the state in which the machine has just answered \<open>res\<close>:
  its packet, if any, is in the history and not yet on its way.
\<close>

definition patched :: "('t, 's) logged_tunnel \<Rightarrow> bytes list \<Rightarrow> bytes list" where
  "patched w = map (patch_reserved (wg_reserved w))"

definition midway :: "('t, 's) logged_tunnel \<Rightarrow> TunnResult \<Rightarrow> bool" where
  "midway w res \<longleftrightarrow> (\<exists>ps. produced (tlog w) = ps @ net res \<and> sent_in_order w (patched w ps))"

definition flow_ok :: "('t, 's) logged_tunnel \<Rightarrow> bool" where
  "flow_ok w \<longleftrightarrow> sent_in_order w (patched w (produced (tlog w)))"

lemma midway_nothing: "net res = [] \<Longrightarrow> midway w res \<longleftrightarrow> flow_ok w"
  by (auto simp: midway_def flow_ok_def)

lemma midway_ok: "midway w res \<Longrightarrow> flow_ok w"
  by (auto simp: midway_def flow_ok_def patched_def sent_in_order_longer)

lemma midway_call:
  assumes "flow_ok w" "tunn w' = (t, lg)" "produced lg = produced (tlog w) @ net res"
    "sock w' = sock w" "pending_network w' = pending_network w" "wg_reserved w' = wg_reserved w"
  shows "midway w' res"
  using assms unfolding midway_def flow_ok_def tlog_def
  by (intro exI [of _ "produced (snd (tunn w))"]) (simp add: patched_def sent_in_order_def sent_def tlog_def)

lemma midway_send:
  assumes "midway w (TunnNetwork p)" "send_or_queue_network (logging L) (prepare_network_packet w p) w = (w', r)"
  shows "flow_ok w' \<and> tunn w' = tunn w \<and> wg_reserved w' = wg_reserved w"
proof -
  obtain ps where ps: "produced (tlog w) = ps @ [p]" "sent_in_order w (patched w ps)"
    using assms(1) by (auto simp: midway_def)
  from send_or_queue_in_order [OF ps(2) assms(2)] ps(1) show ?thesis
    by (simp add: flow_ok_def patched_def tlog_def prepare_network_packet_def)
qed

lemma flow_ok_frame:
  assumes "flow_ok w" "tunn w' = tunn w" "sent w' = sent w" "pending_network w' = pending_network w"
    "wg_reserved w' = wg_reserved w"
  shows "flow_ok w'"
  using assms by (simp add: flow_ok_def sent_in_order_def patched_def tlog_def)

lemma midway_frame:
  assumes "midway w res" "tunn w' = tunn w" "sent w' = sent w" "pending_network w' = pending_network w"
    "wg_reserved w' = wg_reserved w"
  shows "midway w' res"
  using assms by (simp add: midway_def sent_in_order_def patched_def tlog_def)

text \<open>What an operation may do to the histories of plaintext.\<close>

definition gives :: "('t, 's) logged_tunnel \<Rightarrow> bytes list \<Rightarrow> bytes list \<Rightarrow> ('t, 's) logged_tunnel \<Rightarrow> bool" where
  "gives w ins outs w' \<longleftrightarrow>
     flow_ok w' \<and> wg_reserved w' = wg_reserved w
     \<and> fed_plain (tlog w') = fed_plain (tlog w) @ ins \<and> opened_plain (tlog w') = opened_plain (tlog w) @ outs"

lemma gives_refl: "flow_ok w \<Longrightarrow> gives w [] [] w"
  by (simp add: gives_def)

lemma gives_trans: "gives a i j b \<Longrightarrow> gives b k l c \<Longrightarrow> gives a (i @ k) (j @ l) c"
  by (simp add: gives_def)

lemma gives_sock: "flow_ok w \<Longrightarrow> sock w = (s, lg) \<Longrightarrow> gives w [] [] (w\<lparr>sock := (s', lg)\<rparr>)"
  by (auto simp: gives_def tlog_def sent_def intro: flow_ok_frame)

lemma flush_gives:
  assumes "flow_ok w" "poll_network_flush (logging L) w = (w', r)"
  shows "gives w [] [] w'"
  using flush_in_order [OF assms(1) [unfolded flow_ok_def] assms(2)]
  by (simp add: gives_def flow_ok_def patched_def tlog_def)

lemma timer_packet_midway:
  assumes "flow_ok w" "timer_packet (logging L) w = (w', r)"
  shows "fed_plain (tlog w') = fed_plain (tlog w) \<and> opened_plain (tlog w') = opened_plain (tlog w)
    \<and> wg_reserved w' = wg_reserved w
    \<and> (case r of Inr (Some p) \<Rightarrow> \<exists>q. p = prepare_network_packet w' q \<and> midway w' (TunnNetwork q) | _ \<Rightarrow> flow_ok w')"
proof -
  obtain t lg where t: "tunn w = (t, lg)" by force
  obtain t1 r1 where 1: "update_timers L t = (t1, r1)" by force
  obtain t2 r2 where 2: "handshake_initiation L t1 = (t2, r2)" by force
  have m1: "midway (w\<lparr>tunn := (t1, log_net r1 lg)\<rparr>) r1"
    using midway_call [OF assms(1), of _ t1 "log_net r1 lg" r1] t by (simp add: log_net_def tlog_def)
  have m2: "midway (w\<lparr>tunn := (t2, log_net r2 lg)\<rparr>) r2"
    using midway_call [OF assms(1), of _ t2 "log_net r2 lg" r2] t by (simp add: log_net_def tlog_def)
  show ?thesis
  proof (cases "r1 = TunnErr ConnectionExpired")
    case True
    then show ?thesis
      using assms(2) t 1 2 m2 midway_ok [OF m2]
      by (cases r2) (auto simp: timer_packet_def logging_def log_net_def tlog_def prepare_network_packet_def)
  next
    case False
    then show ?thesis
      using assms(2) t 1 m1 midway_ok [OF m1]
      by (cases r1) (auto simp: timer_packet_def logging_def log_net_def tlog_def prepare_network_packet_def split: if_splits)
  qed
qed

lemma try_tick_gives:
  assumes "flow_ok w" "try_tick (logging L) w = (w', r)"
  shows "gives w [] [] w'"
proof -
  obtain w1 r1 where 1: "timer_packet (logging L) w = (w1, r1)" by force
  note m = timer_packet_midway [OF assms(1) 1]
  show ?thesis
  proof (cases "\<exists>p. r1 = Inr (Some p)")
    case True
    then obtain p where p: "r1 = Inr (Some p)" by blast
    then obtain q where q: "p = prepare_network_packet w1 q" "midway w1 (TunnNetwork q)" using m by auto
    then have "send_or_queue_network (logging L) (prepare_network_packet w1 q) w1 = (w', r)"
      using assms(2) 1 p by (simp add: try_tick_def)
    from midway_send [OF q(2) this] m show ?thesis by (simp add: gives_def tlog_def)
  next
    case False
    with assms(2) 1 m show ?thesis
      by (auto simp: try_tick_def gives_def split: sum.splits option.splits)
  qed
qed

lemma tick_loop_gives:
  "tick_loop L' w = Some x \<Longrightarrow> L' = logging L \<Longrightarrow> flow_ok w \<Longrightarrow> gives w [] [] (fst x)"
proof (induction L' w x rule: tick_loop.raw_induct [rotated, consumes 1])
  case (1 rec L' w x)
  obtain s lg where s: "sock w = (s, lg)" by force
  obtain s1 due where d: "tick_due L s = (s1, due)" by force
  have g0: "gives w [] [] (w\<lparr>sock := (s1, lg)\<rparr>)" by (rule gives_sock [OF \<open>flow_ok w\<close> s])
  have td: "tick_due (logging L) (sock w) = ((s1, lg), due)" using s d by (simp add: logging_def)
  show ?case
  proof (cases due)
    case False
    with 1(2) \<open>L' = logging L\<close> td g0 show ?thesis by auto
  next
    case True
    obtain w2 r2 where 2: "try_tick (logging L) (w\<lparr>sock := (s1, lg)\<rparr>) = (w2, r2)" by force
    have "gives (w\<lparr>sock := (s1, lg)\<rparr>) [] [] w2" using try_tick_gives [OF _ 2] g0 by (simp add: gives_def)
    with gives_trans [OF g0] have g2: "gives w [] [] w2" by fastforce
    show ?thesis
    proof (cases r2)
      case (Inl e)
      with 1(2) \<open>L' = logging L\<close> td True 2 g2 show ?thesis by auto
    next
      case (Inr u)
      with 1(2) \<open>L' = logging L\<close> td True 2 have "rec (logging L) w2 = Some x" by simp
      with 1(1) [of "logging L" w2 x] g2 have "gives w2 [] [] (fst x)" by (simp add: gives_def)
      with gives_trans [OF g2] show ?thesis by fastforce
    qed
  qed
qed

text \<open>The results of one datagram: \<open>base\<close> is what had been opened before it.\<close>

definition out_plain :: "(IoErr, bytes option) result \<Rightarrow> bytes list" where
  "out_plain r = (case r of Inr (Some p) \<Rightarrow> [p] | _ \<Rightarrow> [])"

lemma decap_loop_gives:
  "decap_loop L' w res = Some x \<Longrightarrow> L' = logging L \<Longrightarrow> midway w res \<Longrightarrow>
     opened_plain (tlog w) = base @ plain_of res \<Longrightarrow>
     flow_ok (fst x) \<and> wg_reserved (fst x) = wg_reserved w
     \<and> fed_plain (tlog (fst x)) = fed_plain (tlog w) \<and> opened_plain (tlog (fst x)) = base @ out_plain (snd x)"
proof (induction L' w res x rule: decap_loop.raw_induct [rotated, consumes 1])
  case (1 rec L' w res x)
  note eq = 1(2) and IH = 1(1)
  show ?case
  proof (cases "\<exists>p. res = TunnNetwork p")
    case False
    have ok: "flow_ok w" by (rule midway_ok [OF \<open>midway w res\<close>])
    from False 1(2) \<open>opened_plain _ = _\<close> show ?thesis
      by (cases res) (auto simp: tlog_def out_plain_def sent_def intro: flow_ok_frame [OF ok])
  next
    case True
    then obtain p where p: "res = TunnNetwork p" by blast
    let ?w = "observing (record_decap WriteToNetwork) w"
    obtain w1 r1 where 1: "send_or_queue_network (logging L) (prepare_network_packet w p) ?w = (w1, r1)" by force
    have "midway ?w (TunnNetwork p)" using \<open>midway w res\<close> p by (auto simp: sent_def intro: midway_frame)
    from midway_send [OF this, of L w1 r1] 1
    have m: "flow_ok w1" "tunn w1 = tunn w" "wg_reserved w1 = wg_reserved w"
      by (simp_all add: prepare_network_packet_def)
    show ?thesis
    proof (cases r1)
      case (Inl e)
      with eq \<open>L' = logging L\<close> p 1 m \<open>opened_plain _ = _\<close> show ?thesis
        by (auto simp: out_plain_def tlog_def)
    next
      case (Inr u)
      obtain t lg where t: "tunn w1 = (t, lg)" by force
      obtain t2 res2 where 2: "decapsulate L [] t = (t2, res2)" by force
      let ?lg = "(log_net res2 lg)\<lparr>opened_plain := opened_plain lg @ plain_of res2\<rparr>"
      let ?w2 = "w1\<lparr>tunn := (t2, ?lg)\<rparr>"
      have dec: "decapsulate (logging L) [] (tunn w1) = ((t2, ?lg), res2)" using t 2 by (simp add: logging_def)
      have "midway ?w2 res2"
        using midway_call [OF m(1), of ?w2 t2 ?lg res2] t by (simp add: log_net_def tlog_def)
      moreover have "opened_plain (tlog ?w2) = base @ plain_of res2" "fed_plain (tlog ?w2) = fed_plain (tlog w)"
        using \<open>opened_plain (tlog w) = _\<close> p t m(2) by (simp_all add: tlog_def log_net_def)
      moreover have "rec (logging L) ?w2 res2 = Some x"
        using eq \<open>L' = logging L\<close> p 1 Inr dec by simp
      ultimately show ?thesis
        using IH [of "logging L" ?w2 res2 x] m(3) by simp
    qed
  qed
qed

definition poll_plain :: "(IoErr, bytes option) result poll \<Rightarrow> bytes list" where
  "poll_plain r = (case r of Ready (Inr (Some p)) \<Rightarrow> [p] | _ \<Rightarrow> [])"

lemma poll_recv_gives:
  assumes "poll_recv_plaintext (logging L) w = Some (w', r)" "flow_ok w"
  shows "gives w [] (poll_plain r) w'"
proof -
  obtain s lg where s: "sock w = (s, lg)" by force
  obtain s1 q where q: "sock_recv L PACKET_BUF s = (s1, q)" by force
  have g0: "gives w [] [] (w\<lparr>sock := (s1, lg)\<rparr>)" by (rule gives_sock [OF assms(2) s])
  have recv: "sock_recv (logging L) PACKET_BUF (sock w) = ((s1, lg), q)" using s q by (simp add: logging_def)
  show ?thesis
  proof (cases q rule: poll_cases)
    case 1
    with assms(1) recv g0 show ?thesis by (simp add: poll_recv_plaintext_def poll_plain_def)
  next
    case (2 e)
    with assms(1) recv g0 show ?thesis by (auto simp: poll_recv_plaintext_def poll_plain_def)
  next
    case (3 raw)
    let ?w1 = "observing (record_outer_rx (length raw)) (w\<lparr>sock := (s1, lg)\<rparr>)"
    obtain t tl where t: "tunn w = (t, tl)" by force
    obtain t2 res where d: "decapsulate L (strip_reserved raw) t = (t2, res)" by force
    let ?tl = "(log_net res tl)\<lparr>opened_plain := opened_plain tl @ plain_of res\<rparr>"
    let ?w2 = "?w1\<lparr>tunn := (t2, ?tl)\<rparr>"
    have ok1: "flow_ok ?w1" using g0 by (auto simp: gives_def sent_def intro: flow_ok_frame)
    have m: "midway ?w2 res"
      using midway_call [OF ok1, of ?w2 t2 ?tl res] t by (simp add: log_net_def tlog_def)
    have "decapsulate (logging L) (strip_reserved raw) (tunn ?w1) = ((t2, ?tl), res)"
      using t d by (simp add: logging_def)
    then obtain x where x: "decap_loop (logging L) ?w2 res = Some x" "w' = fst x" "r = Ready (snd x)"
      using assms(1) recv 3 by (auto simp: poll_recv_plaintext_def)
    have "opened_plain (tlog ?w2) = opened_plain (tlog w) @ plain_of res" using t by (simp add: tlog_def)
    from decap_loop_gives [OF x(1) refl m this] x(2,3) t show ?thesis
      by (simp add: gives_def poll_plain_def out_plain_def tlog_def log_net_def split: sum.splits option.splits)
  qed
qed

definition next_plain :: "(IoErr, bytes) result option poll \<Rightarrow> bytes list" where
  "next_plain r = (case r of Ready (Some (Inr p)) \<Rightarrow> [p] | _ \<Rightarrow> [])"

lemma recv_turns_gives:
  "recv_turns (logging L) n w = Some (w', r) \<Longrightarrow> flow_ok w \<Longrightarrow> gives w [] (next_plain r) w'"
proof (induction n arbitrary: w)
  case 0
  then show ?case by (simp add: gives_refl next_plain_def)
next
  case (Suc n)
  obtain w1 r1 where 1: "poll_recv_plaintext (logging L) w = Some (w1, r1)"
    using Suc.prems(1) by (cases "poll_recv_plaintext (logging L) w") auto
  have g1: "gives w [] (poll_plain r1) w1" by (rule poll_recv_gives [OF 1 Suc.prems(2)])
  show ?case
  proof (cases "r1 = Ready (Inr None)")
    case True
    with Suc 1 g1 have "gives w1 [] (next_plain r) w'" by (simp add: gives_def)
    with gives_trans [OF g1] True show ?thesis by (fastforce simp: poll_plain_def)
  next
    case False
    with Suc.prems 1 g1 show ?thesis
      by (auto simp: poll_plain_def next_plain_def split: poll.splits sum.splits option.splits)
  qed
qed

lemma wg_poll_next_gives:
  assumes "wg_poll_next (logging L) w = Some (w', r)" "flow_ok w"
  shows "gives w [] (next_plain r) w'"
proof -
  obtain w1 r1 where 1: "tick_loop (logging L) w = Some (w1, r1)"
    using assms(1) by (cases "tick_loop (logging L) w") (auto simp: wg_poll_next_def)
  obtain w2 r2 where 2: "poll_network_flush (logging L) w1 = (w2, r2)" by force
  have g1: "gives w [] [] w1" using tick_loop_gives [OF 1 refl assms(2)] by simp
  then have "gives w1 [] [] w2" using flush_gives [OF _ 2] by (simp add: gives_def)
  with gives_trans [OF g1] have g2: "gives w [] [] w2" by fastforce
  show ?thesis
  proof (cases "(\<exists>e. r1 = Inl e) \<or> (\<exists>e. r2 = Ready (Inl e))")
    case True
    with assms(1) 1 2 g1 g2 show ?thesis
      by (auto simp: wg_poll_next_def next_plain_def split: sum.splits)
  next
    case False
    then have rt: "recv_turns (logging L) MAX_RECEIVE_BURST w2 = Some (w', r)"
      using assms(1) 1 2 by (auto simp: wg_poll_next_def split: poll.splits sum.splits)
    have "flow_ok w2" using g2 by (simp add: gives_def)
    from recv_turns_gives [OF rt this] have "gives w2 [] (next_plain r) w'" .
    with gives_trans [OF g2] show ?thesis by fastforce
  qed
qed

lemma wg_start_send_gives:
  assumes "wg_start_send (logging L) p w = (w', r)" "flow_ok w"
  shows "gives w [p] [] w'"
proof -
  let ?w0 = "record_plain (logging L) Tx p w"
  obtain t lg where t: "tunn w = (t, lg)" by force
  obtain t1 res where e: "encapsulate L p t = (t1, res)" by force
  let ?lg = "(log_net res lg)\<lparr>fed_plain := fed_plain lg @ [p]\<rparr>"
  let ?w1 = "?w0\<lparr>tunn := (t1, ?lg)\<rparr>"
  have ok0: "flow_ok ?w0" using assms(2) by (auto simp: sent_def intro: flow_ok_frame)
  have m: "midway ?w1 res"
    using midway_call [OF ok0, of ?w1 t1 ?lg res] t by (simp add: log_net_def tlog_def)
  have enc: "encapsulate (logging L) p (tunn ?w0) = ((t1, ?lg), res)" using t e by (simp add: logging_def)
  show ?thesis
  proof (cases "\<exists>q. res = TunnNetwork q")
    case True
    then obtain q where q: "res = TunnNetwork q" by blast
    then have "send_or_queue_network (logging L) (prepare_network_packet ?w1 q) ?w1 = (w', r)"
      using assms(1) enc by (simp add: wg_start_send_def prepare_network_packet_def)
    from midway_send [OF m [unfolded q] this [unfolded q]] t show ?thesis
      by (simp add: gives_def tlog_def log_net_def)
  next
    case False
    with assms(1) enc midway_ok [OF m] t show ?thesis
      by (cases res) (auto simp: wg_start_send_def gives_def tlog_def log_net_def)
  qed
qed

interpretation wg: reactor_device "wg_device (logging L)" flow_ok
  "\<lambda>w. fed_plain (tlog w)" "\<lambda>w. opened_plain (tlog w)" for L
proof unfold_locales
  fix d d' :: "('a, 'b) logged_tunnel" and r
  assume ok: "flow_ok d"
  show "poll_ready (wg_device (logging L)) d = (d', r) \<Longrightarrow>
      flow_ok d' \<and> fed_plain (tlog d') = fed_plain (tlog d) \<and> opened_plain (tlog d') = opened_plain (tlog d)"
    "poll_flush (wg_device (logging L)) d = (d', r) \<Longrightarrow>
      flow_ok d' \<and> fed_plain (tlog d') = fed_plain (tlog d) \<and> opened_plain (tlog d') = opened_plain (tlog d)"
    using flush_gives [OF ok] by (auto simp: wg_device_def gives_def)
next
  fix d d' :: "('a, 'b) logged_tunnel" and p s
  assume "flow_ok d" "start_send (wg_device (logging L)) p d = (d', s)"
  then show "flow_ok d' \<and> fed_plain (tlog d') = fed_plain (tlog d) @ [p] \<and> opened_plain (tlog d') = opened_plain (tlog d)"
    using wg_start_send_gives by (fastforce simp: wg_device_def gives_def)
next
  fix d d' :: "('a, 'b) logged_tunnel" and q
  assume "flow_ok d" "poll_next (wg_device (logging L)) d = (d', q)"
  then show "flow_ok d' \<and> fed_plain (tlog d') = fed_plain (tlog d)
      \<and> opened_plain (tlog d') = opened_plain (tlog d) @ (case q of Ready (Some (Inr p)) \<Rightarrow> [p] | _ \<Rightarrow> [])"
    using wg_poll_next_gives [of L d d' q]
    by (auto simp: wg_device_def gives_def next_plain_def split: option.splits)
qed

section \<open>A poll returns\<close>

text \<open>
  What the libraries document: a machine asked again with an empty datagram runs out of packets to send,
  and the interval timer, which delays after a missed tick, has finitely many ticks due at a time.
\<close>

locale wg_laws =
  fixes L :: "('t, 's) wg_lib" and queued :: "'t \<Rightarrow> nat" and due :: "'s \<Rightarrow> nat"
  assumes drains: "decapsulate L [] t = (t', TunnNetwork p) \<Longrightarrow> queued t' < queued t"
    and ticks: "tick_due L s = (s', True) \<Longrightarrow> due s' < due s"
    and sends: "try_send L p s = (s', r) \<Longrightarrow> due s' \<le> due s"
begin

lemma send_or_queue_keeps:
  "send_or_queue_network L p w = (w', r) \<Longrightarrow> tunn w' = tunn w \<and> due (sock w') \<le> due (sock w)"
  using sends by (auto simp: send_or_queue_network_def split: if_splits prod.splits sum.splits)

lemma decap_loop_returns: "\<exists>x. decap_loop L w res = Some x"
proof (induction "queued (tunn w)" arbitrary: w res rule: less_induct)
  case less
  show ?case
  proof (cases "\<exists>p. res = TunnNetwork p")
    case False
    then show ?thesis by (subst decap_loop.simps) (cases res; auto)
  next
    case True
    then obtain p where p: "res = TunnNetwork p" by blast
    obtain w1 r1 where 1: "send_or_queue_network L (prepare_network_packet w p) (observing (record_decap WriteToNetwork) w) = (w1, r1)"
      by force
    then have t: "tunn w1 = tunn w" using send_or_queue_keeps by fastforce
    obtain t2 res2 where 2: "decapsulate L [] (tunn w1) = (t2, res2)" by force
    have "\<exists>x. decap_loop L (w1\<lparr>tunn := t2\<rparr>) res2 = Some x"
    proof (cases "\<exists>q. res2 = TunnNetwork q")
      case True
      then show ?thesis using less [of "w1\<lparr>tunn := t2\<rparr>"] drains 2 t by fastforce
    next
      case False
      then show ?thesis by (subst decap_loop.simps) (cases res2; auto)
    qed
    with 1 2 p show ?thesis by (subst decap_loop.simps) (auto split: sum.splits)
  qed
qed

lemma try_tick_due: "try_tick L w = (w', r) \<Longrightarrow> due (sock w') \<le> due (sock w)"
proof -
  assume tick: "try_tick L w = (w', r)"
  obtain w1 r1 where 1: "timer_packet L w = (w1, r1)" by force
  then have "sock w1 = sock w"
    by (auto simp: timer_packet_def split: prod.splits TunnResult.splits if_splits)
  with tick 1 send_or_queue_keeps [of _ w1 w' r] show ?thesis
    by (auto simp: try_tick_def split: sum.splits option.splits)
qed

lemma tick_loop_returns: "\<exists>x. tick_loop L w = Some x"
proof (induction "due (sock w)" arbitrary: w rule: less_induct)
  case less
  obtain s d where d: "tick_due L (sock w) = (s, d)" by force
  obtain w1 r1 where 1: "try_tick L (w\<lparr>sock := s\<rparr>) = (w1, r1)" by force
  have "\<exists>x. tick_loop L w1 = Some x" if "d"
    using less [of w1] ticks [of "sock w" s] try_tick_due [OF 1] d that by fastforce
  with d 1 show ?case by (subst tick_loop.simps) (auto split: sum.splits)
qed

lemma recv_turns_returns: "\<exists>x. recv_turns L n w = Some x"
proof (induction n arbitrary: w)
  case (Suc n)
  have "\<exists>y. poll_recv_plaintext L w = Some y"
    using decap_loop_returns by (fastforce simp: poll_recv_plaintext_def split: prod.splits poll.splits sum.splits)
  with Suc show ?case by (auto split: poll.splits sum.splits option.splits)
qed simp

lemma poll_next_returns: "\<exists>w' r. wg_poll_next L w = Some (w', r)"
proof -
  obtain w1 r1 where 1: "tick_loop L w = Some (w1, r1)" using tick_loop_returns [of w] by auto
  obtain w2 r2 where 2: "poll_network_flush L w1 = (w2, r2)" by force
  obtain w3 r3 where 3: "recv_turns L MAX_RECEIVE_BURST w2 = Some (w3, r3)"
    using recv_turns_returns [of MAX_RECEIVE_BURST w2] by auto
  from 1 2 3 show ?thesis by (auto simp: wg_poll_next_def split: sum.splits poll.splits)
qed

end

text \<open>
  Libraries with the laws: a machine whose state is the number of packets it still has to send, and a
  socket with its ticks due and its arrived datagrams.
\<close>

definition count_lib :: "(nat, nat \<times> bytes list) wg_lib" where
  "count_lib =
     \<lparr>decapsulate = (\<lambda>d t. if d = [] then (case t of 0 \<Rightarrow> (0, TunnDone) | Suc n \<Rightarrow> (n, TunnNetwork [2, 0, 0, 0]))
        else (t, TunnNetwork [2, 0, 0, 0])),
      encapsulate = (\<lambda>p t. (t, TunnNetwork (4 # 0 # 0 # 0 # p))),
      update_timers = (\<lambda>t. (t, TunnDone)), handshake_initiation = (\<lambda>t. (t, TunnDone)), handshaken = (\<lambda>t. True),
      try_send = (\<lambda>p s. (s, Ok (length p))), send_ready = (\<lambda>s. (s, Ready (Ok ()))),
      sock_send = (\<lambda>p s. (s, Ok (length p))),
      sock_recv = (\<lambda>n s. case snd s of [] \<Rightarrow> (s, Pending) | d # ds \<Rightarrow> ((fst s, ds), Ready (Ok (take n d)))),
      recv_within = (\<lambda>ms n s. (s, None)),
      tick_due = (\<lambda>s. case fst s of 0 \<Rightarrow> (s, False) | Suc k \<Rightarrow> ((k, snd s), True)),
      clock = (\<lambda>s. 0), packet_views = \<lparr>ipv4_view = (\<lambda>_. None), ipv6_view = (\<lambda>_. None), tcp_view = (\<lambda>_. None)\<rparr>\<rparr>"

interpretation counting: wg_laws count_lib "\<lambda>t. t" fst
  by unfold_locales (auto simp: count_lib_def split: nat.splits if_splits)

section \<open>Properties\<close>

text \<open>
  C14: the data path from the protocol stack to the outer network and back, for every protocol machine,
  socket and schedule.  The packets given to the WireGuard machine, followed by those waiting for it, are
  the packets the stack emitted, in order, less some that met a full queue; the packets the stack has
  taken, followed by those waiting for it, are exactly the packets the machine opened, in order; and the
  datagrams the socket accepted, followed by those pending, are the machine's packets with the reserved
  bytes in place, in order, less some lost to a full queue of 256 or a failing socket.
\<close>

theorem wireguard_dataplane_in_order:
  "case run_reactor (wg_device (logging L)) iface polls can_transmit
          (w\<lparr>tunn := (t, no_log), sock := (s, []), pending_network := []\<rparr>) (BufferDevice_new burst) i of
     (w', buffered, i', evs, r) \<Rightarrow>
       subseq (fed_plain (tlog w') @ send_queue buffered) (emitted evs)
       \<and> delivered evs @ recv_queue buffered = opened_plain (tlog w')
       \<and> subseq (sent w' @ pending_network w') (map (patch_reserved (wg_reserved w')) (produced (tlog w')))
       \<and> length (pending_network w') \<le> 256"
proof -
  let ?w = "w\<lparr>tunn := (t, no_log), sock := (s, []), pending_network := []\<rparr>"
  obtain w' b j evs r where run: "run_reactor (wg_device (logging L)) iface polls can_transmit ?w (BufferDevice_new burst) i
      = (w', b, j, evs, r)"
    using prod_cases5 by blast
  have "flow_ok ?w" by (simp add: flow_ok_def sent_in_order_def tlog_def no_log_def patched_def sent_def)
  from wg.run_device [OF this run]
  have a: "flow_ok w'" "fed_plain (tlog w') = to_device evs" "opened_plain (tlog w') = from_device evs"
    by (simp_all add: tlog_def no_log_def)
  have "device_ok (BufferDevice_new burst)" by (simp add: device_ok_def BufferDevice_new_def)
  from run_reactor_moves [OF this run] a run show ?thesis
    by (simp add: moves_def BufferDevice_new_def flow_ok_def sent_in_order_def patched_def MAX_PENDING_NETWORK_PACKETS_def)
qed

text \<open>
  C24: a poll of the tunnel for the next packet returns, however many control packets the machine still
  wants to send and however many timer ticks are due.
\<close>

theorem tunnel_poll_returns:
  assumes "wg_laws L queued due"
  shows "\<exists>w' r. wg_poll_next L w = Some (w', r)"
  by (rule wg_laws.poll_next_returns [OF assms])

text \<open>Three packets still to be sent, two ticks due and one datagram waiting.\<close>

lemma tunnel_poll_returns_witness:
  "\<exists>w' r. wg_poll_next count_lib
     \<lparr>tunn = 3, sock = (2, [[4, 1, 1, 1, 9]]), wg_reserved = (1, 2, 3), trick = NoTrick, started_at = 0,
      peer_endpoint = SockAddr (V4 1 2 3 4) 2408, observer = observer_new, tracker = default_DecapErrorTracker,
      pending_network = []\<rparr> = Some (w', r)"
  by (rule tunnel_poll_returns [OF counting.wg_laws_axioms])

end
