(* ===== verification/Endpoint.thy ===== *)
theory Endpoint
  imports Fsutil Ttl_Cache
begin

text \<open>
  \<^verbatim>\<open>endpoint/source.rs\<close> and \<^verbatim>\<open>endpoint/state.rs\<close>: the candidate endpoints of the tunnel, the order in which
  they are tried, and the persistent record of the last good one and of the cooldowns.  The JSON library
  is a pair of functions; every reading of the clock is an argument.
\<close>

section \<open>Candidates\<close>

definition BUILTIN_CANDIDATES :: "string list" where
  "BUILTIN_CANDIDATES =
     [''162.159.193.5:2408'', ''162.159.193.9:500'', ''162.159.193.8:1701'', ''162.159.193.3:4500'',
      ''162.159.193.7:2408'', ''162.159.193.47:500'', ''162.159.193.10:1701'', ''162.159.193.11:4500'']"

definition format_endpoint :: "string \<Rightarrow> u16 \<Rightarrow> string" where
  "format_endpoint host port =
     (let looks_like_ipv6 =
            ((case parse_ip host of None \<Rightarrow> False | Some ip \<Rightarrow> \<not> is_ipv4 ip) \<or> CHR '':'' \<in> set host)
      in if looks_like_ipv6 then ''['' @ host @ '']:'' @ show_u16 port else host @ '':'' @ show_u16 port)"

text \<open>The host and the text of the port, before they are checked.\<close>

definition split_endpoint :: "string \<Rightarrow> (string \<times> string) option" where
  "split_endpoint s =
     (case strip_prefix ''['' s of
        Some rest \<Rightarrow>
          (case split_once (CHR '']'') rest of
             None \<Rightarrow> None
           | Some (host, after) \<Rightarrow>
               Some (host, case strip_prefix '':'' after of None \<Rightarrow> [] | Some port \<Rightarrow> port))
      | None \<Rightarrow>
          (case rsplit_once (CHR '':'') s of
             Some (host, port) \<Rightarrow> Some (host, port)
           | None \<Rightarrow> Some (s, [])))"

definition normalize_endpoint :: "string \<Rightarrow> string option" where
  "normalize_endpoint raw =
     (let trimmed = trim raw in
      if trimmed = [] then None
      else
        case split_endpoint trimmed of
          None \<Rightarrow> None
        | Some (host, port) \<Rightarrow>
            if host = [] then None
            else
              case parse_u16 (if port = [] then ''2408'' else port) of
                None \<Rightarrow> None
              | Some p \<Rightarrow> if 1 \<le> p then Some (format_endpoint host p) else None)"

fun dedup_loop :: "'a list \<Rightarrow> 'a list \<Rightarrow> 'a list" where
  "dedup_loop seen [] = []"
| "dedup_loop seen (x # xs) = (if x \<in> set seen then dedup_loop seen xs else x # dedup_loop (x # seen) xs)"

definition dedup_preserve_order :: "'a list \<Rightarrow> 'a list" where
  "dedup_preserve_order xs = dedup_loop [] xs"

definition candidate_pool :: "string \<Rightarrow> string list" where
  "candidate_pool manual_csv =
     (let manual = dedup_preserve_order (List.map_filter normalize_endpoint (split_on (CHR '','') manual_csv))
      in if manual = [] then dedup_preserve_order BUILTIN_CANDIDATES else manual)"

section \<open>The store\<close>

record ep_state =
  last_good_endpoint :: string
  cooldowns :: "(string, u64) hmap"

definition default_ep_state :: ep_state where
  "default_ep_state = \<lparr>last_good_endpoint = [], cooldowns = []\<rparr>"

record JsonFileEndpointStore =
  store_path :: path
  ep_state :: ep_state

record state_json =
  state_of :: "bytes \<Rightarrow> ep_state option"
  state_text :: "ep_state \<Rightarrow> bytes"

datatype EpErr = StateRead | StateDir IoErr | StateWrite IoErr

text \<open>The faults of one save: those of creating the directory and of writing the file.\<close>

type_synonym save_faults = "IoErr option \<times> fs_faults \<times> nat"

definition store_save :: "state_json \<Rightarrow> save_faults \<Rightarrow> JsonFileEndpointStore \<Rightarrow> fs \<Rightarrow> fs \<times> (EpErr, unit) result" where
  "store_save json faults store fs =
     (case faults of
        (Some e, _) \<Rightarrow> (fs, Err (StateDir e))
      | (None, f, rnd) \<Rightarrow>
          (case write_private f rnd (store_path store) (state_text json (ep_state store)) fs of
             (fs, r) \<Rightarrow> (fs, rmap_err StateWrite r)))"

definition prune_cooldowns ::
  "state_json \<Rightarrow> save_faults \<Rightarrow> u64 \<Rightarrow> bool \<Rightarrow> JsonFileEndpointStore \<Rightarrow> fs \<Rightarrow> fs \<times> (EpErr, JsonFileEndpointStore) result" where
  "prune_cooldowns json faults now force_save store fs =
     (let before = length (cooldowns (ep_state store));
          store = store\<lparr>ep_state := (ep_state store)\<lparr>cooldowns := hm_retain (\<lambda>until. now < until) (cooldowns (ep_state store))\<rparr>\<rparr>
      in if force_save \<or> before \<noteq> length (cooldowns (ep_state store))
         then (case store_save json faults store fs of (fs, r) \<Rightarrow> (fs, rbind r (\<lambda>_. Ok store)))
         else (fs, Ok store))"

text \<open>\<open>readable\<close> says whether a file that exists can be read.\<close>

definition store_load ::
  "state_json \<Rightarrow> save_faults \<Rightarrow> bool \<Rightarrow> u64 \<Rightarrow> path \<Rightarrow> fs \<Rightarrow> fs \<times> (EpErr, JsonFileEndpointStore) result" where
  "store_load json faults readable now p fs =
     (case fs p of
        None \<Rightarrow> prune_cooldowns json faults now True \<lparr>store_path = p, ep_state = default_ep_state\<rparr> fs
      | Some (_, data) \<Rightarrow>
          if readable then
            prune_cooldowns json faults now False
              \<lparr>store_path = p, ep_state = (case state_of json data of None \<Rightarrow> default_ep_state | Some s \<Rightarrow> s)\<rparr> fs
          else (fs, Err StateRead))"

definition last_good :: "JsonFileEndpointStore \<Rightarrow> string option" where
  "last_good store =
     (if last_good_endpoint (ep_state store) = [] then None else Some (last_good_endpoint (ep_state store)))"

text \<open>In seconds.\<close>

definition cooldown_remaining :: "u64 \<Rightarrow> JsonFileEndpointStore \<Rightarrow> string \<Rightarrow> u64" where
  "cooldown_remaining now store e =
     (case map_of (cooldowns (ep_state store)) e of
        None \<Rightarrow> 0
      | Some until \<Rightarrow> if until \<le> now then 0 else until - now)"

definition is_cooling_down :: "u64 \<Rightarrow> JsonFileEndpointStore \<Rightarrow> string \<Rightarrow> bool" where
  "is_cooling_down now store e \<longleftrightarrow> cooldown_remaining now store e \<noteq> 0"

definition record_success ::
  "state_json \<Rightarrow> save_faults \<Rightarrow> string \<Rightarrow> JsonFileEndpointStore \<Rightarrow> fs \<Rightarrow> fs \<times> JsonFileEndpointStore \<times> (EpErr, unit) result" where
  "record_success json faults e store fs =
     (let store = store\<lparr>ep_state := \<lparr>last_good_endpoint = e, cooldowns = hm_remove e (cooldowns (ep_state store))\<rparr>\<rparr>;
          (fs, r) = store_save json faults store fs
      in (fs, store, r))"

definition mark_cooldown ::
  "state_json \<Rightarrow> save_faults \<Rightarrow> u64 \<Rightarrow> string \<Rightarrow> u64 \<Rightarrow> JsonFileEndpointStore \<Rightarrow> fs
     \<Rightarrow> fs \<times> JsonFileEndpointStore \<times> (EpErr, unit) result" where
  "mark_cooldown json faults now e duration store fs =
     (let store = store\<lparr>ep_state := (ep_state store)\<lparr>cooldowns := hm_insert e (now + duration) (cooldowns (ep_state store))\<rparr>\<rparr>;
          (fs, r) = store_save json faults store fs
      in (fs, store, r))"

text \<open>\<open>now e\<close> is the clock when the endpoint \<open>e\<close> is looked at.\<close>

definition plan_candidates :: "(string \<Rightarrow> u64) \<Rightarrow> string list \<Rightarrow> JsonFileEndpointStore \<Rightarrow> string list" where
  "plan_candidates now pool store =
     (let merged = dedup_preserve_order
            ((case last_good store of None \<Rightarrow> [] | Some e \<Rightarrow> if e \<in> set pool then [e] else []) @ pool);
          (ready, cooling) = partition (\<lambda>e. \<not> is_cooling_down (now e) store e) merged
      in ready @ cooling)"

section \<open>Facts\<close>

lemma dedup_loop_set: "set (dedup_loop seen xs) = set xs - set seen"
  by (induction xs arbitrary: seen) auto

lemma dedup_loop_distinct: "distinct (dedup_loop seen xs)"
  by (induction xs arbitrary: seen) (auto simp: dedup_loop_set)

lemma dedup_loop_id: "distinct xs \<Longrightarrow> set xs \<inter> set seen = {} \<Longrightarrow> dedup_loop seen xs = xs"
  by (induction xs arbitrary: seen) auto

lemma dedup_loop_filter: "distinct xs \<Longrightarrow> dedup_loop seen xs = filter (\<lambda>x. x \<notin> set seen) xs"
proof (induction xs arbitrary: seen)
  case (Cons x xs)
  have "filter (\<lambda>y. y \<noteq> x \<and> y \<notin> set seen) xs = filter (\<lambda>y. y \<notin> set seen) xs"
    using Cons.prems by (intro filter_cong) auto
  with Cons show ?case by auto
qed simp

lemmas dedup_facts = dedup_preserve_order_def dedup_loop_set dedup_loop_distinct

lemma candidate_pool_distinct: "distinct (candidate_pool csv)"
  by (simp add: candidate_pool_def Let_def dedup_facts)

lemma candidate_pool_ne: "candidate_pool csv \<noteq> []"
proof -
  have "set (dedup_preserve_order BUILTIN_CANDIDATES) = set BUILTIN_CANDIDATES" by (simp add: dedup_facts)
  then have "dedup_preserve_order BUILTIN_CANDIDATES \<noteq> []" by (metis BUILTIN_CANDIDATES_def list.distinct(1) set_empty)
  then show ?thesis by (simp add: candidate_pool_def Let_def)
qed

text \<open>The list that is partitioned: the last good endpoint, if it is a candidate, and the others in order.\<close>

definition merged :: "string list \<Rightarrow> JsonFileEndpointStore \<Rightarrow> string list" where
  "merged pool store =
     (case last_good store of
        None \<Rightarrow> pool
      | Some e \<Rightarrow> if e \<in> set pool then e # filter (\<lambda>x. x \<noteq> e) pool else pool)"

lemma plan_candidates_merged:
  assumes "distinct pool"
  shows "plan_candidates now pool store =
    filter (\<lambda>e. \<not> is_cooling_down (now e) store e) (merged pool store)
    @ filter (\<lambda>e. is_cooling_down (now e) store e) (merged pool store)"
  using assms by (auto simp: plan_candidates_def merged_def dedup_preserve_order_def dedup_loop_id dedup_loop_filter comp_def
      split: option.splits)

lemma merged_facts:
  assumes "distinct pool"
  shows "distinct (merged pool store)" "set (merged pool store) = set pool"
    "filter (\<lambda>x. Some x \<noteq> last_good store \<and> P x) (merged pool store) = filter (\<lambda>x. Some x \<noteq> last_good store \<and> P x) pool"
  using assms by (auto simp: merged_def split: option.splits intro!: filter_cong)

lemma sorted_partition: "sorted_wrt (\<lambda>a b. P a \<longrightarrow> P b) (filter (\<lambda>x. \<not> P x) xs @ filter P xs)"
proof -
  have "sorted_wrt (\<lambda>a b. P a \<longrightarrow> P b) (filter (\<lambda>x. \<not> P x) xs)" by (induction xs) auto
  moreover have "sorted_wrt (\<lambda>a b. P a \<longrightarrow> P b) (filter P xs)" by (induction xs) auto
  ultimately show ?thesis by (auto simp: sorted_wrt_append)
qed

text \<open>An IPv4 endpoint in its printed form is its own normal form.\<close>

lemma show_v4_chars: "c \<in> set (show_v4 x y z w) \<Longrightarrow> is_digit c \<or> c = CHR ''.''"
  using show_nat_graphic by (auto simp: show_v4_def show_u8_def)

lemma normalize_endpoint_v4:
  assumes "1 \<le> p"
  shows "normalize_endpoint (show_socket_addr (SockAddr (V4 x y z w) p)) = Some (show_socket_addr (SockAddr (V4 x y z w) p))"
proof -
  let ?h = "show_v4 x y z w" and ?s = "show_v4 x y z w @ '':'' @ show_u16 p"
  have ne: "?h \<noteq> []" "show_u16 p \<noteq> []" by (simp_all add: show_v4_def show_u8_def show_u16_def)
  have g: "graphic c" if "c \<in> set ?h \<or> c \<in> set (show_u16 p)" for c
    using that show_v4_chars [of c x y z w] show_nat_graphic [of c "unat p"] is_digit_graphic
    by (auto simp: show_u16_def graphic_def)
  have "trim ?s = ?s"
    using g ne by (intro trim_graphic) (auto simp: graphic_def)
  moreover have "strip_prefix ''['' ?s = None"
    using show_v4_chars [of "hd ?h" x y z w] ne(1) by (cases ?h) (auto simp: strip_prefix_def is_digit_def)
  moreover have "CHR '':'' \<notin> set (show_u16 p)" "CHR '':'' \<notin> set ?h"
    using show_nat_graphic [of "CHR '':''" "unat p"] show_v4_chars [of "CHR '':''" x y z w]
    by (auto simp: show_u16_def is_digit_def)
  then have "rsplit_once (CHR '':'') ?s = Some (?h, show_u16 p)" by (simp add: rsplit_once_Some)
  moreover have "parse_ip ?h = Some (V4 x y z w)" using parse_ip_show [of "V4 x y z w"] by simp
  ultimately show ?thesis
    using ne assms \<open>CHR '':'' \<notin> set ?h\<close>
    by (simp add: normalize_endpoint_def split_endpoint_def format_endpoint_def)
qed

section \<open>Property\<close>

text \<open>
  The plan of candidates.  It is never empty and contains every candidate exactly once; those not
  cooling down come first; the last good endpoint leads when it is a candidate and not cooling down;
  apart from it, candidates of the same kind keep the order of the pool.
\<close>

lemma plan_candidates_order:
  assumes "plan = plan_candidates now (candidate_pool csv) store"
  shows "plan \<noteq> [] \<and> distinct plan \<and> set plan = set (candidate_pool csv)
    \<and> sorted_wrt (\<lambda>a b. is_cooling_down (now a) store a \<longrightarrow> is_cooling_down (now b) store b) plan
    \<and> (\<forall>e. last_good store = Some e \<and> e \<in> set (candidate_pool csv) \<and> \<not> is_cooling_down (now e) store e
         \<longrightarrow> hd plan = e)
    \<and> (\<forall>c. filter (\<lambda>e. Some e \<noteq> last_good store \<and> is_cooling_down (now e) store e = c) plan
         = filter (\<lambda>e. Some e \<noteq> last_good store \<and> is_cooling_down (now e) store e = c) (candidate_pool csv))"
proof -
  let ?pool = "candidate_pool csv" and ?cool = "\<lambda>e. is_cooling_down (now e) store e"
  note d = candidate_pool_distinct [of csv]
  note plan = assms plan_candidates_merged [OF d, of now store]
  have set: "distinct plan" "set plan = set ?pool"
    using plan merged_facts [OF d, of store] by auto
  then have ne: "plan \<noteq> []" using candidate_pool_ne [of csv] by auto
  have sorted: "sorted_wrt (\<lambda>a b. ?cool a \<longrightarrow> ?cool b) plan"
    using plan sorted_partition [of ?cool "merged ?pool store"] by simp
  have "hd plan = e" if "last_good store = Some e" "e \<in> set ?pool" "\<not> ?cool e" for e
    using plan that by (simp add: merged_def)
  moreover have "filter (\<lambda>e. Some e \<noteq> last_good store \<and> ?cool e = c) plan
      = filter (\<lambda>e. Some e \<noteq> last_good store \<and> ?cool e = c) ?pool" for c
    using plan merged_facts(3) [OF d, of store "\<lambda>e. ?cool e = c"]
    by (cases c) (simp_all add: conj_commute conj_left_commute)
  ultimately show ?thesis using set ne sorted by blast
qed

text \<open>Three candidates given by hand, the third the last good one, the first cooling down.\<close>

lemma plan_candidates_order_witness:
  "hd (plan_candidates (\<lambda>_. 0) (candidate_pool ''1.1.1.1:2408,2.2.2.2,3.3.3.3:2408'')
     \<lparr>store_path = \<lparr>dir = [], file_name = ''endpoint-state.json''\<rparr>,
      ep_state = \<lparr>last_good_endpoint = ''3.3.3.3:2408'', cooldowns = [(''1.1.1.1:2408'', 60)]\<rparr>\<rparr>) = ''3.3.3.3:2408''"
proof -
  let ?store = "\<lparr>store_path = \<lparr>dir = [], file_name = ''endpoint-state.json''\<rparr>,
      ep_state = \<lparr>last_good_endpoint = ''3.3.3.3:2408'', cooldowns = [(''1.1.1.1:2408'', 60)]\<rparr>\<rparr>"
  have "show_socket_addr (SockAddr (V4 3 3 3 3) 2408) = ''3.3.3.3:2408''"
    by (simp add: show_v4_def show_u8_def show_u16_def show_nat.simps digit_char_def char_of_def bit_Suc_0_iff)
  with normalize_endpoint_v4 [of 2408 3 3 3 3] have "normalize_endpoint ''3.3.3.3:2408'' = Some ''3.3.3.3:2408''"
    by simp
  then have "''3.3.3.3:2408'' \<in> set (candidate_pool ''1.1.1.1:2408,2.2.2.2,3.3.3.3:2408'')"
    by (auto simp: candidate_pool_def Let_def dedup_facts List.map_filter_def)
  with plan_candidates_order [OF refl, of "\<lambda>_. 0" "''1.1.1.1:2408,2.2.2.2,3.3.3.3:2408''" ?store]
  show ?thesis by (simp add: last_good_def is_cooling_down_def cooldown_remaining_def)
qed

end
