(* ===== verification/Appconfig.thy ===== *)
theory Appconfig
  imports Tunnel
begin

text \<open>
  \<^verbatim>\<open>appconfig.rs\<close>: the run-time configuration from environment variables.  The environment is a map from
  names to values; durations are in seconds.
\<close>

definition HEALTHCHECK_PROBE_TIMEOUT_DEFAULT :: u64 where
  "HEALTHCHECK_PROBE_TIMEOUT_DEFAULT = 63"

record AppConfig =
  state_dir :: string
  wg_conf :: path
  account_json_file :: path
  endpoint_state_file :: path
  reg_json_file :: path
  cfg_teams_token :: string
  endpoint_candidates :: string
  enable_masque :: bool
  cfg_trick :: Trick
  listen_addrs :: string
  listen_port :: u16
  psiphon_country :: string
  register_retries :: u32
  register_retry_delay :: u64
  startup_probe_delay :: u64
  startup_probe_timeout :: u64
  startup_ready_timeout :: u64
  startup_endpoint_cooldown :: u64
  healthcheck_probe_timeout :: u64
  healthcheck_failure_threshold :: u32
  healthcheck_interval :: u64

type_synonym environment = "string \<Rightarrow> string option"

definition env_var :: "environment \<Rightarrow> string \<Rightarrow> string \<Rightarrow> string" where
  "env_var env name dflt = (case env name of None \<Rightarrow> dflt | Some v \<Rightarrow> v)"

definition is_true :: "string \<Rightarrow> bool" where
  "is_true raw \<longleftrightarrow> raw \<in> set [''1'', ''true'', ''TRUE'', ''yes'', ''YES'', ''on'', ''ON'']"

definition sanitize_positive_int :: "string \<Rightarrow> u32 \<Rightarrow> u32" where
  "sanitize_positive_int raw fallback =
     (case parse_u32 (trim raw) of Some v \<Rightarrow> if 0 < v then v else fallback | None \<Rightarrow> fallback)"

definition sanitize_nonnegative_int :: "string \<Rightarrow> u64 \<Rightarrow> u64" where
  "sanitize_nonnegative_int raw fallback = (case parse_u64 (trim raw) of Some v \<Rightarrow> v | None \<Rightarrow> fallback)"

definition sanitize_port :: "string \<Rightarrow> u16 \<Rightarrow> u16" where
  "sanitize_port raw fallback =
     (case parse_u16 (trim raw) of Some p \<Rightarrow> if p \<noteq> 0 then p else fallback | None \<Rightarrow> fallback)"

definition join_path :: "string \<Rightarrow> string \<Rightarrow> path" where
  "join_path d name = \<lparr>dir = [d], file_name = name\<rparr>"

definition trick_of :: "string \<Rightarrow> Trick" where
  "trick_of s = (if s = ''t1'' then T1 else if s = ''t2'' then T2 else NoTrick)"

definition positive_secs :: "environment \<Rightarrow> string \<Rightarrow> string \<Rightarrow> u32 \<Rightarrow> u64" where
  "positive_secs env name dflt fallback = ucast (sanitize_positive_int (env_var env name dflt) fallback)"

definition from_env :: "environment \<Rightarrow> AppConfig" where
  "from_env env =
     (let sd = env_var env ''WARP_SOCKS_STATE_DIR'' ''/etc/warp-socks'' in
      \<lparr>state_dir = sd,
       wg_conf = join_path sd ''wg0.conf'',
       account_json_file = join_path sd ''account.json'',
       endpoint_state_file = join_path sd ''endpoint-state.json'',
       reg_json_file = join_path sd ''reg.json'',
       cfg_teams_token = env_var env ''TEAMS_TOKEN'' [],
       endpoint_candidates = env_var env ''ENDPOINT_CANDIDATES'' [],
       enable_masque = is_true (env_var env ''WARP_SOCKS_ENABLE_MASQUE'' ''1''),
       cfg_trick = trick_of (env_var env ''WARP_RS_TRICK'' ''none''),
       listen_addrs = env_var env ''SOCKS_LISTEN_ADDRS'' ''auto'',
       listen_port = sanitize_port (env_var env ''SOCKS_LISTEN_PORT'' ''1080'') 1080,
       psiphon_country = env_var env ''PSIPHON_COUNTRY'' [],
       register_retries = sanitize_positive_int (env_var env ''WARP_SOCKS_REGISTER_RETRIES'' ''2'') 2,
       register_retry_delay = sanitize_nonnegative_int (env_var env ''WARP_SOCKS_REGISTER_RETRY_DELAY'' ''2'') 2,
       startup_probe_delay = sanitize_nonnegative_int (env_var env ''WARP_SOCKS_STARTUP_EGRESS_PROBE_DELAY'' ''1'') 1,
       startup_probe_timeout = positive_secs env ''WARP_SOCKS_STARTUP_EGRESS_PROBE_TIMEOUT'' ''5'' 5,
       startup_ready_timeout = positive_secs env ''WARP_SOCKS_STARTUP_SOCKS_READY_TIMEOUT'' ''20'' 20,
       startup_endpoint_cooldown = 30,
       healthcheck_probe_timeout =
         positive_secs env ''WARP_SOCKS_HEALTHCHECK_PROBE_TIMEOUT''
           (show_nat (unat HEALTHCHECK_PROBE_TIMEOUT_DEFAULT)) (ucast HEALTHCHECK_PROBE_TIMEOUT_DEFAULT),
       healthcheck_failure_threshold =
         sanitize_positive_int (env_var env ''WARP_SOCKS_HEALTHCHECK_FAILURE_THRESHOLD'' ''3'') 3,
       healthcheck_interval = 10\<rparr>)"

lemma sanitize_positive_int_pos: "0 < fallback \<Longrightarrow> 0 < sanitize_positive_int raw fallback"
  by (auto simp: sanitize_positive_int_def split: option.splits)

lemma positive_secs_bounds:
  assumes "0 < fallback"
  shows "0 < positive_secs env name dflt fallback \<and> positive_secs env name dflt fallback < 2 ^ 32"
proof -
  let ?n = "sanitize_positive_int (env_var env name dflt) fallback"
  have "0 < unat ?n" "unat ?n < 2 ^ 32"
    using sanitize_positive_int_pos [OF assms, of "env_var env name dflt"] unsigned_less [of ?n, where 'a = nat]
    by (simp_all add: word_less_nat_alt)
  then show ?thesis
    by (simp add: positive_secs_def word_less_nat_alt unsigned_ucast_eq take_bit_nat_eq_self)
qed

lemma sanitize_port_pos: "fallback \<noteq> 0 \<Longrightarrow> sanitize_port raw fallback \<noteq> 0"
  by (auto simp: sanitize_port_def split: option.splits)

text \<open>
  C40: every environment gives a usable configuration: the port to listen on is not zero, counts and
  time limits that must be positive are positive and fit in 32 bits, and all state files are in the state
  directory.
\<close>

theorem config_always_usable:
  "case from_env env of c \<Rightarrow>
     listen_port c \<noteq> 0 \<and> 0 < register_retries c \<and> 0 < healthcheck_failure_threshold c
     \<and> (0 < startup_probe_timeout c \<and> startup_probe_timeout c < 2 ^ 32)
     \<and> (0 < startup_ready_timeout c \<and> startup_ready_timeout c < 2 ^ 32)
     \<and> (0 < healthcheck_probe_timeout c \<and> healthcheck_probe_timeout c < 2 ^ 32)
     \<and> dir (wg_conf c) = [state_dir c] \<and> dir (account_json_file c) = [state_dir c]
     \<and> dir (endpoint_state_file c) = [state_dir c] \<and> dir (reg_json_file c) = [state_dir c]"
  using sanitize_port_pos sanitize_positive_int_pos positive_secs_bounds
  by (simp add: from_env_def Let_def join_path_def HEALTHCHECK_PROBE_TIMEOUT_DEFAULT_def)

end
