(* ===== verification/Ip_Outbound.thy ===== *)
theory Ip_Outbound
  imports Dns Relay Netstack_Ports Addr_Text Wgconf Tunnel "HOL-Library.Multiset"
begin

text \<open>
  \<^verbatim>\<open>outbound/ip.rs\<close> and \<^verbatim>\<open>outbound/wireguard.rs\<close>: dialling through the virtual network
  interface.  Time is in nanoseconds from the start of the call.  A dial that is started at a
  time completes after a while with a result, or never; a lookup ends with its result and the
  time it took.  The two races of the source, between the addresses of one family and between
  the two families, are run on these times; a future that is ready together with the timer that
  bounds it wins, as the runtime polls it first.
\<close>

section \<open>Limits\<close>

definition DNS_SERVER :: SocketAddr where
  "DNS_SERVER = SockAddr (V4 1 1 1 1) 53"

definition DNS_TIMEOUT :: nat where
  "DNS_TIMEOUT = 5 * 10 ^ 9"

definition CONNECT_TIMEOUT :: nat where
  "CONNECT_TIMEOUT = 10 * 10 ^ 9"

definition HAPPY_EYEBALLS_DELAY :: nat where
  "HAPPY_EYEBALLS_DELAY = 250 * 10 ^ 6"

definition net_config :: "IpCidr list \<Rightarrow> NetConfig" where
  "net_config addresses =
     (NetConfig_new addresses (map fst addresses))
       \<lparr>buffer_size := default_BufferSize\<lparr>tcp_rx_size := 256 * 1024, tcp_tx_size := 256 * 1024\<rparr>\<rparr>"

section \<open>The addresses of one family\<close>

text \<open>The loop that takes one address from the front of each queue in turn.\<close>

fun interleave_loop :: "SocketAddr list \<Rightarrow> SocketAddr list \<Rightarrow> SocketAddr list" where
  "interleave_loop [] [] = []"
| "interleave_loop (a # v4) [] = a # interleave_loop v4 []"
| "interleave_loop [] (b # v6) = b # interleave_loop [] v6"
| "interleave_loop (a # v4) (b # v6) = a # b # interleave_loop v4 v6"

definition interleave_addresses :: "SocketAddr list \<Rightarrow> SocketAddr list" where
  "interleave_addresses targets =
     interleave_loop (filter (\<lambda>a. is_ipv4 (sa_ip a)) targets) (filter (\<lambda>a. \<not> is_ipv4 (sa_ip a)) targets)"

lemma interleave_loop_splice: "interleave_loop v4 v6 = splice v4 v6"
  by (induction v4 v6 rule: interleave_loop.induct) auto

lemma mset_interleave [simp]: "mset (interleave_addresses targets) = mset targets"
proof -
  have "mset (splice xs ys) = mset xs + mset ys" for xs ys :: "SocketAddr list"
    by (induction xs ys rule: splice.induct) auto
  then show ?thesis
    by (simp add: interleave_addresses_def interleave_loop_splice mset_filter multiset_partition [symmetric])
qed

type_synonym 's dial = "SocketAddr \<Rightarrow> nat \<Rightarrow> (nat \<times> (IoErr, 's) result) option"

text \<open>A future bounded by a timeout: when it ends and how, counted from its start.\<close>

definition bounded :: "nat \<Rightarrow> 'a future \<Rightarrow> nat \<times> (IoErr, 'a) result" where
  "bounded limit f =
     (case f of
        Some (d, r) \<Rightarrow> if d \<le> limit then (d, r) else (limit, Err TimedOut)
      | None \<Rightarrow> (limit, Err TimedOut))"

text \<open>An attempt in flight: when it will end, its target and its result.\<close>

type_synonym 's attempt = "nat \<times> SocketAddr \<times> (IoErr, 's) result"

definition attempt :: "'s dial \<Rightarrow> nat \<Rightarrow> nat \<times> SocketAddr \<Rightarrow> 's attempt" where
  "attempt dial now it =
     (case it of (index, target) \<Rightarrow>
        let start = (if index > 0 then now + HAPPY_EYEBALLS_DELAY else now);
            (d, r) = bounded CONNECT_TIMEOUT (dial target start)
        in (start + d, target, r))"

text \<open>\<^verbatim>\<open>buffer_unordered(2)\<close>: attempts are started in order while fewer than two are in flight.\<close>

fun start_attempts ::
  "'s dial \<Rightarrow> nat \<Rightarrow> 's attempt list \<Rightarrow> (nat \<times> SocketAddr) list \<Rightarrow> 's attempt list \<times> (nat \<times> SocketAddr) list" where
  "start_attempts dial now fl [] = (fl, [])"
| "start_attempts dial now fl (it # todo) =
     (if length fl < 2 then start_attempts dial now (fl @ [attempt dial now it]) todo else (fl, it # todo))"

text \<open>The attempt that ends first, the earlier one if two end together.\<close>

fun first_done :: "'s attempt list \<Rightarrow> ('s attempt \<times> 's attempt list) option" where
  "first_done [] = None"
| "first_done (a # as) =
     (case first_done as of
        None \<Rightarrow> Some (a, as)
      | Some (b, bs) \<Rightarrow> if fst a \<le> fst b then Some (a, as) else Some (b, a # bs))"

lemma first_done_perm: "first_done as = Some (a, bs) \<Longrightarrow> mset as = add_mset a (mset bs)"
  by (induction as arbitrary: a bs) (auto split: option.splits if_splits)

lemma first_done_None [simp]: "first_done as = None \<longleftrightarrow> as = []"
  by (cases as) (auto split: option.splits if_splits)

lemma first_done_length: "first_done as = Some (a, bs) \<Longrightarrow> length as = Suc (length bs)"
  using first_done_perm [of as a bs] by (metis size_mset size_add_mset)

lemma start_attempts_length:
  "start_attempts dial now fl todo = (fl', todo') \<Longrightarrow> length fl' + length todo' = length fl + length todo"
  by (induction todo arbitrary: fl) (auto split: if_splits)

text \<open>The loop of \<^verbatim>\<open>connect_first\<close>; the errors are kept with their targets.\<close>

function connect_loop ::
  "'s dial \<Rightarrow> nat \<Rightarrow> 's attempt list \<Rightarrow> (nat \<times> SocketAddr) list \<Rightarrow> (SocketAddr \<times> IoErr) list
     \<Rightarrow> nat \<times> ((SocketAddr \<times> IoErr) list, 's \<times> SocketAddr) result" where
  "connect_loop dial now fl todo errors =
     (case start_attempts dial now fl todo of (fl, todo) \<Rightarrow>
        case first_done fl of
          None \<Rightarrow> (now, Err errors)
        | Some ((t, target, r), fl) \<Rightarrow>
            (case r of
               Inr stream \<Rightarrow> (t, Ok (stream, target))
             | Inl e \<Rightarrow> connect_loop dial t fl todo (errors @ [(target, e)])))"
  by pat_completeness auto
termination
  by (relation "measure (\<lambda>(dial, now, fl, todo, errors). length fl + length todo)")
     (auto dest!: first_done_length start_attempts_length [OF HOL.sym])

declare connect_loop.simps [simp del]

definition connect_first :: "'s dial \<Rightarrow> nat \<Rightarrow> SocketAddr list \<Rightarrow> nat \<times> (IoErr, 's \<times> SocketAddr) result" where
  "connect_first dial now targets =
     (case connect_loop dial now [] (List.enumerate 0 (interleave_addresses targets)) [] of
        (t, Inr r) \<Rightarrow> (t, Ok r)
      | (t, Inl errors) \<Rightarrow> (t, Err NotConnected))"

section \<open>The two families\<close>

text \<open>\<open>lookup\<close> is the answer of the resolver for a record type and the time it takes.\<close>

type_synonym lookup = "RecordType \<Rightarrow> nat \<times> (ResolveError, IpAddr list) result"

definition A_DELAY :: nat where
  "A_DELAY = 50 * 10 ^ 6"

definition connect_family ::
  "'s dial \<Rightarrow> lookup \<Rightarrow> u16 \<Rightarrow> RecordType \<Rightarrow> nat \<times> (IoErr, 's \<times> SocketAddr) result" where
  "connect_family dial lookup port record_type =
     (case lookup record_type of
        (t, Inl e) \<Rightarrow> (t, Err OtherIo)
      | (t, Inr addresses) \<Rightarrow>
          let t = (if record_type = A \<and> addresses \<noteq> [] then t + A_DELAY else t)
          in connect_first dial t (map (\<lambda>ip. SockAddr ip port) addresses))"

text \<open>The first family that connects, in the order the families end; an error when none does.\<close>

definition race_families :: "nat \<times> (IoErr, 'a) result \<Rightarrow> nat \<times> (IoErr, 'a) result \<Rightarrow> nat \<times> (IoErr, 'a) result" where
  "race_families a b =
     (let (x, y) = (if fst a \<le> fst b then (a, b) else (b, a)) in
      if is_ok (snd x) then x
      else if is_ok (snd y) then y
      else (fst y, Err NotConnected))"

definition connected_to :: "rstream \<times> SocketAddr \<Rightarrow> Connected" where
  "connected_to c = \<lparr>conn_stream = fst c, conn_note = Some (''target='' @ show_socket_addr (snd c))\<rparr>"

definition ip_connect_tcp :: "rstream dial \<Rightarrow> lookup \<Rightarrow> Host \<Rightarrow> u16 \<Rightarrow> nat \<times> (IoErr, Connected) result" where
  "ip_connect_tcp dial lookup host port =
     (let (t, r) = (case host of
          Ip ip \<Rightarrow>
            let target = SockAddr ip port in
            bounded CONNECT_TIMEOUT (map_option (\<lambda>(d, r). (d, rbind r (\<lambda>s. Ok (s, target)))) (dial target 0))
        | Domain name \<Rightarrow>
            bounded (DNS_TIMEOUT + CONNECT_TIMEOUT)
              (Some (race_families (connect_family dial lookup port A) (connect_family dial lookup port Aaaa))))
      in (t, rbind r (\<lambda>connected. Ok (connected_to connected))))"

section \<open>Targets of datagrams\<close>

fun add_new :: "IpAddr set \<Rightarrow> IpAddr list \<Rightarrow> IpAddr list \<times> IpAddr set" where
  "add_new seen [] = ([], seen)"
| "add_new seen (ip # ips) =
     (if ip \<in> seen then add_new seen ips
      else let (out, seen) = add_new (insert ip seen) ips in (ip # out, seen))"

definition resolve_targets :: "lookup \<Rightarrow> Host \<Rightarrow> u16 \<Rightarrow> (IoErr, SocketAddr list) result" where
  "resolve_targets lookup host port =
     (case host of
        Ip ip \<Rightarrow> Ok [SockAddr ip port]
      | Domain name \<Rightarrow>
          let extend = (\<lambda>(targets, seen) r. case r of
                Inr resolved \<Rightarrow> (let (ips, seen) = add_new seen resolved in
                  (targets @ map (\<lambda>ip. SockAddr ip port) ips, seen))
              | Inl e \<Rightarrow> (targets, seen));
              (targets, seen) = foldl extend ([], {}) [snd (lookup A), snd (lookup Aaaa)]
          in if targets = [] then Err AddrNotAvailable else Ok targets)"

section \<open>The WireGuard outlet\<close>

definition wg_net_config :: "WgConfig \<Rightarrow> NetConfig" where
  "wg_net_config config = net_config [(address_v4 config, 32), (address_v6 config, 128)]"

text \<open>
  \<^verbatim>\<open>establish\<close>: the tunnel, its handshake, then the network stack on top; \<open>None\<close> when the
  handshake never returns.
\<close>

definition wg_establish ::
  "('t, 's) wg_lib \<Rightarrow> (bytes \<Rightarrow> bytes \<Rightarrow> 't option) \<Rightarrow> (SocketAddr \<Rightarrow> SocketAddr \<Rightarrow> (IoErr, 's) result)
     \<Rightarrow> nat \<times> bytes \<times> bytes list \<Rightarrow> nat \<Rightarrow> (IpAddr list \<Rightarrow> bool) \<Rightarrow> WgConfig \<Rightarrow> Trick \<Rightarrow> nat
     \<Rightarrow> (IoErr, ('t, 's) WgTunnel \<times> Net) result option" where
  "wg_establish L new_tunn connect_udp rnd addr_room routes_fit config tr handshake_timeout =
     (case tunnel_connect L new_tunn connect_udp config tr of
        Inl e \<Rightarrow> Some (Err e)
      | Inr tunnel \<Rightarrow>
          (case handshake L rnd handshake_timeout tunnel of
             None \<Rightarrow> None
           | Some (tunnel, r) \<Rightarrow>
               Some (rbind r (\<lambda>_. rbind (net_new addr_room routes_fit (wg_net_config config)) (\<lambda>net. Ok (tunnel, net))))))"

text \<open>An established outlet sends from the two addresses of its configuration.\<close>

lemma wg_establish_sources:
  assumes "wg_establish L nt cu rnd ar fit config tr ht = Some (Ok (w, net))"
    "is_ipv4 (address_v4 config)" "\<not> is_ipv4 (address_v6 config)"
  shows "source_for net (SockAddr (V4 a b c d) p) = Ok (address_v4 config)
    \<and> source_for net (SockAddr (V6 s t u v x y z k) p) = Ok (address_v6 config)"
  using assms
  by (auto simp: wg_establish_def net_new_def wg_net_config_def net_config_def NetConfig_new_def net_sources_def
      source_for_def rbind_Inr_iff split: sum.splits option.splits prod.splits if_splits)

record 'u WgDatagram =
  dg_sock :: 'u
  dg_target :: SocketAddr

text \<open>
  \<open>arrivals\<close> are the completions of \<^verbatim>\<open>recv_from\<close> in order; \<open>None\<close> is a call that is still
  waiting when they are used up.
\<close>

fun dg_recv :: "SocketAddr \<Rightarrow> (IoErr, bytes \<times> SocketAddr) result list \<Rightarrow> (IoErr, bytes) result option" where
  "dg_recv target [] = None"
| "dg_recv target (Inl e # arrivals) = Some (Err e)"
| "dg_recv target (Inr (d, src) # arrivals) = (if src = target then Some (Ok d) else dg_recv target arrivals)"

fun unspecified_like :: "IpAddr \<Rightarrow> IpAddr" where
  "unspecified_like (V4 a b c d) = V4 0 0 0 0"
| "unspecified_like (V6 a b c d e f g h) = V6 0 0 0 0 0 0 0 0"

definition wg_connect_udp ::
  "lookup \<Rightarrow> (SocketAddr \<Rightarrow> ('e, 'u) result) \<Rightarrow> Host \<Rightarrow> u16 \<Rightarrow> (IoErr, 'u WgDatagram) result" where
  "wg_connect_udp lookup udp_bind host port =
     rbind (resolve_targets lookup host port) (\<lambda>targets.
     rbind (ok_or AddrNotAvailable (case targets of [] \<Rightarrow> None | target # _ \<Rightarrow> Some target)) (\<lambda>target.
     rbind (rmap_err (\<lambda>_. OtherIo) (udp_bind (SockAddr (unspecified_like (sa_ip target)) 0))) (\<lambda>sock.
       Ok \<lparr>dg_sock = sock, dg_target = target\<rparr>)))"

lemma add_new_spec:
  "add_new seen ips = (out, seen') \<Longrightarrow> distinct out \<and> set out = set ips - seen \<and> seen' = seen \<union> set ips"
  by (induction ips arbitrary: seen out seen') (auto split: if_splits prod.splits)

lemma resolve_targets_domain:
  assumes "resolve_targets lookup (Domain name) port = Ok targets"
  shows "distinct targets \<and> targets \<noteq> []
    \<and> sa_ip ` set targets = \<Union> {set ips | ips. \<exists>rt. snd (lookup rt) = Ok ips} \<and> sa_port ` set targets = {port}"
proof -
  obtain o1 s1 where 1: "add_new {} (case snd (lookup A) of Inr r \<Rightarrow> r | Inl _ \<Rightarrow> []) = (o1, s1)" by force
  obtain o2 s2 where 2: "add_new s1 (case snd (lookup Aaaa) of Inr r \<Rightarrow> r | Inl _ \<Rightarrow> []) = (o2, s2)" by force
  have t: "targets = map (\<lambda>ip. SockAddr ip port) (o1 @ o2)" "targets \<noteq> []"
    using assms 1 2 by (auto simp: resolve_targets_def Let_def split: sum.splits if_splits prod.splits)
  have ips: "\<Union> {set ips | ips. \<exists>rt. snd (lookup rt) = Ok ips}
      = set (case snd (lookup A) of Inr r \<Rightarrow> r | Inl _ \<Rightarrow> []) \<union> set (case snd (lookup Aaaa) of Inr r \<Rightarrow> r | Inl _ \<Rightarrow> [])"
    by (auto split: sum.splits) (metis RecordType.exhaust Inr_inject Inl_Inr_False)+
  have d: "distinct (o1 @ o2)" "set (o1 @ o2) = \<Union> {set ips | ips. \<exists>rt. snd (lookup rt) = Ok ips}"
    unfolding ips using add_new_spec [OF 1] add_new_spec [OF 2] by auto
  have "sa_ip ` set targets = set (o1 @ o2)" "sa_port ` set targets = {port}"
    using t by (auto simp: image_image image_Un image_constant_conv)
  moreover have "distinct targets" unfolding t(1) distinct_map using d(1) by (simp add: inj_on_def)
  ultimately show ?thesis using t(2) d(2) by simp
qed

lemma dg_recv_from_target:
  "dg_recv target arrivals = Some (Ok d) \<Longrightarrow>
     \<exists>pre post. arrivals = pre @ Inr (d, target) # post \<and> (\<forall>x\<in>set pre. \<exists>y. x = Inr y \<and> snd y \<noteq> target)"
proof (induction target arrivals rule: dg_recv.induct)
  case (3 target d' src arrivals)
  show ?case
  proof (cases "src = target")
    case True
    with 3 show ?thesis by (intro exI [of _ "[]"] exI [of _ arrivals]) auto
  next
    case False
    with 3 obtain pre post where "arrivals = pre @ Inr (d, target) # post"
      "\<forall>x\<in>set pre. \<exists>y. x = Inr y \<and> snd y \<noteq> target" by auto
    with False show ?thesis by (intro exI [of _ "Inr (d', src) # pre"] exI [of _ post]) auto
  qed
qed auto

section \<open>What the races keep\<close>

text \<open>\<open>tried t0 a\<close>: the attempt \<open>a\<close> is what a dial started at \<open>t0\<close> or later came to.\<close>

definition tried :: "'s dial \<Rightarrow> nat \<Rightarrow> 's attempt \<Rightarrow> bool" where
  "tried dial t0 a \<longleftrightarrow>
     (case a of (t, target, r) \<Rightarrow>
        \<exists>start d. t0 \<le> start \<and> t = start + d \<and> bounded CONNECT_TIMEOUT (dial target start) = (d, r))"

lemma tried_attempt: "t0 \<le> now \<Longrightarrow> tried dial t0 (attempt dial now (i, target))"
  by (cases "i > 0"; cases "bounded CONNECT_TIMEOUT (dial target (now + HAPPY_EYEBALLS_DELAY))")
     (auto simp: tried_def attempt_def Let_def intro: trans_le_add1 split: prod.splits)

lemma target_attempt [simp]: "fst (snd (attempt dial now it)) = snd it"
  by (auto simp: attempt_def Let_def split: prod.splits)

definition targets_of :: "'s attempt list \<Rightarrow> SocketAddr multiset" where
  "targets_of fl = image_mset (\<lambda>a. fst (snd a)) (mset fl)"

lemma start_attempts_spec:
  assumes "start_attempts dial now fl todo = (fl', todo')" "\<forall>a\<in>set fl. tried dial t0 a" "t0 \<le> now"
  shows "(\<forall>a\<in>set fl'. tried dial t0 a)
    \<and> targets_of fl' + image_mset snd (mset todo') = targets_of fl + image_mset snd (mset todo)
    \<and> (length fl \<le> 2 \<longrightarrow> length fl' \<le> 2) \<and> (todo \<noteq> [] \<longrightarrow> fl' \<noteq> [])"
  using assms
proof (induction todo arbitrary: fl)
  case (Cons it todo)
  obtain i target where it: "it = (i, target)" by force
  show ?case
  proof (cases "length fl < 2")
    case True
    have "\<forall>a\<in>set (fl @ [attempt dial now it]). tried dial t0 a"
      using Cons.prems tried_attempt [OF Cons.prems(3)] it by auto
    from Cons.IH [OF _ this] Cons.prems True show ?thesis
      by (cases todo) (auto simp: targets_of_def)
  qed (use Cons.prems in auto)
qed (auto simp: targets_of_def)

lemma connect_loop_outcome:
  "connect_loop dial now fl todo errors = (u, r) \<Longrightarrow> \<forall>a\<in>set fl. tried dial t0 a \<Longrightarrow> t0 \<le> now \<Longrightarrow>
     (case r of
        Inr (s, target) \<Rightarrow> tried dial t0 (u, target, Ok s) \<and> target \<in># targets_of fl + image_mset snd (mset todo)
      | Inl errs \<Rightarrow> \<exists>es. errs = errors @ es
          \<and> image_mset fst (mset es) = targets_of fl + image_mset snd (mset todo)
          \<and> (\<forall>(target, e)\<in>set es. \<exists>t. tried dial t0 (t, target, Err e)))"
proof (induction dial now fl todo errors arbitrary: u r rule: connect_loop.induct)
  case (1 dial now fl todo errors)
  obtain fl1 todo1 where s: "start_attempts dial now fl todo = (fl1, todo1)" by force
  note spec = start_attempts_spec [OF s 1(3,4)]
  show ?case
  proof (cases "first_done fl1")
    case None
    then have "todo = []" "fl1 = []" using spec by auto
    then show ?thesis using 1(2) s spec by (auto simp: connect_loop.simps [of dial now fl] targets_of_def)
  next
    case (Some x)
    then obtain t target q fl2 where x: "first_done fl1 = Some ((t, target, q), fl2)" by (cases x) auto
    note p = first_done_perm [OF x]
    have t: "tried dial t0 (t, target, q)" "\<forall>a\<in>set fl2. tried dial t0 a"
      using spec arg_cong [OF p, of set_mset] by auto
    have m: "targets_of fl + image_mset snd (mset todo)
        = add_mset target (targets_of fl2 + image_mset snd (mset todo1))"
      using spec p by (simp add: targets_of_def)
    show ?thesis
    proof (cases q)
      case (Inr stream)
      then show ?thesis using 1(2) s x t m by (auto simp: connect_loop.simps [of dial now fl])
    next
      case (Inl e)
      have run: "connect_loop dial t fl2 todo1 (errors @ [(target, e)]) = (u, r)"
        using 1(2) s x Inl by (simp add: connect_loop.simps [of dial now fl])
      have "t0 \<le> t" using t(1) by (auto simp: tried_def)
      note out = 1(1) [OF s [symmetric] x refl refl refl Inl run t(2) this]
      show ?thesis
      proof (cases r)
        case (Inl errs)
        with out obtain es where es: "errs = (errors @ [(target, e)]) @ es"
          "image_mset fst (mset es) = targets_of fl2 + image_mset snd (mset todo1)"
          "\<forall>(target, e)\<in>set es. \<exists>t. tried dial t0 (t, target, Err e)" by auto
        then show ?thesis
          using Inl m t(1) \<open>q = Inl e\<close> by (auto intro!: exI [of _ "(target, e) # es"])
      next
        case (Inr x)
        with out m show ?thesis by (cases x) auto
      qed
    qed
  qed
qed

lemma bounded_Ok: "bounded limit f = (d, Ok x) \<longleftrightarrow> f = Some (d, Ok x) \<and> d \<le> limit"
  by (auto simp: bounded_def split: option.splits if_splits)

lemma bounded_le: "fst (bounded limit f) \<le> limit"
  by (auto simp: bounded_def split: option.splits)

lemma targets_enumerate: "image_mset snd (mset (List.enumerate n xs)) = mset xs"
  by (metis map_snd_enumerate mset_map)

lemma connect_first_outcome:
  assumes "connect_first dial now targets = (u, r)"
  shows "case r of
      Inr (s, target) \<Rightarrow> target \<in> set targets \<and> tried dial now (u, target, Ok s)
    | Inl e \<Rightarrow> e = NotConnected \<and> (\<forall>target\<in>set targets. \<exists>t e. tried dial now (t, target, Err e))"
proof -
  obtain q where q: "connect_loop dial now [] (List.enumerate 0 (interleave_addresses targets)) [] = (u, q)"
    using assms by (auto simp: connect_first_def split: prod.splits sum.splits)
  note out = connect_loop_outcome [OF q, of now, simplified, unfolded targets_enumerate mset_interleave]
  show ?thesis
  proof (cases q)
    case (Inr x)
    with assms q out show ?thesis by (auto simp: connect_first_def targets_of_def)
  next
    case (Inl errs)
    with out have "image_mset fst (mset errs) = mset targets"
      "\<forall>(target, e)\<in>set errs. \<exists>t. tried dial now (t, target, Err e)"
      by (auto simp: targets_of_def)
    moreover have "set targets = fst ` set errs"
      using arg_cong [OF calculation(1), of set_mset] by simp
    ultimately show ?thesis using assms q Inl by (fastforce simp: connect_first_def)
  qed
qed

text \<open>An address a dial to which, at some moment from \<open>t\<close> on, did not connect in time.\<close>

definition unreachable :: "'s dial \<Rightarrow> nat \<Rightarrow> SocketAddr \<Rightarrow> bool" where
  "unreachable dial t target \<longleftrightarrow>
     (\<exists>start\<ge>t. \<forall>d s. dial target start = Some (d, Ok s) \<longrightarrow> CONNECT_TIMEOUT < d)"

lemma tried_Err: "tried dial t (u, target, Err e) \<Longrightarrow> unreachable dial t target"
  by (fastforce simp: tried_def unreachable_def bounded_def split: option.splits if_splits)

lemma connect_family_outcome:
  assumes "connect_family dial lookup port rt = (u, r)"
  shows "case r of
      Inr (s, target) \<Rightarrow> (\<exists>t ips ip start d. lookup rt = (t, Ok ips) \<and> ip \<in> set ips \<and> target = SockAddr ip port
        \<and> t \<le> start \<and> u = start + d \<and> d \<le> CONNECT_TIMEOUT \<and> dial target start = Some (d, Ok s))
    | Inl e \<Rightarrow> \<forall>t ips. lookup rt = (t, Ok ips) \<longrightarrow> (\<forall>ip\<in>set ips. unreachable dial t (SockAddr ip port))"
proof (cases "snd (lookup rt)")
  case (Inl e)
  with assms show ?thesis by (cases "lookup rt") (auto simp: connect_family_def)
next
  case (Inr ips)
  then obtain t where l: "lookup rt = (t, Ok ips)" by (cases "lookup rt") auto
  define t' where "t' = (if rt = A \<and> ips \<noteq> [] then t + A_DELAY else t)"
  have le: "t \<le> t'" by (simp add: t'_def)
  have "connect_first dial t' (map (\<lambda>ip. SockAddr ip port) ips) = (u, r)"
    using assms l by (simp add: connect_family_def t'_def Let_def)
  from connect_first_outcome [OF this] show ?thesis
  proof (cases r)
    case (Inr x)
    then obtain s target where x: "r = Inr (s, target)" by (cases x) auto
    with connect_first_outcome [OF \<open>connect_first dial t' _ = _\<close>] show ?thesis
      using l le by (auto simp: tried_def bounded_Ok dest: order_trans)
  next
    case (Inl e)
    have "unreachable dial t target" if "unreachable dial t' target" for target
      using that le unfolding unreachable_def by (meson order_trans)
    with Inl connect_first_outcome [OF \<open>connect_first dial t' _ = _\<close>] l show ?thesis
      by (auto dest: tried_Err)
  qed
qed

lemma race_families_Ok:
  "race_families a b = (u, Ok x) \<Longrightarrow> a = (u, Ok x) \<or> b = (u, Ok x)"
  by (cases a; cases b) (auto simp: race_families_def split: if_splits)

lemma race_families_Err:
  "race_families a b = (u, Err e) \<Longrightarrow> \<not> is_ok (snd a) \<and> \<not> is_ok (snd b)"
  by (cases a; cases b) (auto simp: race_families_def split: if_splits)

lemma race_families_first:
  assumes "a = (t, Ok x) \<or> b = (t, Ok x)"
  shows "is_ok (snd (race_families a b)) \<and> fst (race_families a b) \<le> t"
  using assms by (cases a; cases b) (auto simp: race_families_def)

section \<open>Properties\<close>

text \<open>
  C23: connecting to a domain name ends within fifteen seconds.  A connection is one to an address
  the name resolved to, dialled after that answer came, and its note names that address.  There are
  two failures.  The error that all families failed means every resolved address was dialled and
  did not connect within ten seconds; a timeout comes at fifteen seconds, and then some addresses may
  not have been tried.  And neither family waits for the other: when the lookup and the dials of
  one family alone would connect at \<open>t\<close>, the call connects at \<open>t\<close> or before, whatever the other does.
\<close>

theorem domain_connect_outcome:
  assumes run: "ip_connect_tcp dial lookup (Domain name) port = (u, r)"
  shows "u \<le> 15 * 10 ^ 9
    \<and> (\<forall>c. r = Ok c \<longrightarrow> (\<exists>rt t ips ip start d. lookup rt = (t, Ok ips) \<and> ip \<in> set ips \<and> t \<le> start
        \<and> u = start + d \<and> d \<le> CONNECT_TIMEOUT \<and> dial (SockAddr ip port) start = Some (d, Ok (conn_stream c))
        \<and> conn_note c = Some (''target='' @ show_socket_addr (SockAddr ip port))))
    \<and> (r = Err NotConnected \<longrightarrow> (\<forall>rt t ips. lookup rt = (t, Ok ips) \<longrightarrow>
        (\<forall>ip\<in>set ips. unreachable dial t (SockAddr ip port))))
    \<and> (\<forall>rt t x. connect_family dial lookup port rt = (t, Ok x) \<and> t \<le> 15 * 10 ^ 9 \<longrightarrow> is_ok r \<and> u \<le> t)
    \<and> (\<forall>e. r = Err e \<longrightarrow> e = NotConnected \<or> (e = TimedOut \<and> u = 15 * 10 ^ 9))"
proof -
  let ?a = "connect_family dial lookup port A" and ?b = "connect_family dial lookup port Aaaa"
  obtain v q where q: "race_families ?a ?b = (v, q)" by force
  have lim: "DNS_TIMEOUT + CONNECT_TIMEOUT = 15 * 10 ^ 9" by (simp add: DNS_TIMEOUT_def CONNECT_TIMEOUT_def)
  obtain w where b: "bounded (15 * 10 ^ 9) (Some (v, q)) = (u, w)" "r = rbind w (\<lambda>x. Ok (connected_to x))"
    using run q by (auto simp: ip_connect_tcp_def lim split: prod.splits)
  have ub: "u \<le> 15 * 10 ^ 9" using bounded_le [of "15 * 10 ^ 9" "Some (v, q)"] b(1) by simp
  have ok: "\<exists>rt t ips ip start d. lookup rt = (t, Ok ips) \<and> ip \<in> set ips \<and> t \<le> start
        \<and> u = start + d \<and> d \<le> CONNECT_TIMEOUT \<and> dial (SockAddr ip port) start = Some (d, Ok (conn_stream c))
        \<and> conn_note c = Some (''target='' @ show_socket_addr (SockAddr ip port))" if rc: "r = Ok c" for c
  proof -
    obtain s target where w: "w = Ok (s, target)" "c = connected_to (s, target)"
      using rc b(2) by (cases w) auto
    then have "race_families ?a ?b = (u, Ok (s, target))" using b(1) q by (auto simp: bounded_Ok)
    from race_families_Ok [OF this] obtain rt where "connect_family dial lookup port rt = (u, Ok (s, target))"
      by (elim disjE) simp_all
    from connect_family_outcome [OF this, simplified] w(2) show ?thesis
      unfolding connected_to_def by (elim exE conjE) (rule exI [of _ rt], simp, blast)
  qed
  have none: "\<forall>ip\<in>set ips. unreachable dial t (SockAddr ip port)"
    if "r = Err NotConnected" "lookup rt = (t, Ok ips)" for rt t ips
  proof -
    have "q = Err NotConnected" using that(1) b by (auto simp: bounded_def rbind_Inl_iff split: if_splits)
    then have "\<not> is_ok (snd ?a)" "\<not> is_ok (snd ?b)" using race_families_Err [of ?a ?b v] q by simp_all
    then have "\<not> is_ok (snd (connect_family dial lookup port rt))" by (cases rt) auto
    then obtain u' e where "connect_family dial lookup port rt = (u', Err e)"
      by (cases "connect_family dial lookup port rt") (auto simp: is_ok_def split: sum.splits)
    from connect_family_outcome [OF this] that(2) show ?thesis by simp
  qed
  have first: "is_ok r \<and> u \<le> t"
    if "connect_family dial lookup port rt = (t, Ok x)" "t \<le> 15 * 10 ^ 9" for rt t x
  proof -
    have "?a = (t, Ok x) \<or> ?b = (t, Ok x)" using that(1) by (cases rt) auto
    from race_families_first [OF this] that(2) b q show ?thesis by (auto simp: bounded_def is_ok_iff)
  qed
  have errs: "e = NotConnected \<or> (e = TimedOut \<and> u = 15 * 10 ^ 9)" if re: "r = Err e" for e
  proof (cases "v \<le> 15 * 10 ^ 9")
    case True
    then have "race_families ?a ?b = (v, Err e)" using b q re by (cases w) (auto simp: bounded_def)
    then show ?thesis by (auto simp: race_families_def Let_def is_ok_def split: prod.splits if_splits sum.splits)
  next
    case False
    then show ?thesis using b re by (auto simp: bounded_def)
  qed
  show ?thesis using ub ok none first errs by blast
qed

text \<open>The A lookup stalls; the AAAA answer comes after a second and its only address connects.\<close>

definition stalled_lookup :: lookup where
  "stalled_lookup rt = (case rt of A \<Rightarrow> (5 * 10 ^ 9, Err SendFailed) | Aaaa \<Rightarrow> (10 ^ 9, Ok [V6 1 0 0 0 0 0 0 1]))"

definition quick_dial :: "rstream dial" where
  "quick_dial target start = Some (10 ^ 8, Ok \<lparr>chunks = [], tail_err = None\<rparr>)"

lemma stalled_lookup_connects:
  "connect_family quick_dial stalled_lookup 443 Aaaa =
     (11 * 10 ^ 8, Ok (\<lparr>chunks = [], tail_err = None\<rparr>, SockAddr (V6 1 0 0 0 0 0 0 1) 443))"
  by (simp add: connect_family_def stalled_lookup_def quick_dial_def connect_first_def interleave_addresses_def
      connect_loop.simps attempt_def bounded_def CONNECT_TIMEOUT_def)

theorem domain_connect_outcome_witness:
  "is_ok (snd (ip_connect_tcp quick_dial stalled_lookup (Domain ''a.b'') 443))
   \<and> fst (ip_connect_tcp quick_dial stalled_lookup (Domain ''a.b'') 443) \<le> 11 * 10 ^ 8"
proof -
  let ?r = "ip_connect_tcp quick_dial stalled_lookup (Domain ''a.b'') 443"
  have "\<forall>rt t x. connect_family quick_dial stalled_lookup 443 rt = (t, Ok x) \<and> t \<le> 15 * 10 ^ 9 \<longrightarrow>
      is_ok (snd ?r) \<and> fst ?r \<le> t"
    by (rule domain_connect_outcome [OF surjective_pairing, THEN conjunct2, THEN conjunct2, THEN conjunct2, THEN conjunct1])
  from this [rule_format, OF conjI, OF stalled_lookup_connects] show ?thesis by simp
qed

end
