(* ===== verification/Masque.thy ===== *)
theory Masque
  imports H3_Stream Doh Ip_Outbound Registration
begin

text \<open>
  \<^verbatim>\<open>outbound/masque/mod.rs\<close> above the framing: the candidate edges and the race to them, the shared
  connection that many callers renew when it has failed, name resolution over the tunnel, and
  \<^verbatim>\<open>connect_tcp\<close>, which puts them together under one time budget.  The QUIC and TLS libraries
  appear as what they answered: the streams that were opened, how long each step took and whether
  a connection is closed.
\<close>

section \<open>Edges\<close>

definition DIAL_TIMEOUT :: nat where
  "DIAL_TIMEOUT = 8 * 10 ^ 9"

definition EXCHANGE_TIMEOUT :: nat where
  "EXCHANGE_TIMEOUT = 15 * 10 ^ 9"

definition OPEN_TIMEOUT :: nat where
  "OPEN_TIMEOUT = 10 * 10 ^ 9"

definition CONTROL_STREAM_TIMEOUT :: nat where
  "CONTROL_STREAM_TIMEOUT = 10 * 10 ^ 9"

definition MASQUE_CONNECT_TIMEOUT :: nat where
  "MASQUE_CONNECT_TIMEOUT = 53 * 10 ^ 9"

definition edge_ports :: "u16 list \<Rightarrow> u16 list" where
  "edge_ports registered =
     (let ports = (if registered = [] then [443] else registered)
      in filter (\<lambda>p. p \<noteq> 443) ports @ (if 443 \<in> set ports then [443] else []))"

definition edge_addrs :: "Registration \<Rightarrow> SocketAddr list" where
  "edge_addrs reg =
     concat (map (\<lambda>host. case parse_ip host of
         Some ip \<Rightarrow> map (SockAddr ip) (edge_ports (endpoint_ports reg))
       | None \<Rightarrow> []) [endpoint_v4 reg, endpoint_v6 reg])"

text \<open>\<^verbatim>\<open>select_ok\<close> on futures that all end: the first success, or the failure that came last.\<close>

fun select_ok :: "(nat \<times> ('e, 'a) result) list \<Rightarrow> (nat \<times> ('e, 'a) result) option" where
  "select_ok [] = None"
| "select_ok (f # fs) =
     (case select_ok fs of
        None \<Rightarrow> Some f
      | Some g \<Rightarrow>
          Some (if is_ok (snd f) then (if is_ok (snd g) \<and> fst g < fst f then g else f)
                else if is_ok (snd g) then g
                else if fst f \<le> fst g then g else f))"

definition dial_one :: "(SocketAddr \<Rightarrow> 'c future) \<Rightarrow> SocketAddr \<Rightarrow> nat \<times> (IoErr, 'c) result" where
  "dial_one dial addr = bounded DIAL_TIMEOUT (dial addr)"

record 'c Link =
  link_conn :: 'c
  link_control :: bytes

text \<open>\<open>control c\<close>: how opening the control stream of \<open>c\<close> and writing its prelude ended.\<close>

definition masque_connect ::
  "venc \<Rightarrow> (SocketAddr \<Rightarrow> 'c future) \<Rightarrow> ('c \<Rightarrow> bytes \<Rightarrow> unit future) \<Rightarrow> SocketAddr list \<Rightarrow> nat \<times> (IoErr, 'c Link) result" where
  "masque_connect venc dial control addrs =
     (case select_ok (map (dial_one dial) addrs) of
        None \<Rightarrow> (0, Err OtherIo)
      | Some (t, Inl e) \<Rightarrow> (t, Err e)
      | Some (t, Inr conn) \<Rightarrow>
          (case control_stream_prelude venc of
             None \<Rightarrow> (t, Err OtherIo)
           | Some prelude \<Rightarrow>
               let (d, r) = bounded CONTROL_STREAM_TIMEOUT (control conn prelude)
               in (t + d, rbind r (\<lambda>_. Ok \<lparr>link_conn = conn, link_control = prelude\<rparr>))))"

lemma select_ok_None [simp]: "select_ok fs = None \<longleftrightarrow> fs = []"
  by (cases fs) (auto split: option.splits)

lemma select_ok_mem: "select_ok fs = Some f \<Longrightarrow> f \<in> set fs"
  by (induction fs arbitrary: f) (auto split: option.splits if_splits)

lemma select_ok_first:
  "select_ok fs = Some f \<Longrightarrow> g \<in> set fs \<Longrightarrow> is_ok (snd g) \<Longrightarrow> is_ok (snd f) \<and> fst f \<le> fst g"
proof (induction fs arbitrary: f)
  case (Cons h fs)
  show ?case
  proof (cases "select_ok fs")
    case None
    with Cons.prems show ?thesis by auto
  next
    case (Some k)
    with Cons show ?thesis by (fastforce split: if_splits)
  qed
qed simp

text \<open>
  The candidates are dialled at once, so the time to a connection does not grow with their number;
  one reachable edge is enough.
\<close>

lemma masque_connect_time: "fst (masque_connect venc dial control addrs) \<le> DIAL_TIMEOUT + CONTROL_STREAM_TIMEOUT"
proof (cases "select_ok (map (dial_one dial) addrs)")
  case (Some f)
  then have f: "fst f \<le> DIAL_TIMEOUT"
    using select_ok_mem [OF Some] bounded_le [of DIAL_TIMEOUT] by (auto simp: dial_one_def)
  have "fst f + d \<le> DIAL_TIMEOUT + CONTROL_STREAM_TIMEOUT"
    if "bounded CONTROL_STREAM_TIMEOUT g = (d, r)" for g :: "unit future" and d r
    using f bounded_le [of CONTROL_STREAM_TIMEOUT g] that by (simp add: add_mono)
  with f show ?thesis
    using Some by (cases f) (auto simp: masque_connect_def Let_def trans_le_add1 split: sum.splits option.splits prod.splits)
qed (simp add: masque_connect_def)

lemma masque_connect_one_edge:
  assumes "addr \<in> set addrs" "dial addr = Some (t, Ok c)" "t \<le> DIAL_TIMEOUT"
  shows "\<exists>u d. select_ok (map (dial_one dial) addrs) = Some (u, Ok d) \<and> u \<le> t"
proof -
  have m: "(t, Ok c) \<in> set (map (dial_one dial) addrs)"
    using assms by (force simp: dial_one_def bounded_def)
  then obtain u r where f: "select_ok (map (dial_one dial) addrs) = Some (u, r)"
    by (cases "select_ok (map (dial_one dial) addrs)") auto
  from select_ok_first [OF f m] f show ?thesis by (cases r) auto
qed

section \<open>One caller on its own\<close>

definition open_bi_bounded :: "'s future \<Rightarrow> nat \<times> (IoErr, 's) result" where
  "open_bi_bounded open_bi = bounded OPEN_TIMEOUT open_bi"

text \<open>
  \<^verbatim>\<open>open\<close> on the time line of a caller that does not have to wait for the lock: \<open>closed0\<close> and
  \<open>closed1\<close> say whether the connection is closed at the start and after the first attempt,
  \<open>first\<close> and \<open>retry\<close> are the two calls of \<^verbatim>\<open>open_bi\<close>, \<open>reconnect\<close> is the call of \<^verbatim>\<open>connect\<close>.
\<close>

definition open_alone ::
  "bool \<Rightarrow> 's future \<Rightarrow> bool \<Rightarrow> nat \<times> (IoErr, 'l) result \<Rightarrow> 's future \<Rightarrow> nat \<times> (IoErr, 's) result" where
  "open_alone closed0 first closed1 reconnect retry =
     (let renew = (\<lambda>t. case reconnect of
          (d, Inl e) \<Rightarrow> (t + d, Err e)
        | (d, Inr _) \<Rightarrow> (let (u, r) = open_bi_bounded retry in (t + d + u, r)))
      in if closed0 then renew 0
         else case open_bi_bounded first of
                (t, Inr pair) \<Rightarrow> (t, Ok pair)
              | (t, Inl e) \<Rightarrow> if closed1 then renew t else (t, Err e))"

text \<open>The budget of \<^verbatim>\<open>connect_tcp\<close> is what the limits of its steps add up to, to the second.\<close>

lemma budget_covers_reconnect:
  assumes "reconnect = masque_connect venc dial control addrs" "open_alone c0 first c1 reconnect retry = (t, r)"
  shows "t + EXCHANGE_TIMEOUT \<le> MASQUE_CONNECT_TIMEOUT"
proof -
  obtain d q where d: "reconnect = (d, q)" "d \<le> DIAL_TIMEOUT + CONTROL_STREAM_TIMEOUT"
    using masque_connect_time [of venc dial control addrs] assms(1) by (metis prod.collapse)
  obtain u1 r1 u2 r2 where u: "open_bi_bounded first = (u1, r1)" "open_bi_bounded retry = (u2, r2)" by fastforce
  then have "u1 \<le> OPEN_TIMEOUT" "u2 \<le> OPEN_TIMEOUT"
    using bounded_le [of OPEN_TIMEOUT first] bounded_le [of OPEN_TIMEOUT retry] by (simp_all add: open_bi_bounded_def)
  moreover have "t \<le> u1 + d + u2"
    using assms(2) d(1) u by (auto simp: open_alone_def Let_def split: sum.splits if_splits)
  ultimately show ?thesis
    using d(2) by (simp add: OPEN_TIMEOUT_def DIAL_TIMEOUT_def CONTROL_STREAM_TIMEOUT_def EXCHANGE_TIMEOUT_def
        MASQUE_CONNECT_TIMEOUT_def)
qed

section \<open>The shared connection\<close>

text \<open>
  \<^verbatim>\<open>open\<close> as many callers run it at once, one step per access to shared state.  Connections are
  named by their stable id.  \<open>closed\<close> are those the library reports closed, which they stay;
  \<open>replaced\<close> remembers the links that have been exchanged for new ones.  A caller may be dropped
  at any point (its budget has run out), which gives the lock back.
\<close>

datatype caller = Idle | Opening nat | Awaiting nat | Locked nat | Dialling nat | Renewed | Retrying nat
  | Opened nat | Failed

record link_state =
  link :: nat
  closed :: "nat set"
  reconnecting :: "nat option"
  callers :: "nat \<Rightarrow> caller"
  replaced :: "nat list"

definition moves :: "nat \<Rightarrow> caller \<Rightarrow> link_state \<Rightarrow> link_state" where
  "moves c pc s = s\<lparr>callers := (callers s)(c := pc)\<rparr>"

definition unlock :: "nat \<Rightarrow> link_state \<Rightarrow> link_state" where
  "unlock c s = (if reconnecting s = Some c then s\<lparr>reconnecting := None\<rparr> else s)"

inductive open_step :: "link_state \<Rightarrow> link_state \<Rightarrow> bool" where
  enter_live: "callers s c = Idle \<Longrightarrow> link s \<notin> closed s \<Longrightarrow> open_step s (moves c (Opening (link s)) s)"
| enter_dead: "callers s c = Idle \<Longrightarrow> link s \<in> closed s \<Longrightarrow> open_step s (moves c (Awaiting (link s)) s)"
| open_ok: "callers s c = Opening i \<Longrightarrow> open_step s (moves c (Opened i) s)"
| open_err_live: "callers s c = Opening i \<Longrightarrow> i \<notin> closed s \<Longrightarrow> open_step s (moves c Failed s)"
| open_err_dead: "callers s c = Opening i \<Longrightarrow> i \<in> closed s \<Longrightarrow> open_step s (moves c (Awaiting i) s)"
| lock: "callers s c = Awaiting i \<Longrightarrow> reconnecting s = None \<Longrightarrow>
    open_step s (moves c (Locked i) (s\<lparr>reconnecting := Some c\<rparr>))"
| stale: "callers s c = Locked i \<Longrightarrow> link s = i \<Longrightarrow> open_step s (moves c (Dialling i) s)"
| fresh: "callers s c = Locked i \<Longrightarrow> link s \<noteq> i \<Longrightarrow> open_step s (moves c Renewed (unlock c s))"
| dial_err: "callers s c = Dialling i \<Longrightarrow> open_step s (moves c Failed (unlock c s))"
| dial_ok: "callers s c = Dialling i \<Longrightarrow> j \<notin> set (replaced s) \<Longrightarrow> j \<noteq> link s \<Longrightarrow>
    open_step s (moves c Renewed (unlock c (s\<lparr>link := j, replaced := replaced s @ [link s]\<rparr>)))"
| reread: "callers s c = Renewed \<Longrightarrow> open_step s (moves c (Retrying (link s)) s)"
| retry_ok: "callers s c = Retrying i \<Longrightarrow> open_step s (moves c (Opened i) s)"
| retry_err: "callers s c = Retrying i \<Longrightarrow> open_step s (moves c Failed s)"
| cancelled: "open_step s (moves c Failed (unlock c s))"
| again: "callers s c = Opened i \<or> callers s c = Failed \<Longrightarrow> open_step s (moves c Idle s)"
| conn_closed: "open_step s (s\<lparr>closed := insert i (closed s)\<rparr>)"

inductive_cases open_stepE: "open_step s t"

definition open_start :: "nat \<Rightarrow> link_state" where
  "open_start i = \<lparr>link = i, closed = {}, reconnecting = None, callers = (\<lambda>_. Idle), replaced = []\<rparr>"

fun holds_lock :: "caller \<Rightarrow> bool" where
  "holds_lock (Locked i) = True"
| "holds_lock (Dialling i) = True"
| "holds_lock _ = False"

fun saw_dead :: "caller \<Rightarrow> nat set" where
  "saw_dead (Awaiting i) = {i}"
| "saw_dead (Locked i) = {i}"
| "saw_dead (Dialling i) = {i}"
| "saw_dead _ = {}"

definition link_ok :: "link_state \<Rightarrow> bool" where
  "link_ok s \<longleftrightarrow>
     (\<forall>c. holds_lock (callers s c) \<longleftrightarrow> reconnecting s = Some c)
     \<and> (\<forall>c. saw_dead (callers s c) \<subseteq> closed s)
     \<and> (\<forall>c i. callers s c = Dialling i \<longrightarrow> link s = i)
     \<and> set (replaced s) \<subseteq> closed s \<and> distinct (replaced s @ [link s])"

lemma move_ok:
  assumes "link_ok s" "holds_lock pc = holds_lock (callers s c)" "saw_dead pc \<subseteq> closed s"
    "\<And>i. pc = Dialling i \<Longrightarrow> link s = i"
  shows "link_ok (moves c pc s)"
  using assms by (auto simp: link_ok_def moves_def)

lemma release_ok:
  assumes "link_ok s" "\<not> holds_lock pc" "saw_dead pc = {}"
  shows "link_ok (moves c pc (unlock c s))"
  using assms by (auto simp: link_ok_def moves_def unlock_def)

lemma saw_dead_closed: "link_ok s \<Longrightarrow> saw_dead (callers s c) \<subseteq> closed s"
  by (simp add: link_ok_def)

lemma dialling_link: "link_ok s \<Longrightarrow> callers s c = Dialling i \<Longrightarrow> link s = i \<and> reconnecting s = Some c \<and> i \<in> closed s"
  unfolding link_ok_def by (metis holds_lock.simps(2) insert_subset saw_dead.simps(3))

lemma open_step_ok:
  assumes "open_step s t" "link_ok s"
  shows "link_ok t"
  using assms
proof cases
  case (lock c i)
  have "link_ok s" "\<not> holds_lock (callers s d)" for d using assms(2) lock(3) by (auto simp: link_ok_def)
  with lock saw_dead_closed [OF assms(2), of c] show ?thesis by (auto simp: link_ok_def moves_def)
next
  case (stale c i)
  with saw_dead_closed [OF assms(2), of c] show ?thesis by (auto intro!: move_ok [OF assms(2)])
next
  case (dial_ok c i j)
  note d = dialling_link [OF assms(2) dial_ok(2)]
  have other: "callers s e \<noteq> Dialling k" if "e \<noteq> c" for e k
    using dialling_link [OF assms(2), of e k] d that by auto
  let ?u = "moves c Renewed (unlock c s)"
  have "link_ok ?u" by (rule release_ok [OF assms(2)]) simp_all
  moreover have "callers ?u e \<noteq> Dialling k" for e k using other by (simp add: moves_def unlock_def)
  moreover have "t = ?u\<lparr>link := j, replaced := replaced s @ [link s]\<rparr>"
    using dial_ok(1) by (simp add: moves_def unlock_def)
  moreover have "replaced ?u = replaced s" "link ?u = link s" "closed ?u = closed s"
    by (simp_all add: moves_def unlock_def)
  ultimately show ?thesis using dial_ok d by (simp add: link_ok_def)
next
  case (conn_closed i)
  then show ?thesis using assms(2) by (auto simp: link_ok_def)
qed (auto intro!: move_ok [OF assms(2)] release_ok [OF assms(2)])

lemma open_reachable_ok: "open_step\<^sup>*\<^sup>* (open_start i) s \<Longrightarrow> link_ok s"
proof (induction rule: rtranclp_induct)
  case base
  show ?case by (simp add: link_ok_def open_start_def)
qed (rule open_step_ok)

text \<open>
  C12: however the callers of \<^verbatim>\<open>open\<close> interleave, are cut off or see connections fail, a link is
  exchanged only after its connection was closed, and at most once; and only one caller dials at a
  time, to replace the link that is current.
\<close>

theorem only_dead_links_replaced:
  assumes "open_step\<^sup>*\<^sup>* (open_start i) s"
  shows "set (replaced s) \<subseteq> closed s \<and> distinct (replaced s @ [link s])
    \<and> (\<forall>c d j k. callers s c = Dialling j \<and> callers s d = Dialling k \<longrightarrow> c = d \<and> j = link s \<and> j \<in> closed s)"
  using open_reachable_ok [OF assms] unfolding link_ok_def
  by (metis holds_lock.simps(2) insert_subset option.inject saw_dead.simps(3))

definition renewed_once :: link_state where
  "renewed_once = \<lparr>link = 5, closed = {0}, reconnecting = None,
     callers = (\<lambda>_. Idle)(1 := Awaiting 0, 1 := Locked 0, 1 := Dialling 0, 1 := Renewed), replaced = [0]\<rparr>"

lemma renewed_once_reachable: "open_step\<^sup>*\<^sup>* (open_start 0) renewed_once"
proof -
  let ?s1 = "(open_start 0)\<lparr>closed := insert 0 (closed (open_start 0))\<rparr>"
  let ?s2 = "moves 1 (Awaiting (link ?s1)) ?s1"
  let ?s3 = "moves 1 (Locked 0) (?s2\<lparr>reconnecting := Some 1\<rparr>)"
  let ?s4 = "moves 1 (Dialling 0) ?s3"
  let ?s5 = "moves 1 Renewed (unlock 1 (?s4\<lparr>link := 5, replaced := replaced ?s4 @ [link ?s4]\<rparr>))"
  note then_step = rtranclp.rtrancl_into_rtrancl [of open_step "open_start 0"]
  have "open_step\<^sup>*\<^sup>* (open_start 0) ?s1" by (rule r_into_rtranclp, rule conn_closed)
  then have "open_step\<^sup>*\<^sup>* (open_start 0) ?s2"
    by (rule then_step) (rule enter_dead, simp_all add: open_start_def)
  then have "open_step\<^sup>*\<^sup>* (open_start 0) ?s3"
    by (rule then_step) (rule lock, simp_all add: open_start_def moves_def)
  then have "open_step\<^sup>*\<^sup>* (open_start 0) ?s4"
    by (rule then_step) (rule stale, simp_all add: open_start_def moves_def)
  then have "open_step\<^sup>*\<^sup>* (open_start 0) ?s5"
    by (rule then_step) (rule dial_ok, simp_all add: open_start_def moves_def)
  moreover have "?s5 = renewed_once"
    by (simp add: renewed_once_def open_start_def moves_def unlock_def)
  ultimately show ?thesis by simp
qed

theorem only_dead_links_replaced_witness:
  "open_step\<^sup>*\<^sup>* (open_start 0) renewed_once \<and> replaced renewed_once = [0] \<and> 0 \<in> closed renewed_once"
  using only_dead_links_replaced [OF renewed_once_reachable] renewed_once_reachable
  by (simp add: renewed_once_def)

section \<open>Streams through the tunnel\<close>

datatype MasqueError = Budget | OpenFailed | ExchangeTimeout | ExchangeFailed ExchangeError | CodecPanic
  | QueryTimeout | TlsFailed | QueryFailed DohError | NoCandidate

text \<open>
  What the libraries answer to the \<open>n\<close>-th stream of a call: the opened stream and the time
  \<^verbatim>\<open>open\<close> took, the time of the CONNECT exchange, the side of the handler that gets it, the TLS
  session over it, and when the query on it ended (\<open>True\<close>: on one of its own limits).  The handler's
  side is what it writes, what closing the sending direction then gives, and whether the upload was
  over before the download: then by how many received bytes the download had been served.
\<close>

record handler_side =
  to_edge :: rstream
  finishing :: "(IoErr, unit) result"
  upload_over :: "nat option"

record masque_env =
  open_took :: "nat \<Rightarrow> nat"
  open_stream :: "nat \<Rightarrow> (wsink \<times> rstream) option"
  exchange_took :: "nat \<Rightarrow> nat"
  handler :: "nat \<Rightarrow> handler_side"
  tls_over :: "nat \<Rightarrow> rstream \<Rightarrow> (wsink \<times> rstream) option"
  query_ends :: "nat \<Rightarrow> nat \<times> bool"
  doh_clock :: "nat \<Rightarrow> nat"
  env_enc :: venc
  env_dec :: vdec
  http_parse :: "bytes \<Rightarrow> http_head option"
  auth_token :: string

text \<open>The state of one call: what it has spent, the streams it asked for and those it released.\<close>

record masque_call =
  spent :: nat
  asked :: "string list"
  released :: "nat list"
  doh_cache :: DohCache

type_synonym 'a call_result = "masque_call \<times> (MasqueError, 'a) result"

definition andthen :: "'a call_result \<Rightarrow> ('a \<Rightarrow> masque_call \<Rightarrow> 'b call_result) \<Rightarrow> 'b call_result" where
  "andthen m f = (case m of (st, Inl e) \<Rightarrow> (st, Err e) | (st, Inr x) \<Rightarrow> f x st)"

text \<open>Waiting for \<open>d\<close>: the budget of the whole call may cut it short.\<close>

definition wait_for :: "nat \<Rightarrow> masque_call \<Rightarrow> unit call_result" where
  "wait_for d st =
     (if spent st + d \<le> MASQUE_CONNECT_TIMEOUT then (st\<lparr>spent := spent st + d\<rparr>, Ok ())
      else (st\<lparr>spent := MASQUE_CONNECT_TIMEOUT\<rparr>, Err Budget))"

text \<open>
  The stream after the framing has been taken off.  Its bytes are what the download has written into
  the buffer when the pump ends (all of it, unless a failed upload ends it first), and its end is the
  result of the pump; a panic in the upload is reported like an error.
\<close>

definition uploaded :: "venc \<Rightarrow> handler_side \<Rightarrow> wsink \<Rightarrow> (IoErr, unit) result" where
  "uploaded venc side send = (case drain_upload venc (to_edge side) send of None \<Rightarrow> Err OtherIo | Some (_, r) \<Rightarrow> r)"

definition wrap_data_framing :: "venc \<Rightarrow> vdec \<Rightarrow> handler_side \<Rightarrow> wsink \<Rightarrow> rstream \<Rightarrow> rstream" where
  "wrap_data_framing venc vdec side send recv =
     (let drained = uploaded venc side send;
          seen = (case (upload_over side, upload_result drained (finishing side)) of
                    (Some k, Inl _) \<Rightarrow> \<lparr>chunks = [take k (content recv)], tail_err = None\<rparr>
                  | _ \<Rightarrow> recv);
          (out, download) = drain_download vdec seen \<lparr>written = [], room = None\<rparr>
      in \<lparr>chunks = [written out],
          tail_err = (case pump (upload_over side = None) download drained (finishing side) of
                        Inl e \<Rightarrow> Some e | Inr _ \<Rightarrow> None)\<rparr>)"

definition connect_stream :: "masque_env \<Rightarrow> string \<Rightarrow> masque_call \<Rightarrow> (nat \<times> rstream \<times> string option) call_result" where
  "connect_stream env authority st =
     (let n = length (asked st); st = st\<lparr>asked := asked st @ [authority]\<rparr> in
      andthen (wait_for (open_took env n) st) (\<lambda>_ st.
        case open_stream env n of
          None \<Rightarrow> (st, Err OpenFailed)
        | Some (send, recv) \<Rightarrow>
            andthen (wait_for (min (exchange_took env n) EXCHANGE_TIMEOUT) st) (\<lambda>_ st.
              let failed = (\<lambda>e. (st\<lparr>released := released st @ [n]\<rparr>, Err e)) in
              if EXCHANGE_TIMEOUT < exchange_took env n then failed ExchangeTimeout
              else case exchange (env_enc env) (env_dec env) send recv authority (auth_token env) of
                     None \<Rightarrow> (st, Err CodecPanic)
                   | Some (send, Inl e) \<Rightarrow> failed (ExchangeFailed e)
                   | Some (send, Inr (colo, recv)) \<Rightarrow> (st, Ok (n, wrap_data_framing (env_enc env) (env_dec env) (handler env n) send recv, colo)))))"

section \<open>Name resolution over the tunnel\<close>

definition DOH_ADDRS :: "string list" where
  "DOH_ADDRS = [''162.159.36.1:443'', ''162.159.46.1:443'']"

definition query_over ::
  "masque_env \<Rightarrow> string \<Rightarrow> RecordType \<Rightarrow> nat \<Rightarrow> rstream \<Rightarrow> masque_call \<Rightarrow> IpAddr call_result" where
  "query_over env domain rt n stream st =
     andthen (wait_for (fst (query_ends env n)) st) (\<lambda>_ st.
       if snd (query_ends env n) then (st, Err QueryTimeout)
       else case tls_over env n stream of
              None \<Rightarrow> (st, Err TlsFailed)
            | Some (send, recv) \<Rightarrow>
                (case resolve_over (http_parse env) (doh_cache st) (doh_clock env n) send recv domain rt of
                   (entries, _, r) \<Rightarrow> (st\<lparr>doh_cache := entries\<rparr>, rmap_err QueryFailed r)))"

definition doh_query_via :: "masque_env \<Rightarrow> string \<Rightarrow> RecordType \<Rightarrow> string \<Rightarrow> masque_call \<Rightarrow> IpAddr call_result" where
  "doh_query_via env domain rt doh_addr st =
     andthen (connect_stream env doh_addr st) (\<lambda>(n, stream, _). query_over env domain rt n stream)"

text \<open>The first success of a list of attempts; the last error when there is none.\<close>

fun first_success :: "('x \<Rightarrow> masque_call \<Rightarrow> 'a call_result) \<Rightarrow> 'x list \<Rightarrow> MasqueError \<Rightarrow> masque_call \<Rightarrow> 'a call_result" where
  "first_success try_one [] err st = (st, Err err)"
| "first_success try_one (x # xs) err st =
     (case try_one x st of
        (st, Inr a) \<Rightarrow> (st, Ok a)
      | (st, Inl e) \<Rightarrow> if e = Budget then (st, Err Budget) else first_success try_one xs e st)"

definition doh_query :: "masque_env \<Rightarrow> string \<Rightarrow> RecordType \<Rightarrow> masque_call \<Rightarrow> IpAddr call_result" where
  "doh_query env domain rt st = first_success (doh_query_via env domain rt) DOH_ADDRS NoCandidate st"

definition resolve_domain :: "masque_env \<Rightarrow> nat \<Rightarrow> string \<Rightarrow> masque_call \<Rightarrow> IpAddr call_result" where
  "resolve_domain env now domain st =
     (case cached (doh_cache st) now domain of
        (entries, Some ip) \<Rightarrow> (st\<lparr>doh_cache := entries\<rparr>, Ok ip)
      | (entries, None) \<Rightarrow>
          first_success (doh_query env domain) [A, Aaaa] NoCandidate (st\<lparr>doh_cache := entries\<rparr>))"

section \<open>Connecting\<close>

definition masque_connect_tcp ::
  "masque_env \<Rightarrow> nat \<Rightarrow> Host \<Rightarrow> u16 \<Rightarrow> masque_call \<Rightarrow> masque_call \<times> (IoErr, Connected) result" where
  "masque_connect_tcp env now host port st =
     (case andthen (case host of Domain d \<Rightarrow> resolve_domain env now d st | Ip ip \<Rightarrow> (st, Ok ip)) (\<lambda>ip st.
        andthen (connect_stream env (show_socket_addr (SockAddr ip port)) st) (\<lambda>(n, stream, colo) st.
          (st, Ok \<lparr>conn_stream = stream, conn_note = map_option (\<lambda>c. ''colo='' @ c) colo\<rparr>))) of
        (st, Inr c) \<Rightarrow> (st, Ok c)
      | (st, Inl e) \<Rightarrow> (st, Err (if e = Budget then TimedOut else OtherIo)))"

section \<open>What a call may do\<close>
















lemma cached_hit:
  assumes "map_of entries domain = Some e" "now < doh_expires e"
  shows "cached entries now domain = (entries, Some (doh_ip e))"
  using assms by (simp add: cached_def)

section \<open>A stream the edge accepts\<close>

text \<open>
  \<open>accepted\<close>: the edge's answer on a stream, however it is cut into chunks, is fewer than eight
  other frames, the headers of a success with note \<open>colo\<close>, then the bytes \<open>body\<close> and the end \<open>t\<close>.
\<close>

definition accepted :: "vdec \<Rightarrow> string option \<Rightarrow> bytes \<Rightarrow> IoErr option \<Rightarrow> rstream \<Rightarrow> bool" where
  "accepted vdec colo body t recv \<longleftrightarrow>
     (\<exists>pre bs payload b1 b2 b. wire_frames vdec pre bs \<and> list_all (\<lambda>f. fst f \<noteq> 1) pre \<and> length pre < 8
        \<and> is_frame vdec 1 payload b1 b2 b \<and> length payload \<le> MAX_HEADERS_FRAME_SIZE
        \<and> decode_headers payload = Ok \<lparr>resp_status = 200, resp_colo = colo\<rparr>
        \<and> stream_of (bs @ b @ body) t recv)"

lemma acceptedI:
  assumes "wire_frames vdec pre bs" "list_all (\<lambda>f. fst f \<noteq> 1) pre" "length pre < 8"
    "is_frame vdec 1 payload b1 b2 b" "length payload \<le> MAX_HEADERS_FRAME_SIZE"
    "decode_headers payload = Ok \<lparr>resp_status = 200, resp_colo = colo\<rparr>" "stream_of (bs @ b @ body) t recv"
  shows "accepted vdec colo body t recv"
  unfolding accepted_def using assms by blast

lemma exchange_accepted:
  assumes "quic_varint venc vdec" "accepted vdec colo body t recv"
    "headers_frame venc (encode_connect_request authority token) = Some request" "write_all request send = (send', Ok ())"
  shows "\<exists>recv'. exchange venc vdec send recv authority token = Some (send', Ok (colo, recv')) \<and> stream_of body t recv'"
proof -
  obtain pre bs payload b1 b2 b where a: "wire_frames vdec pre bs" "list_all (\<lambda>f. fst f \<noteq> 1) pre"
    "length pre < 8" "is_frame vdec 1 payload b1 b2 b" "length payload \<le> MAX_HEADERS_FRAME_SIZE"
    "decode_headers payload = Ok \<lparr>resp_status = 200, resp_colo = colo\<rparr>" "stream_of (bs @ b @ body) t recv"
    using assms(2) unfolding accepted_def by (elim exE conjE)
  have "\<forall>(ft, p)\<in>set pre. ft \<noteq> 1" using a(2) by (auto simp: list_all_iff)
  from quic_varint.find_headers_spec [OF assms(1) a(1) this a(4,5,7), of 8] a(3)
  obtain recv' where f: "find_headers vdec 8 recv = Ok (payload, recv')" "stream_of body t recv'" by auto
  then have "exchange venc vdec send recv authority token = Some (send', Ok (colo, recv'))"
    using assms(3,4) a(6) by (simp add: exchange_def MAX_SKIPPED_FRAMES_def)
  with f(2) show ?thesis by blast
qed

text \<open>
  \<open>delivers\<close>: what the handler reads of a stream on which the frames \<open>early\<close>, within the first \<open>m\<close>
  bytes, and \<open>later\<close> arrive, by whether the upload failed (\<open>Inl\<close>) before the download was over
  (\<open>Some k\<close>).
\<close>

definition delivers ::
  "nat option \<Rightarrow> (IoErr, unit) result \<Rightarrow> nat \<Rightarrow> (u64 \<times> bytes) list \<Rightarrow> (u64 \<times> bytes) list \<Rightarrow> IoErr option \<Rightarrow> rstream \<Rightarrow> bool" where
  "delivers over upload m early later t stream \<longleftrightarrow>
     (case (over, upload) of
        (Some k, Inl e) \<Rightarrow>
          tail_err stream = Some e \<and> prefix (content stream) (data_of (early @ later))
          \<and> (m \<le> k \<longrightarrow> prefix (data_of early) (content stream))
      | _ \<Rightarrow> content stream = data_of (early @ later) \<and> tail_err stream = t)"

lemma wire_frames_append:
  "wire_frames vdec fs bs \<Longrightarrow> wire_frames vdec fs' bs' \<Longrightarrow> wire_frames vdec (fs @ fs') (bs @ bs')"
proof (induction fs arbitrary: bs)
  case (Cons f fs)
  obtain ft p where f: "f = (ft, p)" by force
  then obtain b1 b2 b rest where b: "is_frame vdec ft p b1 b2 b" "bs = b @ rest" "wire_frames vdec fs rest"
    using Cons.prems(1) by auto
  from wire_frames_ConsI [OF b(1) Cons.IH [OF b(3) Cons.prems(2)]] b(2) show ?case by (simp add: f)
qed simp

lemma data_of_append [simp]: "data_of (fs @ fs') = data_of fs @ data_of fs'"
  by (simp add: data_of_def)

lemma wrap_data_framing_delivers:
  assumes "quic_varint venc vdec" "wire_frames vdec early bs" "wire_frames vdec later bs'"
    "stream_of (bs @ bs') t recv"
  shows "delivers (upload_over side) (upload_result (uploaded venc side send) (finishing side)) (length bs) early later t
    (wrap_data_framing venc vdec side send recv)"
proof -
  let ?up = "upload_result (uploaded venc side send) (finishing side)"
  let ?cut = "\<lambda>k. \<lparr>chunks = [take k (content recv)], tail_err = None\<rparr>"
  note all = wire_frames_append [OF assms(2,3)]
  obtain s' where "drain_download vdec recv open_sink =
      drain_download vdec s' (open_sink\<lparr>written := written open_sink @ data_of (early @ later)\<rparr>)" "stream_of [] t s'"
    using quic_varint.drain_download_frames [OF assms(1) all, of "[]" t recv open_sink] assms(4)
    by (auto simp: open_sink_def)
  then have full: "drain_download vdec recv open_sink =
      (\<lparr>written = data_of (early @ later), room = None\<rparr>, case t of None \<Rightarrow> Ok () | Some e \<Rightarrow> Err e)"
    using quic_varint.drain_download_end [OF assms(1), of t s'] by (simp add: open_sink_def)
  have s: "stream_of (take k (bs @ bs')) None (?cut k)" for k
    using assms(4) by (simp add: stream_of_def content_def)
  have p: "prefix (written (fst (drain_download vdec (?cut k) open_sink))) (data_of (early @ later))" for k
    using quic_varint.drain_download_until [OF assms(1) all s, of open_sink] by (auto simp: open_sink_def)
  have q: "prefix (data_of early) (written (fst (drain_download vdec (?cut k) open_sink)))" if "length bs \<le> k" for k
    using quic_varint.drain_download_until_frames [OF assms(1-3) s _ that, of open_sink] by (auto simp: open_sink_def)
  show ?thesis
  proof (cases "upload_over side")
    case None
    then show ?thesis using full
      by (simp add: delivers_def wrap_data_framing_def open_sink_def content_def pump_def Let_def split: option.splits)
  next
    case (Some k)
    show ?thesis
    proof (cases ?up)
      case (Inl e)
      then show ?thesis using Some p [of k] q [of k]
        by (simp add: delivers_def wrap_data_framing_def open_sink_def content_def pump_def Let_def case_prod_beta)
    next
      case (Inr u)
      then show ?thesis using Some full
        by (simp add: delivers_def wrap_data_framing_def open_sink_def content_def pump_def Let_def split: option.splits)
    qed
  qed
qed

lemma connect_stream_accepted:
  assumes "quic_varint (env_enc env) (env_dec env)" "n = length (asked st)"
    "open_stream env n = Some (send, recv)" "accepted (env_dec env) colo (bs @ bs') t recv"
    "wire_frames (env_dec env) early bs" "wire_frames (env_dec env) later bs'"
    "spent st + open_took env n + exchange_took env n \<le> MASQUE_CONNECT_TIMEOUT" "exchange_took env n \<le> EXCHANGE_TIMEOUT"
    "headers_frame (env_enc env) (encode_connect_request authority (auth_token env)) = Some request"
    "write_all request send = (send', Ok ())"
  shows "\<exists>stream. connect_stream env authority st =
      (st\<lparr>spent := spent st + open_took env n + exchange_took env n, asked := asked st @ [authority]\<rparr>, Ok (n, stream, colo))
    \<and> delivers (upload_over (handler env n))
        (upload_result (uploaded (env_enc env) (handler env n) send') (finishing (handler env n))) (length bs) early later t stream"
proof -
  obtain recv' where e: "exchange (env_enc env) (env_dec env) send recv authority (auth_token env) =
      Some (send', Ok (colo, recv'))" "stream_of (bs @ bs') t recv'"
    using exchange_accepted [OF assms(1,4,9,10)] by blast
  then show ?thesis
    using assms wrap_data_framing_delivers [OF assms(1,5,6) e(2)]
    by (simp add: connect_stream_def Let_def andthen_def wait_for_def min_def)
qed

section \<open>Connecting to a target\<close>

definition new_call :: "DohCache \<Rightarrow> masque_call" where
  "new_call entries = \<lparr>spent = 0, asked = [], released = [], doh_cache = entries\<rparr>"



text \<open>
  An edge that accepts the first stream and then sends two bytes, for a handler that sends two bytes
  and closes, and for one whose sending direction breaks before anything has come back.
\<close>

definition demo_handler :: handler_side where
  "demo_handler = \<lparr>to_edge = \<lparr>chunks = [[1, 2]], tail_err = None\<rparr>, finishing = Ok (), upload_over = Some 3\<rparr>"

definition broken_handler :: handler_side where
  "broken_handler = \<lparr>to_edge = \<lparr>chunks = [], tail_err = None\<rparr>, finishing = Err OtherIo, upload_over = Some 3\<rparr>"

definition demo_env :: "handler_side \<Rightarrow> masque_env" where
  "demo_env side = \<lparr>open_took = (\<lambda>_. 3), open_stream = (\<lambda>_. Some (open_sink,
       \<lparr>chunks = [[1], [3, 0, 0], [0xD9, 0, 2], [7], [8]], tail_err = None\<rparr>)),
     exchange_took = (\<lambda>_. 4), handler = (\<lambda>_. side), tls_over = (\<lambda>_ _. None), query_ends = (\<lambda>_. (0, False)),
     doh_clock = (\<lambda>_. 0), env_enc = rfc_enc, env_dec = rfc_dec, http_parse = (\<lambda>_. None), auth_token = ''t''\<rparr>"

lemma demo_accepted:
  "quic_varint (env_enc (demo_env side)) (env_dec (demo_env side))"
  "open_stream (demo_env side) n = Some (open_sink, \<lparr>chunks = [[1], [3, 0, 0], [0xD9, 0, 2], [7], [8]], tail_err = None\<rparr>)"
  "accepted (env_dec (demo_env side)) None ([0, 2, 7, 8] @ []) None
     \<lparr>chunks = [[1], [3, 0, 0], [0xD9, 0, 2], [7], [8]], tail_err = None\<rparr>"
  "wire_frames (env_dec (demo_env side)) [(0, [7, 8])] [0, 2, 7, 8]" "wire_frames (env_dec (demo_env side)) [] []"
proof -
  show "quic_varint (env_enc (demo_env side)) (env_dec (demo_env side))"
    using rfc.quic_varint_axioms by (simp add: demo_env_def)
  show "open_stream (demo_env side) n = Some (open_sink, \<lparr>chunks = [[1], [3, 0, 0], [0xD9, 0, 2], [7], [8]], tail_err = None\<rparr>)"
    by (simp add: demo_env_def)
  have dec: "env_dec (demo_env side) = rfc_dec" by (simp add: demo_env_def)
  have h: "is_frame rfc_dec 1 [0, 0, 0xD9] [1] [3] [1, 3, 0, 0, 0xD9]"
    by (simp add: is_frame_def rfc_dec_def varint_len_def be_val_def)
  have d: "is_frame rfc_dec 0 [7, 8] [0] [2] [0, 2, 7, 8]"
    by (simp add: is_frame_def rfc_dec_def varint_len_def be_val_def)
  show "wire_frames (env_dec (demo_env side)) [(0, [7, 8])] [0, 2, 7, 8]"
    using wire_frames_ConsI [OF d, of "[]" "[]"] dec by simp
  show "accepted (env_dec (demo_env side)) None ([0, 2, 7, 8] @ []) None
     \<lparr>chunks = [[1], [3, 0, 0], [0xD9, 0, 2], [7], [8]], tail_err = None\<rparr>"
    unfolding dec
  proof (rule acceptedI [OF _ _ _ h _ plain_success_headers])
    show "wire_frames rfc_dec [] []" by simp
  qed (simp_all add: MAX_HEADERS_FRAME_SIZE_def stream_of_def content_def)
qed simp

lemma demo_authority: "show_socket_addr (SockAddr (V4 9 9 9 9) 443) = ''9.9.9.9:443''"
  by code_simp

lemma demo_request:
  obtains request where "headers_frame (env_enc (demo_env side)) (encode_connect_request
      (show_socket_addr (SockAddr (V4 9 9 9 9) 443)) (auth_token (demo_env side))) = Some request"
proof -
  have "length (encode_connect_request (show_socket_addr (SockAddr (V4 9 9 9 9) 443)) (auth_token (demo_env side))) < 2 ^ 62"
    unfolding demo_authority
    by (simp add: demo_env_def encode_connect_request_def encode_string_def encode_integer_def str_bytes_def)
  from quic_varint.frame_written [OF demo_accepted(1) [of side] this, of 1 "[]"] that show ?thesis
    by (auto simp: headers_frame_def)
qed



text \<open>
  C8: a connection to a literal address, end to end.  When the edge accepts the stream in time and
  then sends frames, whatever their kinds and however the bytes are cut, the connection given to
  the handler delivers exactly the payloads of the DATA frames and ends as the stream ends, unless
  the upload (writing what the handler sends, or closing that direction) fails before the download
  is over.  Then it delivers a prefix of those payloads, with all the frames the download had been
  through, and ends with the upload's error.  Its note is the site the edge named, and no stream is
  released.
\<close>

theorem masque_connection_carries_data:
  assumes "quic_varint (env_enc env) (env_dec env)" "open_stream env 0 = Some (send, recv)"
    "accepted (env_dec env) colo (bs @ bs') t recv"
    "wire_frames (env_dec env) early bs" "wire_frames (env_dec env) later bs'"
    "open_took env 0 + exchange_took env 0 \<le> 53 * 10 ^ 9" "exchange_took env 0 \<le> 15 * 10 ^ 9"
    "headers_frame (env_enc env) (encode_connect_request (show_socket_addr (SockAddr ip port)) (auth_token env)) = Some request"
    "write_all request send = (send', Ok ())"
  shows "\<exists>st' c. masque_connect_tcp env now (Ip ip) port (new_call entries) = (st', Ok c)
    \<and> conn_note c = map_option (\<lambda>site. ''colo='' @ site) colo \<and> released st' = []
    \<and> (case (upload_over (handler env 0),
             upload_result (uploaded (env_enc env) (handler env 0) send') (finishing (handler env 0))) of
         (Some k, Inl e) \<Rightarrow>
           tail_err (conn_stream c) = Some e \<and> prefix (content (conn_stream c)) (data_of (early @ later))
           \<and> (length bs \<le> k \<longrightarrow> prefix (data_of early) (content (conn_stream c)))
       | _ \<Rightarrow> content (conn_stream c) = data_of (early @ later) \<and> tail_err (conn_stream c) = t)"
proof -
  obtain stream where s: "connect_stream env (show_socket_addr (SockAddr ip port)) (new_call entries) =
      ((new_call entries)\<lparr>spent := open_took env 0 + exchange_took env 0,
         asked := [show_socket_addr (SockAddr ip port)]\<rparr>, Ok (0, stream, colo))"
    "delivers (upload_over (handler env 0))
       (upload_result (uploaded (env_enc env) (handler env 0) send') (finishing (handler env 0))) (length bs) early later t stream"
    using connect_stream_accepted [OF assms(1) _ assms(2-5) _ _ assms(8,9), of "new_call entries"] assms(6,7)
    by (auto simp: new_call_def MASQUE_CONNECT_TIMEOUT_def EXCHANGE_TIMEOUT_def simp del: show_socket_addr.simps)
  have "\<exists>st' c. masque_connect_tcp env now (Ip ip) port (new_call entries) = (st', Ok c)
      \<and> conn_note c = map_option (\<lambda>site. ''colo='' @ site) colo \<and> released st' = [] \<and> conn_stream c = stream"
    by (simp add: masque_connect_tcp_def andthen_def s(1) del: show_socket_addr.simps) (simp add: new_call_def)
  then show ?thesis using s(2) unfolding delivers_def by blast
qed

theorem masque_connection_carries_data_witness:
  "(\<exists>st' c. masque_connect_tcp (demo_env demo_handler) 0 (Ip (V4 9 9 9 9)) 443 (new_call []) = (st', Ok c)
      \<and> content (conn_stream c) = [7, 8] \<and> tail_err (conn_stream c) = None)
   \<and> (\<exists>st' c. masque_connect_tcp (demo_env broken_handler) 0 (Ip (V4 9 9 9 9)) 443 (new_call []) = (st', Ok c)
      \<and> prefix (content (conn_stream c)) [7, 8] \<and> tail_err (conn_stream c) = Some OtherIo)"
proof
  obtain request where r: "headers_frame (env_enc (demo_env demo_handler)) (encode_connect_request
      (show_socket_addr (SockAddr (V4 9 9 9 9) 443)) (auth_token (demo_env demo_handler))) = Some request"
    by (rule demo_request)
  obtain sent where "drain_upload rfc_enc \<lparr>chunks = [[1, 2]], tail_err = None\<rparr> \<lparr>written = request, room = None\<rparr> =
      Some (sent, Ok ())"
    using rfc.drain_upload_frames [where w = "[1, 2]" and s = "\<lparr>chunks = [[1, 2]], tail_err = None\<rparr>"
        and t = None and send = "\<lparr>written = request, room = None\<rparr>"]
    by (auto simp: stream_of_def content_def)
  then have "upload_result (uploaded rfc_enc demo_handler \<lparr>written = request, room = None\<rparr>) (finishing demo_handler) = Ok ()"
    by (simp add: uploaded_def demo_handler_def upload_result_def)
  then show "\<exists>st' c. masque_connect_tcp (demo_env demo_handler) 0 (Ip (V4 9 9 9 9)) 443 (new_call []) = (st', Ok c)
      \<and> content (conn_stream c) = [7, 8] \<and> tail_err (conn_stream c) = None"
    using masque_connection_carries_data [OF demo_accepted(1) demo_accepted(2-5) _ _ r,
        of "\<lparr>written = request, room = None\<rparr>" 0 "[]"]
    by (auto simp: demo_env_def open_sink_def demo_handler_def simp del: show_socket_addr.simps)
next
  obtain request where r: "headers_frame (env_enc (demo_env broken_handler)) (encode_connect_request
      (show_socket_addr (SockAddr (V4 9 9 9 9) 443)) (auth_token (demo_env broken_handler))) = Some request"
    by (rule demo_request)
  have "upload_result (uploaded rfc_enc broken_handler \<lparr>written = request, room = None\<rparr>) (finishing broken_handler) = Err OtherIo"
    by (simp add: uploaded_def broken_handler_def upload_result_def drain_upload.simps sread_def)
  then show "\<exists>st' c. masque_connect_tcp (demo_env broken_handler) 0 (Ip (V4 9 9 9 9)) 443 (new_call []) = (st', Ok c)
      \<and> prefix (content (conn_stream c)) [7, 8] \<and> tail_err (conn_stream c) = Some OtherIo"
    using masque_connection_carries_data [OF demo_accepted(1) demo_accepted(2-5) _ _ r,
        of "\<lparr>written = request, room = None\<rparr>" 0 "[]"]
    by (auto simp: demo_env_def open_sink_def broken_handler_def simp del: show_socket_addr.simps)
qed

end
