(* ===== verification/H2_Device.thy ===== *)
theory H2_Device
  imports Masque
begin

text \<open>
  \<^verbatim>\<open>outbound/masque/h2.rs\<close>, \<^verbatim>\<open>h2_outbound.rs\<close> and the verifier of \<^verbatim>\<open>tls.rs\<close>: IP packets as
  capsules of an HTTP/2 stream.  The HTTP/2 library appears as what it answers: the capacity it
  grants for sending, and the data pieces it delivers, cut wherever the peer or the network
  likes; the channel to the network stack as its answers to \<^verbatim>\<open>try_send\<close>.
\<close>

definition PACKET_MTU :: nat where
  "PACKET_MTU = 1280"

definition MAX_CAPSULE_BUFFER :: nat where
  "MAX_CAPSULE_BUFFER = 256 * 1024"

section \<open>Sending\<close>

text \<open>What \<^verbatim>\<open>poll_capacity\<close> yields, and whether the \<^verbatim>\<open>send_data\<close> that follows succeeds.\<close>

datatype capacity = CapClosed | CapError | Cap nat bool

datatype send_end = SendWaiting | SendTooLarge | SendStopped | SendPanic | SendDone

definition capsule :: "venc \<Rightarrow> bytes \<Rightarrow> bytes option" where
  "capsule venc packet = map_option (\<lambda>c. c @ packet) (varint_write venc [0] (of_nat (length packet)))"

text \<open>
  One capsule, in the pieces the granted capacities allow.  \<open>None\<close> as the outcome: all of it is
  sent.  When no more answers are given the task is still waiting for capacity.
\<close>

fun send_remaining :: "capacity list \<Rightarrow> bytes \<Rightarrow> bytes list \<times> capacity list \<times> send_end option" where
  "send_remaining caps [] = ([], caps, None)"
| "send_remaining [] (b # bs) = ([], [], Some SendWaiting)"
| "send_remaining (CapClosed # caps) (b # bs) = ([], caps, Some SendStopped)"
| "send_remaining (CapError # caps) (b # bs) = ([], caps, Some SendStopped)"
| "send_remaining (Cap available ok # caps) (b # bs) =
     (if available = 0 then send_remaining caps (b # bs)
      else
        let n = min available (length (b # bs)); chunk = take n (b # bs); remaining = drop n (b # bs) in
        if \<not> ok then ([], caps, Some SendStopped)
        else let (pieces, caps, r) = send_remaining caps remaining in (chunk # pieces, caps, r))"

text \<open>\<open>packets\<close> are what the channel yields until it is closed; \<open>accepted_end\<close>: the closing frame was accepted.\<close>

fun send_packets :: "venc \<Rightarrow> bool \<Rightarrow> capacity list \<Rightarrow> bytes list \<Rightarrow> bytes list \<times> send_end" where
  "send_packets venc accepted_end caps [] = ([], if accepted_end then SendDone else SendStopped)"
| "send_packets venc accepted_end caps (packet # packets) =
     (if PACKET_MTU < length packet then ([], SendTooLarge)
      else case capsule venc packet of
             None \<Rightarrow> ([], SendPanic)
           | Some c \<Rightarrow>
               (case send_remaining caps c of
                  (pieces, caps, Some r) \<Rightarrow> (pieces, r)
                | (pieces, caps, None) \<Rightarrow>
                    let (tail, r) = send_packets venc accepted_end caps packets in (pieces @ tail, r)))"

section \<open>Receiving\<close>

datatype try_send = Sent | Full | Closed

datatype receive_end = CapsuleTooLong nat | BufferFull | ReadFailed IoErr | ReceiverGone | StreamClosed

text \<open>The packet inside a datagram capsule, if the stack is to have it.\<close>

definition capsule_packet :: "bytes \<Rightarrow> bytes option" where
  "capsule_packet payload =
     (let packet = (case payload of b # rest \<Rightarrow> if b = 0 \<and> rest \<noteq> [] then rest else payload | [] \<Rightarrow> [])
      in case packet of
           [] \<Rightarrow> None
         | b # _ \<Rightarrow> if drop_bit 4 b = 4 \<or> drop_bit 4 b = 6 then Some packet else None)"

text \<open>
  The inner loop on the unconsumed part of the buffer.  \<open>ans n\<close> is the channel's answer to the
  \<open>n\<close>-th packet; \<open>out\<close> are the packets offered so far.  A codec that reads an integer from no bytes
  would make the loop run forever; the test for a header of no bytes stops it, and is never met
  with the codec of the standard.
\<close>

function drain_capsules ::
  "vdec \<Rightarrow> (nat \<Rightarrow> try_send) \<Rightarrow> bytes \<Rightarrow> bytes list \<Rightarrow> bytes list \<times> (receive_end, bytes) result" where
  "drain_capsules vdec ans buf out =
     (case varint_read vdec buf of
        None \<Rightarrow> (out, Ok buf)
      | Some (kind, kind_len) \<Rightarrow>
          (case varint_read vdec (drop kind_len buf) of
             None \<Rightarrow> (out, Ok buf)
           | Some (len, length_len) \<Rightarrow>
               let n = unat len; header = kind_len + length_len in
               if MAX_CAPSULE_BUFFER < n then (out, Err (CapsuleTooLong n))
               else if length buf < header + n \<or> header = 0 then (out, Ok buf)
               else
                 let rest = drop (header + n) buf in
                 if kind = 0 then
                   (case capsule_packet (take n (drop header buf)) of
                      None \<Rightarrow> drain_capsules vdec ans rest out
                    | Some packet \<Rightarrow>
                        if ans (length out) = Closed then (out, Err ReceiverGone)
                        else drain_capsules vdec ans rest (out @ [packet]))
                 else drain_capsules vdec ans rest out))"
  by pat_completeness auto
termination
  by (relation "measure (\<lambda>(vdec, ans, buf, out). length buf)") auto

declare drain_capsules.simps [simp del]

fun receive_packets ::
  "vdec \<Rightarrow> (nat \<Rightarrow> try_send) \<Rightarrow> (IoErr, bytes) result list \<Rightarrow> bytes \<Rightarrow> bytes list \<Rightarrow> bytes list \<times> receive_end" where
  "receive_packets vdec ans [] buf out = (out, StreamClosed)"
| "receive_packets vdec ans (Inl e # stream) buf out = (out, ReadFailed e)"
| "receive_packets vdec ans (Inr chunk # stream) buf out =
     (if MAX_CAPSULE_BUFFER < length buf + length chunk then (out, BufferFull)
      else case drain_capsules vdec ans (buf @ chunk) out of
             (out, Inl e) \<Rightarrow> (out, e)
           | (out, Inr buf) \<Rightarrow> receive_packets vdec ans stream buf out)"

text \<open>The packets that reached the stack: a full queue drops the one it is offered.\<close>

definition queued :: "(nat \<Rightarrow> try_send) \<Rightarrow> bytes list \<Rightarrow> bytes list" where
  "queued ans out = map snd (filter (\<lambda>(i, _). ans i = Sent) (List.enumerate 0 out))"

section \<open>The device\<close>

text \<open>A task of the carrier that has ended; the channels and the task set are the libraries' own.\<close>

datatype task_end = TaskOk | TaskErr | TaskPanicked

record ('o, 'i, 't) h2_lib =
  join_next :: "'t \<Rightarrow> 't \<times> task_end option poll"
  out_ready :: "'o \<Rightarrow> 'o \<times> bool poll"
  out_start_send :: "bytes \<Rightarrow> 'o \<Rightarrow> 'o \<times> bool"
  out_flush :: "'o \<Rightarrow> 'o \<times> bool poll"
  in_recv :: "'i \<Rightarrow> 'i \<times> bytes option poll"

record ('o, 'i, 't) H2Device =
  outgoing :: 'o
  incoming :: 'i
  tasks :: 't

definition poll_termination :: "('o, 'i, 't) h2_lib \<Rightarrow> ('o, 'i, 't) H2Device \<Rightarrow> ('o, 'i, 't) H2Device \<times> IoErr poll" where
  "poll_termination L d =
     (case join_next L (tasks d) of (t, r) \<Rightarrow>
        (d\<lparr>tasks := t\<rparr>,
         case r of
           Pending \<Rightarrow> Pending
         | Ready (Some TaskErr) \<Rightarrow> Ready OtherIo
         | Ready (Some TaskPanicked) \<Rightarrow> Ready OtherIo
         | Ready _ \<Rightarrow> Ready UnexpectedEof))"

definition h2_poll_next ::
  "('o, 'i, 't) h2_lib \<Rightarrow> ('o, 'i, 't) H2Device \<Rightarrow> ('o, 'i, 't) H2Device \<times> (IoErr, bytes) result option poll" where
  "h2_poll_next L d =
     (case poll_termination L d of
        (d, Ready e) \<Rightarrow> (d, Ready (Some (Err e)))
      | (d, Pending) \<Rightarrow>
          (case in_recv L (incoming d) of (i, r) \<Rightarrow>
             (d\<lparr>incoming := i\<rparr>,
              case r of Pending \<Rightarrow> Pending | Ready p \<Rightarrow> Ready (map_option Ok p))))"

text \<open>A closed channel (\<open>False\<close>) is a broken pipe.\<close>

definition channel_result :: "bool \<Rightarrow> (IoErr, unit) result" where
  "channel_result ok = (if ok then Ok () else Err BrokenPipe)"

definition h2_poll_out ::
  "('o, 'i, 't) h2_lib \<Rightarrow> ('o \<Rightarrow> 'o \<times> bool poll) \<Rightarrow> ('o, 'i, 't) H2Device \<Rightarrow> ('o, 'i, 't) H2Device \<times> (IoErr, unit) result poll" where
  "h2_poll_out L op d =
     (case poll_termination L d of
        (d, Ready e) \<Rightarrow> (d, Ready (Err e))
      | (d, Pending) \<Rightarrow>
          (case op (outgoing d) of (q, r) \<Rightarrow>
             (d\<lparr>outgoing := q\<rparr>,
              case r of Pending \<Rightarrow> Pending | Ready ok \<Rightarrow> Ready (channel_result ok))))"

definition h2_start_send ::
  "('o, 'i, 't) h2_lib \<Rightarrow> bytes \<Rightarrow> ('o, 'i, 't) H2Device \<Rightarrow> ('o, 'i, 't) H2Device \<times> (IoErr, unit) result" where
  "h2_start_send L item d =
     (if PACKET_MTU < length item then (d, Err InvalidData)
      else case out_start_send L item (outgoing d) of (q, ok) \<Rightarrow> (d\<lparr>outgoing := q\<rparr>, channel_result ok))"

definition h2_async_device :: "('o, 'i, 't) h2_lib \<Rightarrow> ('o, 'i, 't) H2Device AsyncDevice" where
  "h2_async_device L =
     \<lparr>poll_ready = h2_poll_out L (out_ready L), start_send = h2_start_send L,
      poll_flush = h2_poll_out L (out_flush L), poll_next = h2_poll_next L\<rparr>"

text \<open>The end of a carrier task reaches the reactor whichever way it polls, also under back pressure.\<close>

lemma terminated_device_fails:
  assumes "join_next L (tasks d) = (t, Ready r)"
  shows "\<exists>e. snd (poll_ready (h2_async_device L) d) = Ready (Err e)"
    "\<exists>e. snd (poll_flush (h2_async_device L) d) = Ready (Err e)"
    "\<exists>e. snd (poll_next (h2_async_device L) d) = Ready (Some (Err e))"
  using assms
  by (auto simp: h2_async_device_def h2_poll_out_def h2_poll_next_def poll_termination_def split: option.splits task_end.splits)

section \<open>Establishing the carrier\<close>

definition H2_HANDSHAKE_TIMEOUT :: nat where
  "H2_HANDSHAKE_TIMEOUT = 15 * 10 ^ 9"

text \<open>The steps of \<^verbatim>\<open>dial_one\<close>, each under its own limit; the answer carries the status and the site.\<close>

record h2_steps =
  h2_tls :: "unit future"
  h2_negotiated :: "unit future"
  h2_sender_ready :: "unit future"
  h2_response :: "(u16 \<times> string option) future"

datatype h2_error = StepFailed IoErr | EdgeRejected u16 | CarrierTimedOut | NoEdge | AllFailed "SocketAddr list"

definition h2_step :: "nat \<times> (h2_error, 'a) result \<Rightarrow> ('a \<Rightarrow> 'b future) \<Rightarrow> nat \<times> (h2_error, 'b) result" where
  "h2_step m f =
     (case m of
        (t, Inl e) \<Rightarrow> (t, Err e)
      | (t, Inr x) \<Rightarrow> (case bounded H2_HANDSHAKE_TIMEOUT (f x) of (d, r) \<Rightarrow> (t + d, rmap_err StepFailed r)))"

definition h2_dial_one :: "h2_steps \<Rightarrow> nat \<times> (h2_error, string) result" where
  "h2_dial_one s =
     (case h2_step (h2_step (h2_step (h2_step (0, Ok ()) (\<lambda>_. h2_tls s)) (\<lambda>_. h2_negotiated s))
         (\<lambda>_. h2_sender_ready s)) (\<lambda>_. h2_response s) of
        (t, Inl e) \<Rightarrow> (t, Err e)
      | (t, Inr (status, colo)) \<Rightarrow>
          (t, if status \<noteq> 200 then Err (EdgeRejected status)
              else Ok (case colo of Some c \<Rightarrow> c | None \<Rightarrow> ''unknown'')))"

lemma h2_step_time: "fst (h2_step m f) \<le> fst m + H2_HANDSHAKE_TIMEOUT"
proof -
  have "d \<le> H2_HANDSHAKE_TIMEOUT" if "bounded H2_HANDSHAKE_TIMEOUT (f x) = (d, r)" for x d r
    using bounded_le [of H2_HANDSHAKE_TIMEOUT "f x"] that by simp
  then show ?thesis by (auto simp: h2_step_def split: prod.splits sum.splits)
qed

lemma h2_dial_one_time: "fst (h2_dial_one s) \<le> 4 * H2_HANDSHAKE_TIMEOUT"
proof -
  let ?a = "h2_step (0, Ok ()) (\<lambda>_. h2_tls s)" and ?c = "\<lambda>m :: nat \<times> (h2_error, unit) result. h2_step m (\<lambda>_. h2_response s)"
  let ?b = "h2_step ?a (\<lambda>_. h2_negotiated s)" let ?d = "h2_step ?b (\<lambda>_. h2_sender_ready s)"
  have "fst ?a \<le> H2_HANDSHAKE_TIMEOUT" using h2_step_time [of "(0, Ok ())"] by simp
  moreover have "fst ?b \<le> fst ?a + H2_HANDSHAKE_TIMEOUT" "fst ?d \<le> fst ?b + H2_HANDSHAKE_TIMEOUT"
    "fst (?c ?d) \<le> fst ?d + H2_HANDSHAKE_TIMEOUT" by (rule h2_step_time)+
  moreover have "fst (h2_dial_one s) = fst (?c ?d)"
    by (auto simp: h2_dial_one_def split: prod.splits sum.splits)
  ultimately show ?thesis by simp
qed

text \<open>
  The edges are tried one after the other; the addresses given to the upstream are recorded.  A
  timeout of the upstream has closed its session, so nothing more is tried.
\<close>

fun h2_connect_loop ::
  "Outbound \<Rightarrow> (SocketAddr \<Rightarrow> h2_steps) \<Rightarrow> SocketAddr list \<Rightarrow> SocketAddr list \<Rightarrow> SocketAddr list \<times> (h2_error, string) result" where
  "h2_connect_loop upstream dial [] errors = ([], Err (if errors = [] then NoEdge else AllFailed errors))"
| "h2_connect_loop upstream dial (addr # addrs) errors =
     (case connect_tcp upstream (Ip (sa_ip addr)) (sa_port addr) of
        Inl e \<Rightarrow>
          if e = TimedOut then ([addr], Err CarrierTimedOut)
          else let (dialled, r) = h2_connect_loop upstream dial addrs (errors @ [addr]) in (addr # dialled, r)
      | Inr c \<Rightarrow>
          (case h2_dial_one (dial addr) of
             (_, Inr device) \<Rightarrow> ([addr], Ok device)
           | (_, Inl e) \<Rightarrow>
               let (dialled, r) = h2_connect_loop upstream dial addrs (errors @ [addr]) in (addr # dialled, r)))"

definition h2_connect ::
  "Outbound \<Rightarrow> (SocketAddr \<Rightarrow> h2_steps) \<Rightarrow> Registration \<Rightarrow> SocketAddr list \<times> (h2_error, string) result" where
  "h2_connect upstream dial reg =
     h2_connect_loop upstream dial (filter (\<lambda>addr. sa_port addr = 443) (edge_addrs reg)) []"

lemma h2_connect_loop_tried:
  "h2_connect_loop upstream dial addrs errors = (dialled, r) \<Longrightarrow>
     (\<exists>rest. addrs = dialled @ rest \<and> (rest \<noteq> [] \<longrightarrow> is_ok r \<or> r = Err CarrierTimedOut))"
  by (induction addrs arbitrary: errors dialled)
     (auto simp: Let_def split: sum.splits if_splits prod.splits; fastforce)+

definition h2_build_net_config :: "Registration \<Rightarrow> (IoErr, NetConfig) result" where
  "h2_build_net_config reg =
     (let address = (\<lambda>text v4 len. if trim text = [] then Ok []
           else case parse_ip text of
                  Some ip \<Rightarrow> if is_ipv4 ip = v4 then Ok [(ip, len)] else Err OtherIo
                | None \<Rightarrow> Err OtherIo)
      in rbind (address (assigned_ipv4 reg) True 32) (\<lambda>v4.
         rbind (address (assigned_ipv6 reg) False 128) (\<lambda>v6.
           if v4 @ v6 = [] then Err OtherIo else Ok (net_config (v4 @ v6)))))"

text \<open>The outlet has a source address of every family the registration was given one of.\<close>

lemma h2_build_net_config_sources:
  assumes "h2_build_net_config reg = Ok config"
  shows "ip_addrs config \<noteq> []
    \<and> source_v4 (net_sources (ip_addrs config)) = (if trim (assigned_ipv4 reg) = [] then None else parse_ip (assigned_ipv4 reg))
    \<and> source_v6 (net_sources (ip_addrs config)) = (if trim (assigned_ipv6 reg) = [] then None else parse_ip (assigned_ipv6 reg))"
  using assms
  by (auto simp: h2_build_net_config_def Let_def rbind_Inr_iff net_config_def NetConfig_new_def net_sources_def
      split: if_splits option.splits)

text \<open>\<^verbatim>\<open>MasqueH2::new\<close>; the addresses are checked before anything is dialled.\<close>

definition masque_h2_new ::
  "Outbound \<Rightarrow> (SocketAddr \<Rightarrow> h2_steps) \<Rightarrow> nat \<Rightarrow> (IpAddr list \<Rightarrow> bool) \<Rightarrow> Registration \<Rightarrow> (h2_error, string \<times> Net) result" where
  "masque_h2_new upstream dial addr_room routes_fit reg =
     rbind (rmap_err StepFailed (h2_build_net_config reg)) (\<lambda>config.
     rbind (snd (h2_connect upstream dial reg)) (\<lambda>device.
     rbind (rmap_err StepFailed (net_new addr_room routes_fit config)) (\<lambda>net. Ok (device, net))))"

section \<open>The edge's key\<close>

text \<open>\<^verbatim>\<open>PinnedEdge\<close>: \<open>spki_of\<close> is the certificate parser's public key field.\<close>

definition verify_server_cert :: "(bytes \<Rightarrow> bytes option) \<Rightarrow> bytes \<Rightarrow> bytes \<Rightarrow> (IoErr, unit) result" where
  "verify_server_cert spki_of pinned cert =
     (case spki_of cert of
        None \<Rightarrow> Err OtherIo
      | Some spki \<Rightarrow> if spki = pinned then Ok () else Err OtherIo)"

definition verify_tls12_signature :: "bytes \<Rightarrow> (IoErr, unit) result" where
  "verify_tls12_signature message = Err OtherIo"

section \<open>Chunks do not matter\<close>

lemma drain_capsules_stop:
  "varint_read vdec buf = None \<Longrightarrow> drain_capsules vdec ans buf out = (out, Ok buf)"
  by (simp add: drain_capsules.simps)

lemma send_remaining_all:
  "send_remaining caps bs = (pieces, caps', None) \<Longrightarrow> concat pieces = bs"
  by (induction caps bs arbitrary: pieces rule: send_remaining.induct)
     (auto simp: Let_def split: if_splits prod.splits)

lemma send_packets_all:
  "send_packets venc True caps packets = (wire, SendDone) \<Longrightarrow>
     \<exists>cs. list_all2 (\<lambda>p c. capsule venc p = Some c \<and> length p \<le> PACKET_MTU) packets cs \<and> concat wire = concat cs"
proof (induction packets arbitrary: caps wire)
  case (Cons p ps)
  obtain c where c: "capsule venc p = Some c" "length p \<le> PACKET_MTU"
    using Cons.prems by (auto split: if_splits option.splits)
  obtain pieces caps' r where r: "send_remaining caps c = (pieces, caps', r)" by (cases "send_remaining caps c")
  show ?case
  proof (cases r)
    case None
    obtain tail q where m: "send_packets venc True caps' ps = (tail, q)" by force
    then have "q = SendDone" "wire = pieces @ tail" using Cons.prems c r None by simp_all
    with Cons.IH [of caps' tail] m obtain cs where
      "list_all2 (\<lambda>p c. capsule venc p = Some c \<and> length p \<le> PACKET_MTU) ps cs" "concat tail = concat cs" by auto
    with c send_remaining_all [of caps c pieces caps'] r None \<open>wire = _\<close> show ?thesis
      by (intro exI [of _ "c # cs"]) auto
  next
    case (Some e)
    have "e \<noteq> SendDone" if "send_remaining caps bs = (pieces, caps', Some e)" for caps bs pieces
      using that by (induction caps bs arbitrary: pieces rule: send_remaining.induct)
        (auto simp: Let_def split: if_splits prod.splits)
    then show ?thesis using Cons.prems c r Some by auto
  qed
qed simp

context quic_varint
begin

lemma varint_read_local:
  assumes "varint_read vdec bs = Some (v, n)"
  shows "varint_read vdec (bs @ tail) = Some (v, n)" "0 < n" "n \<le> length bs"
  using assms varint_read_bounds [OF assms]
  by (auto simp: varint_read_def dec_local split: option.splits prod.splits dest!: dec_local [of _ _ _ tail])

text \<open>Draining a longer buffer is draining its front, then what is left of that with the rest.\<close>

lemma drain_capsules_append:
  "drain_capsules vdec ans (a @ b) out =
     (case drain_capsules vdec ans a out of
        (out, Inl e) \<Rightarrow> (out, Err e)
      | (out, Inr rest) \<Rightarrow> drain_capsules vdec ans (rest @ b) out)"
proof (induction a arbitrary: out rule: length_induct)
  case (1 a)
  show ?case
  proof (cases "varint_read vdec a")
    case None
    then show ?thesis by (simp add: drain_capsules_stop)
  next
    case (Some x)
    then obtain kind kl where k: "varint_read vdec a = Some (kind, kl)" by (cases x) auto
    note kb = varint_read_local [OF k]
    show ?thesis
    proof (cases "varint_read vdec (drop kl a)")
      case None
      then show ?thesis using k by (simp add: drain_capsules.simps [of vdec ans a])
    next
      case (Some y)
      then obtain len ll where l: "varint_read vdec (drop kl a) = Some (len, ll)" by (cases y) auto
      note lb = varint_read_local [OF l]
      have ab: "varint_read vdec (a @ b) = Some (kind, kl)" "varint_read vdec (drop kl (a @ b)) = Some (len, ll)"
        using kb lb by simp_all
      let ?n = "kl + ll + unat len"
      show ?thesis
      proof (cases "MAX_CAPSULE_BUFFER < unat len \<or> length a < ?n")
        case True
        show ?thesis
        proof (cases "MAX_CAPSULE_BUFFER < unat len")
          case True
          then show ?thesis using k l ab
            by (simp add: drain_capsules.simps [of vdec ans a] drain_capsules.simps [of vdec ans "a @ b"] Let_def)
        next
          case False
          with \<open>_ \<or> _\<close> k l have "drain_capsules vdec ans a out = (out, Ok a)"
            by (simp add: drain_capsules.simps [of vdec ans a] Let_def)
          then show ?thesis by simp
        qed
      next
        case False
        then have sh: "length (drop ?n a) < length a" "drop ?n (a @ b) = drop ?n a @ b"
          "take (unat len) (drop (kl + ll) (a @ b)) = take (unat len) (drop (kl + ll) a)"
          using kb(2) by auto
        note IH = 1 [rule_format, OF sh(1)]
        show ?thesis
          using k l ab False kb(2) sh(2,3) IH
          by (auto simp: drain_capsules.simps [of vdec ans a] drain_capsules.simps [of vdec ans "a @ b"] Let_def
              split: option.splits)
      qed
    qed
  qed
qed

lemma capsule_shape:
  assumes "capsule venc p = Some c" "length p \<le> PACKET_MTU"
  obtains v where "c = 0 # v @ p" "v \<noteq> []" "length v \<le> 8" "venc (of_nat (length p)) = Some v"
proof -
  obtain v where v: "venc (of_nat (length p)) = Some v" "c = 0 # v @ p"
    using assms(1) by (auto simp: capsule_def varint_write_def)
  have "length v = varint_len (hd v)" "v \<noteq> []" using enc_length [OF v(1)] by auto
  moreover have "varint_len b \<le> 8" for b
  proof -
    have "unat b < 256" using unsigned_less [of b] by simp
    then have "unat (drop_bit 6 b) < 4"
      by (simp add: drop_bit_eq_div unat_div less_mult_imp_div_less)
    then have "unat (drop_bit 6 b) \<le> 3" by simp
    then show ?thesis unfolding varint_len_def using power_increasing [of "unat (drop_bit 6 b)" 3 "2 :: nat"] by simp
  qed
  ultimately show thesis using that v by metis
qed

lemma drain_one_capsule:
  assumes "venc 0 = Some [0]" "capsule venc p = Some c" "length p \<le> PACKET_MTU" "capsule_packet p = Some p"
    "\<forall>i. ans i \<noteq> Closed"
  shows "drain_capsules vdec ans (c @ rest) out = drain_capsules vdec ans rest (out @ [p])"
proof -
  obtain v where v: "c = 0 # v @ p" "v \<noteq> []" "venc (of_nat (length p)) = Some v"
    using capsule_shape [OF assms(2,3)] by metis
  have 1: "varint_read vdec (0 # v @ p @ rest) = Some (0, 1)"
    using dec_enc [OF assms(1), of "v @ p @ rest"] by (simp add: varint_read_def)
  have 2: "varint_read vdec (v @ p @ rest) = Some (of_nat (length p), length v)"
    using dec_enc [OF v(3), of "p @ rest"] by (simp add: varint_read_def)
  have n: "unat (of_nat (length p) :: u64) = length p"
    using assms(3) by (simp add: PACKET_MTU_def unat_of_nat)
  show ?thesis
    using 1 2 n assms(3-5) unfolding v(1)
    by (subst drain_capsules.simps) (simp add: Let_def PACKET_MTU_def MAX_CAPSULE_BUFFER_def)
qed

lemma drain_partial_capsule:
  assumes "venc 0 = Some [0]" "capsule venc p = Some c" "length p \<le> PACKET_MTU" "k < length c"
  shows "drain_capsules vdec ans (take k c) out = (out, Ok (take k c))"
proof -
  obtain v where v: "c = 0 # v @ p" "v \<noteq> []" "venc (of_nat (length p)) = Some v"
    using capsule_shape [OF assms(2,3)] by metis
  have n: "unat (of_nat (length p) :: u64) = length p"
    using assms(3) by (simp add: PACKET_MTU_def unat_of_nat)
  show ?thesis
  proof (cases k)
    case 0
    have "vdec [] = None" by (simp add: dec_defined)
    then show ?thesis using 0 by (simp add: drain_capsules_stop varint_read_def)
  next
    case (Suc j)
    have 1: "varint_read vdec (0 # take j (v @ p)) = Some (0, 1)"
      using dec_enc [OF assms(1), of "take j (v @ p)"] by (simp add: varint_read_def)
    show ?thesis
    proof (cases "j < length v")
      case True
      then show ?thesis
        using 1 Suc v(1) varint_read_prefix_None [OF v(3) True] by (simp add: drain_capsules.simps)
    next
      case False
      have 2: "varint_read vdec (take j v @ take (j - length v) p) = Some (of_nat (length p), length v)"
        using dec_enc [OF v(3), of "take (j - length v) p"] False by (simp add: varint_read_def)
      have "j < length v + length p" using assms(4) v(1) Suc by simp
      then show ?thesis
        using 1 2 n Suc v(1) assms(3) False
        by (subst drain_capsules.simps) (simp add: Let_def PACKET_MTU_def MAX_CAPSULE_BUFFER_def)
    qed
  qed
qed

text \<open>Any beginning of a sequence of capsules: the whole ones are taken, the cut one is kept.\<close>

definition carries :: "bytes list \<Rightarrow> bytes list \<Rightarrow> bool" where
  "carries = list_all2 (\<lambda>p c. capsule venc p = Some c \<and> length p \<le> PACKET_MTU \<and> capsule_packet p = Some p)"

lemma drain_beginning:
  assumes "venc 0 = Some [0]" "\<forall>i. ans i \<noteq> Closed" "carries ps cs" "x @ y = concat cs"
  shows "\<exists>ps1 ps2 cs2 z. ps = ps1 @ ps2 \<and> carries ps2 cs2 \<and> drain_capsules vdec ans x out = (out @ ps1, Ok z)
    \<and> z @ y = concat cs2 \<and> length z \<le> PACKET_MTU + 9 \<and> (y = [] \<longrightarrow> ps2 = [])"
  using assms(3,4)
proof (induction ps arbitrary: cs x out)
  case Nil
  then have "x = []" "y = []" by (auto simp: carries_def)
  moreover have "vdec [] = None" by (simp add: dec_defined)
  ultimately show ?case
    by (intro exI [of _ "[]"]) (simp add: carries_def drain_capsules_stop varint_read_def)
next
  case (Cons p ps)
  then obtain c cs' where c: "cs = c # cs'" "capsule venc p = Some c" "length p \<le> PACKET_MTU" "capsule_packet p = Some p"
    "carries ps cs'" by (auto simp: carries_def list_all2_Cons1)
  show ?case
  proof (cases "length c \<le> length x")
    case True
    moreover have "x @ y = c @ concat cs'" using Cons.prems(2) c(1) by simp
    ultimately obtain x' where x: "x = c @ x'" "x' @ y = concat cs'"
      by (auto simp: append_eq_append_conv2)
    obtain ps1 ps2 cs2 z where h: "ps = ps1 @ ps2" "carries ps2 cs2"
      "drain_capsules vdec ans x' (out @ [p]) = ((out @ [p]) @ ps1, Ok z)" "z @ y = concat cs2" "length z \<le> PACKET_MTU + 9"
      "y = [] \<longrightarrow> ps2 = []"
      using Cons.IH [OF c(5) x(2), of "out @ [p]"] by metis
    then show ?thesis
      using drain_one_capsule [OF assms(1) c(2-4) assms(2), where rest = x' and out = out] x(1)
      by (intro exI [of _ "p # ps1"] exI [of _ ps2] exI [of _ cs2] exI [of _ z]) simp
  next
    case False
    then have "x = take (length x) c" using Cons.prems(2) c(1)
      by (metis append_eq_append_conv_if append_eq_conv_conj concat.simps(2) nat_le_linear take_all)
    then have "drain_capsules vdec ans x out = (out, Ok x)"
      using drain_partial_capsule [OF assms(1) c(2,3), of "length x" ans out] False by simp
    moreover have "length x \<le> PACKET_MTU + 9"
    proof (rule capsule_shape [OF c(2,3)])
      fix v assume "c = 0 # v @ p" "length v \<le> 8"
      then show ?thesis using False c(3) by simp
    qed
    moreover have "y \<noteq> []" using Cons.prems(2) c(1) False by (metis append_Nil2 concat.simps(2) length_append le_add1)
    ultimately show ?thesis
      using Cons.prems by (intro exI [of _ "[]"] exI [of _ "p # ps"] exI [of _ cs] exI [of _ x]) simp
  qed
qed

lemma receive_carried:
  assumes "venc 0 = Some [0]" "\<forall>i. ans i \<noteq> Closed" "\<forall>c\<in>set pieces. length c \<le> 64 * 1024"
    "carries ps cs" "buf @ concat pieces = concat cs" "length buf \<le> PACKET_MTU + 9" "pieces = [] \<longrightarrow> ps = []"
  shows "receive_packets vdec ans (map Inr pieces) buf out = (out @ ps, StreamClosed)"
  using assms(3-7)
proof (induction pieces arbitrary: ps cs buf out)
  case (Cons piece pieces)
  have "(buf @ piece) @ concat pieces = concat cs" using Cons.prems(3) by simp
  from drain_beginning [OF assms(1) assms(2) Cons.prems(2) this, of out]
  obtain ps1 ps2 cs2 z where h: "ps = ps1 @ ps2" "carries ps2 cs2"
    "drain_capsules vdec ans (buf @ piece) out = (out @ ps1, Ok z)" "z @ concat pieces = concat cs2"
    "length z \<le> PACKET_MTU + 9" "concat pieces = [] \<longrightarrow> ps2 = []" by (elim exE conjE) rule
  have "receive_packets vdec ans (map Inr pieces) z (out @ ps1) = ((out @ ps1) @ ps2, StreamClosed)"
    by (rule Cons.IH [OF _ h(2,4,5)]) (use Cons.prems(1) h(6) in auto)
  moreover have "length buf + length piece \<le> MAX_CAPSULE_BUFFER"
    using Cons.prems(1,4) by (simp add: PACKET_MTU_def MAX_CAPSULE_BUFFER_def)
  ultimately show ?case using h(1,3) by simp
qed simp

end

section \<open>Properties\<close>

text \<open>A packet the receiver takes as one: its version is 4 or 6.\<close>

definition ip_packet :: "bytes \<Rightarrow> bool" where
  "ip_packet p \<longleftrightarrow> p \<noteq> [] \<and> (drop_bit 4 (hd p) = 4 \<or> drop_bit 4 (hd p) = 6)"

lemma capsule_packet_ip: "ip_packet p \<Longrightarrow> capsule_packet p = Some p"
  by (cases p) (auto simp: ip_packet_def capsule_packet_def)

text \<open>
  C18: what one end has sent the other end receives.  When the sending task has put a sequence of IP
  packets on the stream, in whatever pieces the granted capacities forced, and the other end reads
  those bytes in whatever chunks of at most 64 KiB they come, its receiving task hands the same
  packets to the stack in the same order, none twice and none torn; a packet is lost only when
  the stack's queue is full.
\<close>

theorem capsules_roundtrip:
  assumes "quic_varint venc vdec" "venc 0 = Some [0]"
    "send_packets venc True caps packets = (wire, SendDone)" "concat pieces = concat wire"
    "\<forall>c\<in>set pieces. length c \<le> 64 * 1024" "\<forall>p\<in>set packets. ip_packet p" "\<forall>i. ans i \<noteq> Closed"
  shows "receive_packets vdec ans (map Inr pieces) [] [] = (packets, StreamClosed)
    \<and> ((\<forall>i < length packets. ans i = Sent) \<longrightarrow> queued ans packets = packets)"
proof -
  obtain cs where cs: "list_all2 (\<lambda>p c. capsule venc p = Some c \<and> length p \<le> PACKET_MTU) packets cs"
    "concat wire = concat cs"
    using send_packets_all [OF assms(3)] by auto
  have "list_all2 (\<lambda>p c. capsule venc p = Some c \<and> length p \<le> PACKET_MTU \<and> capsule_packet p = Some p) packets cs"
    by (rule list.rel_mono_strong [OF cs(1)]) (use assms(6) capsule_packet_ip in blast)
  then have car: "quic_varint.carries venc packets cs"
    by (simp only: quic_varint.carries_def [OF assms(1)])
  have "pieces = [] \<longrightarrow> packets = []"
  proof
    assume "pieces = []"
    then have "concat cs = []" using assms(4) cs(2) by simp
    then show "packets = []"
      using cs(1) by (cases packets) (auto simp: list_all2_Cons1 capsule_def varint_write_def)
  qed
  then have "receive_packets vdec ans (map Inr pieces) [] [] = ([] @ packets, StreamClosed)"
    using quic_varint.receive_carried [OF assms(1,2,7,5) car, where buf = "[]" and out = "[]"] assms(4) cs(2) by simp
  moreover have "queued ans packets = packets" if "\<forall>i < length packets. ans i = Sent"
  proof -
    have "filter (\<lambda>(i, _). ans i = Sent) (List.enumerate 0 packets) = List.enumerate 0 packets"
      using that by (auto simp: filter_id_conv in_set_enumerate_eq)
    then show ?thesis by (simp add: queued_def)
  qed
  ultimately show ?thesis by simp
qed

theorem capsules_roundtrip_witness:
  "receive_packets rfc_dec (\<lambda>_. Sent) (map Inr [[0], [2, 0x45], [9, 0, 1], [0x60]]) [] [] =
     ([[0x45, 9], [0x60]], StreamClosed)"
proof -
  have c: "capsule rfc_enc [0x45, 9] = Some [0, 2, 0x45, 9]" "capsule rfc_enc [0x60] = Some [0, 1, 0x60]"
    "rfc_enc 0 = Some [0]"
    by (simp_all add: capsule_def varint_write_def rfc_enc_def)
  have s: "send_packets rfc_enc True [Cap 3 True, Cap 0 True, Cap 9 True, Cap 5 True] [[0x45, 9], [0x60]] =
      ([[0, 2, 0x45], [9], [0, 1, 0x60]], SendDone)"
    by (simp add: PACKET_MTU_def c Let_def)
  have ip: "ip_packet [0x45, 9]" "ip_packet [0x60]" by (simp_all add: ip_packet_def)
  have "concat [[0], [2, 0x45], [9, 0, 1], [0x60]] = concat [[0, 2, 0x45], [9], [0, 1, 0x60 :: u8]]"
    "\<forall>c\<in>set [[0], [2, 0x45], [9, 0, 1], [0x60 :: u8]]. length c \<le> 64 * 1024"
    "\<forall>p\<in>set [[0x45, 9], [0x60]]. ip_packet p" "\<forall>i :: nat. Sent \<noteq> Closed"
    using ip by simp_all
  from capsules_roundtrip [OF rfc.quic_varint_axioms c(3) s this] show ?thesis by (rule conjunct1)
qed

end
