(* ===== verification/Https.thy ===== *)
theory Https
  imports Health Relay
begin

text \<open>
  \<^verbatim>\<open>outbound/https.rs\<close> and the two probes of \<^verbatim>\<open>health/probe.rs\<close>: a bounded HTTPS request over an
  outlet.  The TLS and HTTP libraries appear as their answers: the session over the outlet's
  stream, and the response with its body in frames.
\<close>

section \<open>A bounded request\<close>

datatype body_frame = DataFrame bytes | OtherFrame | BadFrame

record https_reply =
  reply_status :: u16
  reply_length :: "string option"
  reply_frames :: "body_frame list"

record https_env =
  https_tls :: "string \<Rightarrow> rstream \<Rightarrow> rstream option"
  https_send :: "rstream \<Rightarrow> string \<Rightarrow> string \<Rightarrow> https_reply option"
  https_took :: nat

datatype HttpsError = HttpsConnect IoErr | HttpsTls | HttpsSend | HttpsStatus u16 | HttpsTooLarge | HttpsRead | HttpsTimedOut

definition is_success :: "u16 \<Rightarrow> bool" where
  "is_success status \<longleftrightarrow> 200 \<le> status \<and> status < 300"

fun read_frames :: "nat \<Rightarrow> body_frame list \<Rightarrow> bytes \<Rightarrow> (HttpsError, bytes) result" where
  "read_frames max_bytes [] body = Ok body"
| "read_frames max_bytes (BadFrame # frames) body = Err HttpsRead"
| "read_frames max_bytes (OtherFrame # frames) body = read_frames max_bytes frames body"
| "read_frames max_bytes (DataFrame data # frames) body =
     (if max_bytes - length body < length data then Err HttpsTooLarge
      else read_frames max_bytes frames (body @ data))"

definition announced_too_large :: "nat \<Rightarrow> https_reply \<Rightarrow> bool" where
  "announced_too_large max_bytes reply =
     (case reply_length reply of
        None \<Rightarrow> False
      | Some text \<Rightarrow> (case parse_uint (2 ^ 64 - 1) text of None \<Rightarrow> False | Some n \<Rightarrow> max_bytes < n))"

definition get_inner :: "https_env \<Rightarrow> Outbound \<Rightarrow> string \<Rightarrow> string \<Rightarrow> nat \<Rightarrow> (HttpsError, bytes) result" where
  "get_inner env outbound host path max_bytes =
     rbind (rmap_err HttpsConnect (connect_tcp outbound (Domain host) 443)) (\<lambda>connected.
     rbind (ok_or HttpsTls (https_tls env host (conn_stream connected))) (\<lambda>stream.
     rbind (ok_or HttpsSend (https_send env stream host path)) (\<lambda>reply.
       if \<not> is_success (reply_status reply) then Err (HttpsStatus (reply_status reply))
       else if announced_too_large max_bytes reply then Err HttpsTooLarge
       else read_frames max_bytes (reply_frames reply) [])))"

definition https_get ::
  "https_env \<Rightarrow> Outbound \<Rightarrow> string \<Rightarrow> string \<Rightarrow> nat \<Rightarrow> nat \<Rightarrow> (HttpsError, bytes) result" where
  "https_get env outbound host path max_bytes timeout =
     (if https_took env \<le> timeout then get_inner env outbound host path max_bytes else Err HttpsTimedOut)"

fun frame_data :: "body_frame \<Rightarrow> bytes" where
  "frame_data (DataFrame data) = data"
| "frame_data _ = []"

lemma read_frames_Ok:
  "read_frames max_bytes frames body = Ok out \<Longrightarrow> length body \<le> max_bytes \<Longrightarrow>
     out = body @ concat (map frame_data frames) \<and> length out \<le> max_bytes \<and> BadFrame \<notin> set frames"
proof (induction max_bytes frames body rule: read_frames.induct)
  case (4 max_bytes data frames body)
  then have "read_frames max_bytes frames (body @ data) = Ok out" "length (body @ data) \<le> max_bytes"
    by (auto split: if_splits)
  with 4 have "out = (body @ data) @ concat (map frame_data frames) \<and> length out \<le> max_bytes \<and> BadFrame \<notin> set frames"
    by (auto split: if_splits)
  then show ?case by auto
qed auto

text \<open>
  However many frames a server sends and whatever length it announces, what is kept is at most
  \<open>max_bytes\<close>, and it is the whole body.
\<close>

lemma https_get_bounded:
  assumes "https_get env outbound host path max_bytes timeout = Ok body"
  shows "length body \<le> max_bytes \<and> (\<exists>reply :: https_reply. is_success (reply_status reply)
    \<and> body = concat (map frame_data (reply_frames reply)) \<and> https_took env \<le> timeout)"
proof -
  from assms obtain reply :: https_reply where "is_success (reply_status reply)"
    "read_frames max_bytes (reply_frames reply) [] = Ok body" "https_took env \<le> timeout"
    by (auto simp: https_get_def get_inner_def rbind_Inr_iff split: if_splits)
  with read_frames_Ok [of max_bytes "reply_frames reply" "[]" body] show ?thesis by auto
qed

section \<open>Probing an outlet\<close>

definition TRACE_HOST :: string where
  "TRACE_HOST = ''cloudflare.com''"

definition TRACE_PATH :: string where
  "TRACE_PATH = ''/cdn-cgi/trace''"

definition MAX_TRACE_BYTES :: nat where
  "MAX_TRACE_BYTES = 4096"

datatype probe_error = ProbeRequest HttpsError | ProbeNotText | ProbeTrace ProbeError

definition trace_of_body :: "bytes \<Rightarrow> (probe_error, ProbeOutcome) result" where
  "trace_of_body bytes =
     rbind (ok_or ProbeNotText (from_utf8 bytes)) (\<lambda>body. rmap_err ProbeTrace (parse_trace body))"

definition probe_outbound :: "https_env \<Rightarrow> Outbound \<Rightarrow> nat \<Rightarrow> (probe_error, ProbeOutcome) result" where
  "probe_outbound env outbound timeout =
     rbind (rmap_err ProbeRequest (https_get env outbound TRACE_HOST TRACE_PATH MAX_TRACE_BYTES timeout)) trace_of_body"

text \<open>The diagnostic probe through the SOCKS entry; \<open>reply\<close> is what its HTTP client yields.\<close>

definition socks_probe :: "https_reply option \<Rightarrow> (probe_error, ProbeOutcome) result" where
  "socks_probe reply =
     rbind (ok_or (ProbeRequest HttpsSend) reply) (\<lambda>reply.
       if \<not> is_success (reply_status reply) then Err (ProbeRequest (HttpsStatus (reply_status reply)))
       else rbind (rmap_err ProbeRequest (read_frames MAX_TRACE_BYTES (reply_frames reply) [])) trace_of_body)"

text \<open>A probe that succeeds has read a trace that says the traffic goes through the tunnel.\<close>

lemma probe_outbound_Ok:
  assumes "probe_outbound env outbound timeout = Ok outcome"
  shows "\<exists>body bytes. from_utf8 bytes = Some body \<and> length bytes \<le> MAX_TRACE_BYTES \<and> parse_trace body = Ok outcome"
  using assms https_get_bounded
  by (fastforce simp: probe_outbound_def trace_of_body_def rbind_Inr_iff ok_or_Inr_iff)

end
