(* ===== verification/Psiphon.thy ===== *)
theory Psiphon
  imports Https H3_Stream Addr_Text
begin

text \<open>
  \<^verbatim>\<open>outbound/psiphon/mod.rs\<close> and \<^verbatim>\<open>server_list.rs\<close>: the signed list of servers, the SSH session to
  one of them, and the channels through it.  Decompression, JSON, hashing, signatures and the SSH
  protocol are libraries: they are arguments, and what the code decides from their answers is
  modelled.
\<close>

section \<open>Countries\<close>

definition COUNTRIES :: "string list" where
  "COUNTRIES = [''AT'', ''AU'', ''BE'', ''BG'', ''CA'', ''CH'', ''CZ'', ''DE'', ''DK'', ''EE'', ''ES'', ''FI'', ''FR'',
     ''GB'', ''HR'', ''HU'', ''IE'', ''IN'', ''IT'', ''JP'', ''LV'', ''NL'', ''NO'', ''PL'', ''PT'', ''RO'', ''RS'',
     ''SE'', ''SG'', ''SK'', ''US'']"

definition normalize_country :: "string \<Rightarrow> string option" where
  "normalize_country country =
     (let country = to_ascii_uppercase (trim country)
      in if country \<in> set COUNTRIES then Some country else None)"

section \<open>The server list\<close>

definition MAX_PACKAGE_BYTES :: nat where
  "MAX_PACKAGE_BYTES = 64 * 1024 * 1024"

record ServerEntry =
  ip_address :: string
  ssh_port :: u16
  ssh_username :: string
  ssh_password :: string
  ssh_host_key :: string
  capabilities :: "string list"
  region :: string

record AuthenticatedPackage =
  pkg_data :: string
  pkg_key_digest :: string
  pkg_signature :: string

text \<open>
  \<open>unzip n c\<close>: the first \<open>n\<close> bytes of what \<open>c\<close> decompresses to, \<open>None\<close> if it is damaged before
  them.  \<open>rsa_verify key digest signature\<close> takes the key in DER form (\<open>rsa_key\<close> accepts it).
\<close>

record list_lib =
  unzip :: "nat \<Rightarrow> bytes \<Rightarrow> bytes option"
  package_json :: "bytes \<Rightarrow> AuthenticatedPackage option"
  b64dec :: "string \<Rightarrow> bytes option"
  sha256 :: "bytes \<Rightarrow> bytes"
  rsa_key :: "bytes \<Rightarrow> bool"
  rsa_verify :: "bytes \<Rightarrow> bytes \<Rightarrow> bytes \<Rightarrow> bool"
  hex_decode :: "string \<Rightarrow> bytes option"
  entry_json :: "bytes \<Rightarrow> ServerEntry option"

datatype ListError = BadZip | ListTooLarge | BadPackage | BadDigest | WrongKey | BadKeyText | BadSignatureText
  | NotSigned | ListDownload HttpsError

text \<open>\<^verbatim>\<open>splitn(5, ' ').nth(4)\<close>: what follows the fourth space.\<close>

fun after_spaces :: "nat \<Rightarrow> bytes \<Rightarrow> bytes option" where
  "after_spaces 0 bytes = Some bytes"
| "after_spaces (Suc n) [] = None"
| "after_spaces (Suc n) (b # bytes) = (if b = 0x20 then after_spaces n bytes else after_spaces (Suc n) bytes)"

definition entry_of_line :: "list_lib \<Rightarrow> string \<Rightarrow> string \<Rightarrow> ServerEntry list" where
  "entry_of_line L country line =
     (case hex_decode L line of
        None \<Rightarrow> []
      | Some bytes \<Rightarrow>
          (case after_spaces 4 bytes of
             None \<Rightarrow> []
           | Some json \<Rightarrow>
               (case entry_json L json of
                  None \<Rightarrow> []
                | Some entry \<Rightarrow>
                    if eq_ignore_ascii_case (region entry) country \<and> parse_ip (ip_address entry) \<noteq> None
                    then [entry] else [])))"

definition decode :: "list_lib \<Rightarrow> string \<Rightarrow> bytes \<Rightarrow> string \<Rightarrow> (ListError, ServerEntry list) result" where
  "decode L key_text compressed country =
     rbind (ok_or BadZip (unzip L (MAX_PACKAGE_BYTES + 1) compressed)) (\<lambda>decoded.
     if MAX_PACKAGE_BYTES < length decoded then Err ListTooLarge
     else
       rbind (ok_or BadPackage (package_json L decoded)) (\<lambda>package.
       let signing_key = trim key_text in
       rbind (ok_or BadDigest (b64dec L (pkg_key_digest package))) (\<lambda>digest.
       if digest \<noteq> sha256 L (str_bytes signing_key) then Err WrongKey
       else
         rbind (ok_or BadKeyText (b64dec L signing_key)) (\<lambda>key_der.
         if \<not> rsa_key L key_der then Err BadKeyText
         else
           rbind (ok_or BadSignatureText (b64dec L (pkg_signature package))) (\<lambda>signature.
           if \<not> rsa_verify L key_der (sha256 L (str_bytes (pkg_data package))) signature then Err NotSigned
           else Ok (concat (map (entry_of_line L country)
                  (filter (\<lambda>line. line \<noteq> []) (str_lines (pkg_data package))))))))))"

definition SERVER_LIST_HOST :: string where
  "SERVER_LIST_HOST = ''s3.amazonaws.com''"

definition SERVER_LIST_PATH :: string where
  "SERVER_LIST_PATH = ''/psiphon/web/mjr4-p23r-puwl/server_list_compressed''"

definition list_fetch ::
  "https_env \<Rightarrow> list_lib \<Rightarrow> string \<Rightarrow> Outbound \<Rightarrow> string \<Rightarrow> (ListError, ServerEntry list) result" where
  "list_fetch env L key_text outbound country =
     rbind (rmap_err ListDownload
         (https_get env outbound SERVER_LIST_HOST SERVER_LIST_PATH MAX_PACKAGE_BYTES (30 * 10 ^ 9))) (\<lambda>compressed.
       decode L key_text compressed country)"

definition candidates ::
  "https_env \<Rightarrow> list_lib \<Rightarrow> string \<Rightarrow> Outbound \<Rightarrow> string \<Rightarrow> (ListError, ServerEntry list) result" where
  "candidates env L key_text upstream country =
     rbind (list_fetch env L key_text upstream country) (\<lambda>entries.
       Ok (filter (\<lambda>e. ssh_port e \<noteq> 0 \<and> ''SSH'' \<in> set (capabilities e)) entries))"

lemma entry_of_line_spec:
  "entry \<in> set (entry_of_line L country line) \<Longrightarrow>
     eq_ignore_ascii_case (region entry) country \<and> (\<exists>ip. parse_ip (ip_address entry) = Some ip)
     \<and> (\<exists>bytes json. hex_decode L line = Some bytes \<and> after_spaces 4 bytes = Some json \<and> entry_json L json = Some entry)"
  by (simp add: entry_of_line_def split: option.splits if_splits) metis

lemma decode_Ok:
  assumes "decode L key_text compressed country = Ok entries"
  obtains package :: AuthenticatedPackage and key_der signature where
    "b64dec L (trim key_text) = Some key_der" "b64dec L (pkg_signature package) = Some signature"
    "rsa_verify L key_der (sha256 L (str_bytes (pkg_data package))) signature"
    "entries = concat (map (entry_of_line L country) (filter (\<lambda>line. line \<noteq> []) (str_lines (pkg_data package))))"
proof -
  from assms obtain decoded digest key_der signature and package :: AuthenticatedPackage where
    "ok_or BadZip (unzip L (MAX_PACKAGE_BYTES + 1) compressed) = Ok decoded"
    "ok_or BadPackage (package_json L decoded) = Ok package"
    "ok_or BadDigest (b64dec L (pkg_key_digest package)) = Ok digest"
    and k: "ok_or BadKeyText (b64dec L (trim key_text)) = Ok key_der"
    and s: "ok_or BadSignatureText (b64dec L (pkg_signature package)) = Ok signature"
    and v: "rsa_verify L key_der (sha256 L (str_bytes (pkg_data package))) signature"
    and e: "entries = concat (map (entry_of_line L country) (filter (\<lambda>line. line \<noteq> []) (str_lines (pkg_data package))))"
    unfolding decode_def Let_def by (elim rbind_Inr_iff [THEN iffD1, THEN exE] conjE) (auto simp: rbind_Inr_iff split: if_splits)
  show thesis using that [OF k [unfolded ok_or_Inr_iff] s [unfolded ok_or_Inr_iff] v e] .
qed

section \<open>A session\<close>

text \<open>
  What the SSH library answers while a session is set up.  \<open>auth accepts\<close> is the outcome of the
  password exchange when the callback \<open>accepts\<close> decides on host keys; \<open>None\<close> is a failed request.
\<close>

record ssh_env =
  ssh_open :: "rstream \<Rightarrow> bool"
  ssh_auth :: "(bytes \<Rightarrow> bool) \<Rightarrow> string \<Rightarrow> string \<Rightarrow> bool option"
  ssh_handshake :: "(bytes option) option"
  json_ok :: "bytes \<Rightarrow> bool"
  password_json :: "string \<Rightarrow> string"

datatype EntryError = BadAddress | CarrierFailed IoErr | BadHostKey | SshOpenFailed | AuthFailed | AuthRejected
  | HandshakeLost | HandshakeRejected | BadHandshakeJson

record PsiphonSession =
  psi_country :: string
  psi_open :: bool

definition accepts_key :: "bytes \<Rightarrow> bytes \<Rightarrow> bool" where
  "accepts_key expected key \<longleftrightarrow> key = expected"

definition connect_entry ::
  "ssh_env \<Rightarrow> list_lib \<Rightarrow> Outbound \<Rightarrow> ServerEntry \<Rightarrow> string \<Rightarrow> (EntryError, PsiphonSession) result" where
  "connect_entry env L upstream entry country =
     rbind (ok_or BadAddress (parse_ip (ip_address entry))) (\<lambda>ip.
     rbind (rmap_err CarrierFailed (connect_tcp upstream (Ip ip) (ssh_port entry))) (\<lambda>socket.
     rbind (ok_or BadHostKey (b64dec L (ssh_host_key entry))) (\<lambda>expected.
     if \<not> ssh_open env (conn_stream socket) then Err SshOpenFailed
     else
       rbind (ok_or AuthFailed
           (ssh_auth env (accepts_key expected) (ssh_username entry) (password_json env (ssh_password entry)))) (\<lambda>success.
       if \<not> success then Err AuthRejected
       else
         rbind (ok_or HandshakeLost (ssh_handshake env)) (\<lambda>reply.
         rbind (ok_or HandshakeRejected reply) (\<lambda>body.
         if \<not> json_ok env body then Err BadHandshakeJson
         else Ok \<lparr>psi_country = country, psi_open = True\<rparr>))))))"

section \<open>A channel\<close>

datatype channel_field = FieldStr string | FieldU32 u32

definition channel_payload :: "Host \<Rightarrow> u16 \<Rightarrow> channel_field list" where
  "channel_payload host port =
     [FieldStr (case host of Domain s \<Rightarrow> s | Ip ip \<Rightarrow> show_ip ip), FieldU32 (ucast port), FieldStr ''127.0.0.1'', FieldU32 0]"

text \<open>Events of a channel; a write into the local pipe fails when its reader is gone.\<close>

datatype channel_event = ChannelData bytes | ChannelEof | ChannelOther

text \<open>
  The receiving half of the bridge.  \<open>writes\<close> says how many more writes the local pipe takes
  (\<open>None\<close>: all).  Result: what was written, whether EOF was seen, and how it ended.
\<close>

fun bridge_receive ::
  "nat option \<Rightarrow> channel_event list \<Rightarrow> bytes \<times> bool \<times> (IoErr, unit) result" where
  "bridge_receive writes [] = ([], False, Err UnexpectedEof)"
| "bridge_receive writes (ChannelData data # events) =
     (if writes = Some 0 then ([], False, Err BrokenPipe)
      else let (out, eof, r) = bridge_receive (map_option (\<lambda>n. n - 1) writes) events in (data @ out, eof, r))"
| "bridge_receive writes (ChannelEof # events) = ([], True, Ok ())"
| "bridge_receive writes (ChannelOther # events) = bridge_receive writes events"

text \<open>The sending half: each piece the local side wrote, then EOF; \<open>ok n\<close>: the \<open>n\<close>-th send is taken.\<close>

fun bridge_send :: "(nat \<Rightarrow> bool) \<Rightarrow> nat \<Rightarrow> bytes list \<Rightarrow> bytes list \<times> bool \<times> (IoErr, unit) result" where
  "bridge_send ok n [] = ([], ok n, if ok n then Ok () else Err OtherIo)"
| "bridge_send ok n (piece # pieces) =
     (if piece = [] then ([], ok n, if ok n then Ok () else Err OtherIo)
      else if ok n then (let (sent, eof, r) = bridge_send ok (Suc n) pieces in (piece # sent, eof, r))
      else ([], False, Err OtherIo))"

text \<open>
  \<^verbatim>\<open>try_join\<close> of the halves: both must succeed.  When both fail, timing decides whose error is
  reported; the model takes the sender's.
\<close>

definition bridge_task :: "(IoErr, unit) result \<Rightarrow> (IoErr, unit) result \<Rightarrow> (IoErr, unit) result" where
  "bridge_task send receive = rbind send (\<lambda>_. receive)"

text \<open>
  \<^verbatim>\<open>connect_tcp\<close>: \<open>opened\<close> is the library's answer to the request for a channel.  A request cut off
  by the limit cannot be taken back, so the session is closed.
\<close>

definition psiphon_connect_tcp ::
  "PsiphonSession \<Rightarrow> (channel_field list \<Rightarrow> rstream future) \<Rightarrow> Host \<Rightarrow> u16 \<Rightarrow> PsiphonSession \<times> nat \<times> (IoErr, Connected) result" where
  "psiphon_connect_tcp session open_channel host port =
     (case open_channel (channel_payload host port) of
        Some (d, r) \<Rightarrow>
          if d \<le> 30 * 10 ^ 9 then
            (session, d, rbind (rmap_err (\<lambda>_. OtherIo) r) (\<lambda>stream.
               Ok \<lparr>conn_stream = stream, conn_note = Some (''country='' @ psi_country session)\<rparr>))
          else (session\<lparr>psi_open := False\<rparr>, 30 * 10 ^ 9, Err TimedOut)
      | None \<Rightarrow> (session\<lparr>psi_open := False\<rparr>, 30 * 10 ^ 9, Err TimedOut))"

lemma psiphon_connect_time:
  assumes "psiphon_connect_tcp session open_channel host port = (session', t, r)"
  shows "t \<le> 30 * 10 ^ 9 \<and> (psi_open session \<and> r \<noteq> Err TimedOut \<longrightarrow> psi_open session')
    \<and> (\<not> within (30 * 10 ^ 9) (open_channel (channel_payload host port)) \<longrightarrow> r = Err TimedOut \<and> \<not> psi_open session')"
  using assms by (auto simp: psiphon_connect_tcp_def split: option.splits if_splits)

record psiphon_stream =
  bridge :: "(IoErr, unit) result poll option"
  received_eof :: bool

definition psiphon_poll_read :: "psiphon_stream \<Rightarrow> nat \<Rightarrow> inner_read \<Rightarrow> psiphon_stream \<times> (IoErr, bytes) result poll" where
  "psiphon_poll_read st remaining io =
     (case io of
        InnerPending \<Rightarrow> (st, Pending)
      | InnerErr e \<Rightarrow> (st, Ready (Err e))
      | InnerRead filled \<Rightarrow>
          if remaining \<noteq> 0 \<and> filled = [] then
            if received_eof st then (st, Ready (Ok []))
            else
              (case bridge st of
                 None \<Rightarrow> (st, Ready (Ok []))
               | Some Pending \<Rightarrow> (st, Pending)
               | Some (Ready r) \<Rightarrow> (st\<lparr>bridge := None\<rparr>, Ready (rbind r (\<lambda>_. Ok []))))
          else (st, Ready (Ok filled)))"

fun event_data :: "channel_event \<Rightarrow> bytes" where
  "event_data (ChannelData data) = data"
| "event_data _ = []"

text \<open>Everything before the EOF reaches the reader; without one the bridge fails.\<close>

lemma bridge_receive_all:
  "bridge_receive None events =
     (concat (map event_data (takeWhile (\<lambda>e. e \<noteq> ChannelEof) events)), ChannelEof \<in> set events,
      if ChannelEof \<in> set events then Ok () else Err UnexpectedEof)"
proof (induction events)
  case (Cons e events)
  then show ?case by (cases e) auto
qed simp

text \<open>
  The reader is told of the end only after the channel's own EOF, or after the bridge's result has
  been handed over: a session that breaks is not taken for a stream that is complete.
\<close>

lemma psiphon_clean_end:
  assumes "bridge_receive None events = (out, eof, r)"
    and "psiphon_poll_read \<lparr>bridge = Some task, received_eof = seen\<rparr> remaining io = (st', Ready (Ok []))"
    and "remaining \<noteq> 0" "seen \<longrightarrow> eof" "task = Pending \<or> task = Ready (bridge_task send r)"
  shows "ChannelEof \<in> set events \<and> out = concat (map event_data (takeWhile (\<lambda>e. e \<noteq> ChannelEof) events))"
  using assms unfolding bridge_receive_all
  by (auto simp: psiphon_poll_read_def bridge_task_def rbind_Inr_iff split: inner_read.splits if_splits)

section \<open>Properties\<close>

text \<open>
  C27: no server that the list's signer did not name is ever contacted.  Every candidate for a session
  comes from a line of a text whose signature verifies under the built-in key, is registered for
  the chosen country, offers SSH on a port, and has an address; and a session with it is given out
  only if the upstream reached that address and the peer passed authentication while presenting
  the host key of that entry.
\<close>

theorem candidates_are_signed:
  assumes "candidates env L key_text upstream country = Ok entries" "entry \<in> set entries"
  shows "\<exists>package key_der signature line bytes json ip.
      b64dec L (trim key_text) = Some key_der \<and> b64dec L (pkg_signature package) = Some signature
    \<and> rsa_verify L key_der (sha256 L (str_bytes (pkg_data (package :: AuthenticatedPackage)))) signature
    \<and> line \<in> set (str_lines (pkg_data package)) \<and> hex_decode L line = Some bytes
    \<and> after_spaces 4 bytes = Some json \<and> entry_json L json = Some entry
    \<and> eq_ignore_ascii_case (region entry) country \<and> ssh_port entry \<noteq> 0 \<and> ''SSH'' \<in> set (capabilities entry)
    \<and> parse_ip (ip_address entry) = Some ip
    \<and> (\<forall>ssh session. connect_entry ssh L upstream entry country = Ok session \<longrightarrow>
         is_ok (connect_tcp upstream (Ip ip) (ssh_port entry))
         \<and> (\<exists>expected. b64dec L (ssh_host_key entry) = Some expected
              \<and> ssh_auth ssh (\<lambda>key. key = expected) (ssh_username entry) (password_json ssh (ssh_password entry)) = Some True))"
proof -
  obtain all compressed where "decode L key_text compressed country = Ok all" "entry \<in> set all"
    "ssh_port entry \<noteq> 0" "''SSH'' \<in> set (capabilities entry)"
    using assms by (auto simp: candidates_def list_fetch_def rbind_Inr_iff)
  moreover from this(1) obtain package :: AuthenticatedPackage and key_der signature where
    "b64dec L (trim key_text) = Some key_der" "b64dec L (pkg_signature package) = Some signature"
    "rsa_verify L key_der (sha256 L (str_bytes (pkg_data package))) signature"
    "all = concat (map (entry_of_line L country) (filter (\<lambda>line. line \<noteq> []) (str_lines (pkg_data package))))"
    by (rule decode_Ok)
  moreover from calculation obtain line where line: "line \<in> set (str_lines (pkg_data package))"
    "entry \<in> set (entry_of_line L country line)" by auto
  moreover note entry_of_line_spec [OF line(2)]
  moreover have "is_ok (connect_tcp upstream (Ip ip) (ssh_port entry))
      \<and> (\<exists>expected. b64dec L (ssh_host_key entry) = Some expected
         \<and> ssh_auth ssh (\<lambda>key. key = expected) (ssh_username entry) (password_json ssh (ssh_password entry)) = Some True)"
    if "connect_entry ssh L upstream entry country = Ok session" "parse_ip (ip_address entry) = Some ip"
    for ssh :: ssh_env and session ip
    using that by (auto simp: connect_entry_def rbind_Inr_iff ok_or_Inr_iff accepts_key_def [abs_def] is_ok_iff split: if_splits)
  ultimately show ?thesis by (elim exE conjE) (intro exI conjI; (assumption | blast)?)
qed

definition demo_entry :: ServerEntry where
  "demo_entry = \<lparr>ip_address = show_ip (V4 9 9 9 9), ssh_port = 22, ssh_username = ''u'', ssh_password = ''p'',
     ssh_host_key = ''k'', capabilities = [''SSH''], region = ''jp''\<rparr>"

definition demo_list :: list_lib where
  "demo_list = \<lparr>unzip = (\<lambda>n c. Some (take n c)),
     package_json = (\<lambda>_. Some \<lparr>pkg_data = ''a'', pkg_key_digest = [], pkg_signature = ''s''\<rparr>),
     b64dec = (\<lambda>s. Some (str_bytes s)), sha256 = (\<lambda>_. []), rsa_key = (\<lambda>_. True),
     rsa_verify = (\<lambda>_ _ signature. signature = str_bytes ''s''), hex_decode = (\<lambda>_. Some [0x20, 0x20, 0x20, 0x20, 1]),
     entry_json = (\<lambda>json. if json = [1] then Some demo_entry else None)\<rparr>"

definition demo_https :: https_env where
  "demo_https = \<lparr>https_tls = (\<lambda>_ s. Some s), https_send = (\<lambda>_ _ _. Some \<lparr>reply_status = 200, reply_length = None,
     reply_frames = [DataFrame [1]]\<rparr>), https_took = 5\<rparr>"

definition demo_upstream :: Outbound where
  "demo_upstream = \<lparr>out_name = ''WireGuard'', supports_udp = True,
     connect_tcp = (\<lambda>_ _. Ok \<lparr>conn_stream = \<lparr>chunks = [], tail_err = None\<rparr>, conn_note = None\<rparr>)\<rparr>"

lemma demo_candidates: "candidates demo_https demo_list ''k'' demo_upstream ''JP'' = Ok [demo_entry]"
proof -
  have "https_get demo_https demo_upstream SERVER_LIST_HOST SERVER_LIST_PATH MAX_PACKAGE_BYTES (30 * 10 ^ 9) = Ok [1]"
    by (simp add: https_get_def get_inner_def demo_https_def demo_upstream_def is_success_def announced_too_large_def
        MAX_PACKAGE_BYTES_def)
  moreover have "entry_of_line demo_list ''JP'' ''a'' = [demo_entry]"
  proof -
    have "after_spaces 4 [0x20, 0x20, 0x20, 0x20, 1] = Some [1]" by (simp add: numeral_eq_Suc)
    moreover have "eq_ignore_ascii_case ''jp'' ''JP''" by code_simp
    ultimately show ?thesis by (simp add: entry_of_line_def demo_list_def demo_entry_def del: show_ip.simps)
  qed
  moreover have "str_lines ''a'' = [''a'']"
    by (simp add: str_lines_def strip_cr_def)
  ultimately show ?thesis
    by (simp add: candidates_def list_fetch_def decode_def demo_list_def MAX_PACKAGE_BYTES_def demo_entry_def
        str_bytes_def del: show_ip.simps)
qed

theorem candidates_are_signed_witness:
  "\<exists>package key_der signature. candidates demo_https demo_list ''k'' demo_upstream ''JP'' = Ok [demo_entry]
    \<and> rsa_verify demo_list key_der (sha256 demo_list (str_bytes (pkg_data (package :: AuthenticatedPackage)))) signature"
proof -
  have "demo_entry \<in> set [demo_entry]" by simp
  from candidates_are_signed [OF demo_candidates this] demo_candidates show ?thesis by blast
qed

end
