(* ===== verification/Http_Proxy.thy ===== *)
theory Http_Proxy
  imports Relay
begin

text \<open>
  \<^verbatim>\<open>http_proxy.rs\<close>: what the forward proxy does with one parsed request.  Parsing and the HTTP
  connections on both sides are the library's; a header map is the list of its fields, names in
  lower case as the library keeps them; only the order of fields with one name means anything.
  \<open>to_str\<close> is the library's test for a printable value; \<open>parse_authority\<close>, \<open>header_value\<close> and
  \<open>parse_uri\<close> are its parsers.
\<close>

section \<open>Messages\<close>

type_synonym headers = "(string \<times> bytes) list"

definition h_get :: "headers \<Rightarrow> string \<Rightarrow> bytes option" where
  "h_get hs name = map_option snd (find (\<lambda>h. fst h = name) hs)"

definition h_get_all :: "headers \<Rightarrow> string \<Rightarrow> bytes list" where
  "h_get_all hs name = map snd (filter (\<lambda>h. fst h = name) hs)"

definition h_remove :: "headers \<Rightarrow> string \<Rightarrow> headers" where
  "h_remove hs name = filter (\<lambda>h. fst h \<noteq> to_ascii_lowercase name) hs"

definition h_insert :: "headers \<Rightarrow> string \<Rightarrow> bytes \<Rightarrow> headers" where
  "h_insert hs name value = filter (\<lambda>h. fst h \<noteq> name) hs @ [(name, value)]"

record authority =
  auth_text :: string
  auth_host :: string
  auth_port :: "u16 option"

record request =
  req_method :: string
  uri_scheme :: "string option"
  uri_authority :: "authority option"
  uri_path :: "string option"
  req_headers :: headers

record response =
  status :: u16
  resp_headers :: headers
  resp_body :: bytes

record http_lib =
  to_str :: "bytes \<Rightarrow> string option"
  parse_authority :: "string \<Rightarrow> authority option"
  header_value :: "string \<Rightarrow> bytes option"
  parse_uri :: "string \<Rightarrow> (string option \<times> authority option \<times> string option) option"

section \<open>The target of a request\<close>

definition trim_start_matches :: "char \<Rightarrow> string \<Rightarrow> string" where
  "trim_start_matches c s = dropWhile (\<lambda>d. d = c) s"

definition trim_end_matches :: "char \<Rightarrow> string \<Rightarrow> string" where
  "trim_end_matches c s = rev (dropWhile (\<lambda>d. d = c) (rev s))"

datatype TargetError = NotHttp | NoHost | BadHostHeader | BadTargetHost | BadTargetPort

definition request_authority :: "http_lib \<Rightarrow> request \<Rightarrow> (TargetError, authority) result" where
  "request_authority L req =
     (case uri_authority req of
        Some a \<Rightarrow> Ok a
      | None \<Rightarrow>
          rbind (ok_or NoHost (h_get (req_headers req) ''host'')) (\<lambda>value.
          rbind (ok_or BadHostHeader (to_str L value)) (\<lambda>text.
          ok_or BadHostHeader (parse_authority L text))))"

definition target :: "http_lib \<Rightarrow> request \<Rightarrow> (TargetError, Host \<times> u16 \<times> string) result" where
  "target L req =
     (if req_method req \<noteq> ''CONNECT'' \<and> uri_scheme req \<noteq> None \<and> uri_scheme req \<noteq> Some ''http'' then Err NotHttp
      else
        rbind (request_authority L req) (\<lambda>a.
        let host = trim_end_matches (CHR '']'') (trim_start_matches (CHR ''['') (auth_host a)) in
        if host = [] \<or> CHR ''@'' \<in> set (auth_text a) then Err BadTargetHost
        else
          rbind (if req_method req = ''CONNECT'' then ok_or BadTargetPort (auth_port a)
                 else if auth_text a = auth_host a then Ok 80
                 else ok_or BadTargetPort (auth_port a)) (\<lambda>port.
          if port = 0 then Err BadTargetPort
          else Ok (parse_host host, port, auth_text a))))"

section \<open>Fields of one hop\<close>

definition HOP_HEADERS :: "string list" where
  "HOP_HEADERS = [''connection'', ''proxy-connection'', ''keep-alive'', ''proxy-authenticate'', ''proxy-authorization'',
     ''te'', ''trailer'', ''transfer-encoding'', ''upgrade'']"

definition connection_names :: "http_lib \<Rightarrow> headers \<Rightarrow> string list" where
  "connection_names L hs =
     map trim (concat (map (split_on (CHR '',''))
       (concat (map (\<lambda>v. case to_str L v of Some s \<Rightarrow> [s] | None \<Rightarrow> []) (h_get_all hs ''connection'')))))"

definition strip_hop_headers :: "http_lib \<Rightarrow> headers \<Rightarrow> bytes option \<Rightarrow> headers" where
  "strip_hop_headers L hs upgrade =
     (let hs = foldl h_remove hs (connection_names L hs);
          hs = foldl h_remove hs HOP_HEADERS
      in case upgrade of
           None \<Rightarrow> hs
         | Some value \<Rightarrow> h_insert (h_insert hs ''upgrade'' value) ''connection'' (str_bytes ''upgrade''))"

section \<open>Forwarding\<close>

definition error_response :: "u16 \<Rightarrow> response" where
  "error_response code = \<lparr>status = code, resp_headers = [], resp_body = str_bytes ''Proxy request failed'' @ [10]\<rparr>"

text \<open>
  A tunnel waits in a channel for one item until the HTTP connection is over.  \<open>exchange\<close> stands
  for the exchange with the target over a fresh connection: its response and, for a switch of
  protocols, the stream that follows (\<open>None\<close>: the exchange failed).  The request that went out is
  kept beside the result.
\<close>

record tunnel =
  tunnel_authority :: string
  tunnel_conn :: Connected

datatype ForwardError = ConnectFailed IoErr | SlotTaken | BadHeaderValue | BadUri | ExchangeFailed | UnrequestedUpgrade

type_synonym target_exchange = "Connected \<Rightarrow> request \<Rightarrow> (response \<times> rstream) option"
type_synonym forwarded = "request option \<times> (ForwardError, response \<times> tunnel option) result"

definition outgoing_request :: "http_lib \<Rightarrow> request \<Rightarrow> string \<Rightarrow> (ForwardError, request) result" where
  "outgoing_request L req text =
     (let hs = strip_hop_headers L (req_headers req) (h_get (req_headers req) ''upgrade'') in
      rbind (ok_or BadHeaderValue (header_value L text)) (\<lambda>host.
      rbind (ok_or BadUri (parse_uri L (case uri_path req of None \<Rightarrow> ''/'' | Some p \<Rightarrow> p))) (\<lambda>(s, a, p).
      Ok (req\<lparr>uri_scheme := s, uri_authority := a, uri_path := p,
              req_headers := h_insert hs ''host'' host\<rparr>))))"

definition answer :: "http_lib \<Rightarrow> bool \<Rightarrow> request \<Rightarrow> string \<Rightarrow> Connected \<Rightarrow> response \<times> rstream
    \<Rightarrow> (ForwardError, response \<times> tunnel option) result" where
  "answer L slot_free req text connected = (\<lambda>(resp, remote).
     if status resp = 101 then
       if h_get (req_headers req) ''upgrade'' = None then Err UnrequestedUpgrade
       else if \<not> slot_free then Err SlotTaken
       else Ok (resp\<lparr>resp_headers := strip_hop_headers L (resp_headers resp) (h_get (resp_headers resp) ''upgrade''),
                     resp_body := []\<rparr>,
                Some \<lparr>tunnel_authority = text, tunnel_conn = \<lparr>conn_stream = remote, conn_note = conn_note connected\<rparr>\<rparr>)
     else Ok (resp\<lparr>resp_headers := strip_hop_headers L (resp_headers resp) None\<rparr>, None))"

definition forward :: "http_lib \<Rightarrow> Outbound \<Rightarrow> target_exchange \<Rightarrow> bool \<Rightarrow> request \<Rightarrow> forwarded" where
  "forward L outbound exch slot_free req =
     (case target L req of
        Inl _ \<Rightarrow> (None, Ok (error_response 400, None))
      | Inr (host, port, text) \<Rightarrow>
          (case connect_tcp outbound host port of
             Inl e \<Rightarrow> (None, Err (ConnectFailed e))
           | Inr connected \<Rightarrow>
               if req_method req = ''CONNECT'' then
                 (None, if slot_free
                        then Ok (\<lparr>status = 200, resp_headers = [], resp_body = []\<rparr>,
                                 Some \<lparr>tunnel_authority = text, tunnel_conn = connected\<rparr>)
                        else Err SlotTaken)
               else
                 (case outgoing_request L req text of
                    Inl e \<Rightarrow> (None, Err e)
                  | Inr out \<Rightarrow>
                      (Some out,
                       case exch connected out of
                         None \<Rightarrow> Err ExchangeFailed
                       | Some answered \<Rightarrow> answer L slot_free req text connected answered))))"

text \<open>
  The connection with a client: the library hands over its requests in order and reports at the
  end whether the connection ended well; the tunnel, if there is one, runs only then.
\<close>

definition serve_request ::
  "http_lib \<Rightarrow> Outbound \<Rightarrow> target_exchange \<Rightarrow> tunnel option \<Rightarrow> request \<Rightarrow> response \<times> tunnel option" where
  "serve_request L outbound exch slot req =
     (case snd (forward L outbound exch (slot = None) req) of
        Inl _ \<Rightarrow> (error_response 502, slot)
      | Inr (resp, t) \<Rightarrow> (resp, if t = None then slot else t))"

fun serve_requests ::
  "http_lib \<Rightarrow> Outbound \<Rightarrow> target_exchange \<Rightarrow> tunnel option \<Rightarrow> request list \<Rightarrow> response list \<times> tunnel option" where
  "serve_requests L outbound exch slot [] = ([], slot)"
| "serve_requests L outbound exch slot (req # reqs) =
     (let (resp, slot) = serve_request L outbound exch slot req;
          (resps, slot) = serve_requests L outbound exch slot reqs
      in (resp # resps, slot))"

definition http_handle_client ::
  "http_lib \<Rightarrow> Outbound \<Rightarrow> target_exchange \<Rightarrow> request list \<Rightarrow> (IoErr, unit) result
     \<Rightarrow> response list \<times> (IoErr, tunnel option) result" where
  "http_handle_client L outbound exch reqs ended =
     (let (resps, slot) = serve_requests L outbound exch None reqs in
      (resps, rbind ended (\<lambda>_. Ok slot)))"

section \<open>What crosses the proxy\<close>

lemma foldl_h_remove:
  "foldl h_remove hs names = filter (\<lambda>h. fst h \<notin> to_ascii_lowercase ` set names) hs"
  by (induction names arbitrary: hs) (auto simp: h_remove_def intro!: filter_cong)

text \<open>
  What belongs to one hop, from the standard and not from the code: the hop-by-hop fields of HTTP/1
  with those for the proxy itself, and every field a Connection field nominates.
\<close>

definition hop_by_hop :: "string set" where
  "hop_by_hop = {''connection'', ''keep-alive'', ''proxy-authenticate'', ''proxy-authorization'', ''te'', ''trailer'',
     ''transfer-encoding'', ''upgrade''} \<union> {''proxy-connection''}"

definition nominated :: "http_lib \<Rightarrow> headers \<Rightarrow> string set" where
  "nominated L hs =
     {to_ascii_lowercase (trim option) | v text option.
        (''connection'', v) \<in> set hs \<and> to_str L v = Some text \<and> option \<in> set (split_on (CHR '','') text)}"

definition hop_names :: "http_lib \<Rightarrow> headers \<Rightarrow> string set" where
  "hop_names L hs = hop_by_hop \<union> nominated L hs"

lemma set_connection_names: "to_ascii_lowercase ` set (connection_names L hs) = nominated L hs"
  by (force simp: connection_names_def nominated_def h_get_all_def image_iff split: option.splits)

lemma set_HOP_HEADERS: "set HOP_HEADERS = hop_by_hop"
  by (auto simp: HOP_HEADERS_def hop_by_hop_def)

lemma hop_lower: "to_ascii_lowercase ` hop_by_hop = hop_by_hop"
  unfolding set_HOP_HEADERS [symmetric] HOP_HEADERS_def by code_simp

lemmas hop_sets = set_connection_names hop_lower set_HOP_HEADERS

lemma strip_hop_headers_None:
  "strip_hop_headers L hs None = filter (\<lambda>h. fst h \<notin> hop_names L hs) hs"
  by (auto simp: strip_hop_headers_def foldl_h_remove hop_names_def hop_sets intro!: filter_cong)

lemma strip_hop_headers_Some:
  "strip_hop_headers L hs (Some v) =
     filter (\<lambda>h. fst h \<notin> hop_names L hs) hs @ [(''upgrade'', v), (''connection'', str_bytes ''upgrade'')]"
proof -
  have hop: "''upgrade'' \<in> hop_names L hs" "''connection'' \<in> hop_names L hs"
    by (simp_all add: hop_names_def hop_by_hop_def)
  have "strip_hop_headers L hs (Some v) =
      h_insert (h_insert (strip_hop_headers L hs None) ''upgrade'' v) ''connection'' (str_bytes ''upgrade'')"
    by (simp add: strip_hop_headers_def)
  then show ?thesis
    using hop unfolding strip_hop_headers_None
    by (auto simp: h_insert_def intro!: filter_cong)
qed


lemma h_get_all_filter:
  "h_get_all (filter (\<lambda>h. fst h \<notin> N) hs) name = (if name \<in> N then [] else h_get_all hs name)"
  by (auto simp: h_get_all_def filter_empty_conv intro!: arg_cong [where f = "map snd"] filter_cong)

lemma h_get_all_append [simp]: "h_get_all (hs @ hs') name = h_get_all hs name @ h_get_all hs' name"
  by (simp add: h_get_all_def)

lemma h_get_all_Cons [simp]:
  "h_get_all (h # hs) name = (if fst h = name then [snd h] else []) @ h_get_all hs name"
  by (simp add: h_get_all_def)

lemma h_get_all_Nil [simp]: "h_get_all [] name = []"
  by (simp add: h_get_all_def)

lemma h_get_all_insert [simp]:
  "h_get_all (h_insert hs n v) name = (if name = n then [v] else h_get_all hs name)"
  using h_get_all_filter [of "{n}" hs name] by (simp add: h_insert_def)

lemma hop_names_upgrade [simp]: "''upgrade'' \<in> hop_names L hs" "''connection'' \<in> hop_names L hs"
  by (simp_all add: hop_names_def hop_by_hop_def)

definition end_to_end :: "http_lib \<Rightarrow> headers \<Rightarrow> string \<Rightarrow> bytes list" where
  "end_to_end L hs name = (if name \<in> hop_names L hs then [] else h_get_all hs name)"

text \<open>The fields that ask for an upgrade on the next hop: both, or neither.\<close>

definition upgrade_pair :: "bytes option \<Rightarrow> headers \<Rightarrow> bool" where
  "upgrade_pair upgrade hs \<longleftrightarrow>
     (case upgrade of
        None \<Rightarrow> h_get_all hs ''upgrade'' = [] \<and> h_get_all hs ''connection'' = []
      | Some value \<Rightarrow> h_get_all hs ''upgrade'' = [value] \<and> h_get_all hs ''connection'' = [str_bytes ''upgrade''])"

lemma strip_hop_headers_get_all:
  "h_get_all (strip_hop_headers L hs upgrade) name =
     (case upgrade of
        None \<Rightarrow> end_to_end L hs name
      | Some v \<Rightarrow> if name = ''upgrade'' then [v] else if name = ''connection'' then [str_bytes ''upgrade'']
                else end_to_end L hs name)"
  by (cases upgrade)
     (auto simp: strip_hop_headers_None strip_hop_headers_Some h_get_all_filter end_to_end_def)

lemma outgoing_request_fields:
  assumes "outgoing_request L req text = Ok out"
  shows "req_method out = req_method req"
    and "header_value L text = Some v \<Longrightarrow> h_get_all (req_headers out) ''host'' = [v]"
    and "name \<notin> {''host'', ''upgrade'', ''connection''} \<Longrightarrow>
      h_get_all (req_headers out) name = end_to_end L (req_headers req) name"
    and "upgrade_pair (h_get (req_headers req) ''upgrade'') (req_headers out)"
  using assms
  by (auto simp: upgrade_pair_def outgoing_request_def Let_def rbind_def ok_or_def strip_hop_headers_get_all end_to_end_def
      split: option.splits sum.splits)


text \<open>What is left of a response for the client, and when a request ends in a tunnel.\<close>

lemma answer_fields:
  assumes "answer L free req text connected (served, remote) = Ok (resp, t)"
  shows "status resp = status served"
    and "name \<notin> {''upgrade'', ''connection''} \<Longrightarrow>
      h_get_all (resp_headers resp) name = end_to_end L (resp_headers served) name"
    and "t = None \<Longrightarrow> resp_body resp = resp_body served \<and> h_get_all (resp_headers resp) ''upgrade'' = []"
    and "upgrade_pair (if status served = 101 then h_get (resp_headers served) ''upgrade'' else None) (resp_headers resp)"
  using assms
  by (auto simp: upgrade_pair_def answer_def strip_hop_headers_get_all end_to_end_def split: if_splits option.splits)

definition grants_tunnel :: "http_lib \<Rightarrow> Outbound \<Rightarrow> target_exchange \<Rightarrow> request \<Rightarrow> tunnel \<Rightarrow> bool" where
  "grants_tunnel L outbound exch req t \<longleftrightarrow>
     (\<exists>host port connected.
        target L req = Ok (host, port, tunnel_authority t) \<and> connect_tcp outbound host port = Ok connected
        \<and> conn_note (tunnel_conn t) = conn_note connected
        \<and> (if req_method req = ''CONNECT'' then tunnel_conn t = connected
           else h_get (req_headers req) ''upgrade'' \<noteq> None
                \<and> (\<exists>out resp. outgoing_request L req (tunnel_authority t) = Ok out
                     \<and> exch connected out = Some (resp, conn_stream (tunnel_conn t)) \<and> status resp = 101)))"

lemma forward_tunnel:
  assumes "snd (forward L outbound exch free req) = Ok (resp, Some t)"
  shows "free" and "grants_tunnel L outbound exch req t"
proof -
  obtain host port auth connected where c: "target L req = Ok (host, port, auth)"
      "connect_tcp outbound host port = Ok connected"
    using assms by (auto simp: forward_def split: sum.splits prod.splits)
  have "free \<and> grants_tunnel L outbound exch req t"
  proof (cases "req_method req = ''CONNECT''")
    case True
    then show ?thesis using assms c by (auto simp: forward_def grants_tunnel_def split: if_splits)
  next
    case False
    then obtain out served remote where o: "outgoing_request L req auth = Ok out"
        "exch connected out = Some (served, remote)"
        "answer L free req auth connected (served, remote) = Ok (resp, Some t)"
      using assms c by (auto simp: forward_def split: sum.splits option.splits)
    then show ?thesis
      using False c by (auto simp: answer_def grants_tunnel_def split: if_splits)
  qed
  then show "free" "grants_tunnel L outbound exch req t" by simp_all
qed

lemma serve_request_slot:
  assumes "serve_request L outbound exch slot req = (resp, slot')"
  shows "slot' = slot \<or> slot = None \<and> (\<exists>t. slot' = Some t \<and> grants_tunnel L outbound exch req t)"
  using assms forward_tunnel [of L outbound exch "slot = None" req]
  by (auto simp: serve_request_def split: sum.splits if_splits)

lemma serve_requests_taken:
  "snd (serve_requests L outbound exch (Some t) reqs) = Some t"
proof (induction reqs)
  case (Cons req reqs)
  obtain resp slot' where "serve_request L outbound exch (Some t) req = (resp, slot')" by fastforce
  with serve_request_slot [OF this] Cons show ?case by (auto split: prod.splits)
qed simp

definition no_tunnel_answer :: "request \<Rightarrow> response \<Rightarrow> bool" where
  "no_tunnel_answer req resp \<longleftrightarrow>
     status resp \<noteq> 101 \<and> (req_method req = ''CONNECT'' \<longrightarrow> status resp = 400 \<or> status resp = 502)"

lemma serve_request_taken_answer:
  "no_tunnel_answer req (fst (serve_request L outbound exch (Some t) req))"
  by (auto simp: serve_request_def forward_def answer_def error_response_def no_tunnel_answer_def
      split: sum.splits option.splits prod.splits if_splits)

lemma serve_requests_taken_answers:
  "list_all2 no_tunnel_answer reqs (fst (serve_requests L outbound exch (Some t) reqs))"
proof (induction reqs)
  case (Cons req reqs)
  obtain resp slot' where r: "serve_request L outbound exch (Some t) req = (resp, slot')" by fastforce
  then have "slot' = Some t" using serve_request_slot [OF r] by auto
  then show ?case
    using r Cons serve_request_taken_answer [of req L outbound exch t] by (auto split: prod.splits)
qed simp

lemma serve_requests_tunnel:
  assumes "serve_requests L outbound exch None reqs = (resps, Some t)"
  shows "\<exists>before req later. reqs = before @ req # later \<and> grants_tunnel L outbound exch req t
    \<and> snd (serve_requests L outbound exch None before) = None
    \<and> list_all2 no_tunnel_answer later (drop (Suc (length before)) resps)"
  using assms
proof (induction reqs arbitrary: resps)
  case (Cons req reqs)
  obtain resp slot' where r: "serve_request L outbound exch None req = (resp, slot')" by fastforce
  obtain resps' where rs: "serve_requests L outbound exch slot' reqs = (resps', Some t)" "resps = resp # resps'"
    using Cons.prems r by (auto split: prod.splits)
  show ?case
  proof (cases slot')
    case None
    obtain b q l where "reqs = b @ q # l" "grants_tunnel L outbound exch q t"
        "snd (serve_requests L outbound exch None b) = None"
        "list_all2 no_tunnel_answer l (drop (Suc (length b)) resps')"
      using Cons.IH rs None by blast
    then show ?thesis
      using r rs None by (intro exI [of _ "req # b"] exI [of _ q] exI [of _ l]) (auto split: prod.splits)
  next
    case (Some t')
    then have "t' = t" using rs serve_requests_taken [of L outbound exch t' reqs] by simp
    then show ?thesis
      using serve_request_slot [OF r] Some rs serve_requests_taken_answers [of reqs L outbound exch t]
      by (intro exI [of _ "[]"] exI [of _ req] exI [of _ reqs]) auto
  qed
qed simp

lemma serve_requests_length: "serve_requests L outbound exch slot reqs = (resps, slot') \<Longrightarrow> length resps = length reqs"
  by (induction reqs arbitrary: slot resps) (auto split: prod.splits)

section \<open>A target that upgrades\<close>

text \<open>For the instances below: a library for plain texts, an outlet and a target that echoes.\<close>

definition demo_auth :: "string \<Rightarrow> authority" where
  "demo_auth s = \<lparr>auth_text = s, auth_host = takeWhile (\<lambda>c. c \<noteq> CHR '':'') s,
     auth_port = (if CHR '':'' \<in> set s then Some 443 else None)\<rparr>"

definition demo_http :: http_lib where
  "demo_http = \<lparr>to_str = \<lambda>v. Some (map (\<lambda>b. char_of (unat b)) v), parse_authority = \<lambda>s. Some (demo_auth s),
     header_value = \<lambda>s. Some (str_bytes s), parse_uri = \<lambda>s. Some (None, None, Some s)\<rparr>"

definition demo_outlet :: Outbound where
  "demo_outlet = \<lparr>out_name = ''demo'', supports_udp = False,
     connect_tcp = \<lambda>_ _. Ok \<lparr>conn_stream = \<lparr>chunks = [], tail_err = None\<rparr>, conn_note = None\<rparr>\<rparr>"

definition demo_exchange :: target_exchange where
  "demo_exchange = (\<lambda>_ req. Some (\<lparr>status = 204, resp_headers = req_headers req, resp_body = []\<rparr>, \<lparr>chunks = [], tail_err = None\<rparr>))"

definition demo_get :: request where
  "demo_get = \<lparr>req_method = ''GET'', uri_scheme = Some ''http'', uri_authority = Some (demo_auth ''a.b''),
     uri_path = Some ''/x'', req_headers = [(''connection'', str_bytes ''close, X-Hop''), (''x-hop'', [1]),
       (''accept'', [2]), (''proxy-authorization'', [3]), (''accept'', [4])]\<rparr>"

definition demo_connect :: request where
  "demo_connect = \<lparr>req_method = ''CONNECT'', uri_scheme = None, uri_authority = Some (demo_auth ''a.b:443''),
     uri_path = None, req_headers = []\<rparr>"

section \<open>Properties\<close>

text \<open>
  C28: a request that reaches its target carries the method of the client's, exactly one Host field
  naming the target that was connected, and otherwise every field of the client's request with
  all its values, except those of this hop: the hop-by-hop fields of HTTP/1, credentials for the
  proxy, and every field nominated by a Connection field.  Upgrade and Connection cross as a pair of
  single fields (the latter saying \<^verbatim>\<open>upgrade\<close>) when an upgrade was asked for and not at all
  otherwise.  What comes back has the target's status and its fields less those of the target's hop,
  with the same pair only in a 101 that names a protocol.
\<close>

theorem forwarded_fields:
  assumes "forward L outbound exch free req = (Some out, res)"
  shows "\<exists>host port auth v connected. target L req = Ok (host, port, auth) \<and> header_value L auth = Some v
    \<and> connect_tcp outbound host port = Ok connected \<and> req_method req \<noteq> ''CONNECT'' \<and> req_method out = req_method req
    \<and> h_get_all (req_headers out) ''host'' = [v]
    \<and> upgrade_pair (h_get (req_headers req) ''upgrade'') (req_headers out)
    \<and> (\<forall>name. name \<notin> {''host'', ''upgrade'', ''connection''} \<longrightarrow>
          h_get_all (req_headers out) name = end_to_end L (req_headers req) name)
    \<and> (\<forall>resp t. res = Ok (resp, t) \<longrightarrow> (\<exists>served remote. exch connected out = Some (served, remote)
          \<and> status resp = status served
          \<and> upgrade_pair (if status served = 101 then h_get (resp_headers served) ''upgrade'' else None) (resp_headers resp)
          \<and> (\<forall>name. name \<notin> {''upgrade'', ''connection''} \<longrightarrow>
                h_get_all (resp_headers resp) name = end_to_end L (resp_headers served) name)))"
proof -
  obtain host port auth connected where c: "target L req = Ok (host, port, auth)"
      "connect_tcp outbound host port = Ok connected" "req_method req \<noteq> ''CONNECT''"
      "outgoing_request L req auth = Ok out"
      "res = (case exch connected out of None \<Rightarrow> Err ExchangeFailed
         | Some answered \<Rightarrow> answer L free req auth connected answered)"
    using assms by (auto simp: forward_def split: sum.splits prod.splits if_splits)
  obtain v where v: "header_value L auth = Some v"
    using c by (auto simp: outgoing_request_def Let_def rbind_Inr_iff ok_or_def split: option.splits)
  note f = outgoing_request_fields [OF c(4)]
  have served: "\<exists>served remote. exch connected out = Some (served, remote)
      \<and> answer L free req auth connected (served, remote) = Ok (resp, t)" if "res = Ok (resp, t)" for resp t
    using c(5) that by (cases "exch connected out") auto
  show ?thesis
  proof (intro exI [of _ host] exI [of _ port] exI [of _ auth] exI [of _ v] exI [of _ connected] conjI c(1-3) v f(1)
      f(2) [OF v] f(4) allI impI f(3))
    fix resp t
    assume "res = Ok (resp, t)"
    then obtain served remote where a: "exch connected out = Some (served, remote)"
        "answer L free req auth connected (served, remote) = Ok (resp, t)"
      using served by blast
    show "\<exists>served remote. exch connected out = Some (served, remote) \<and> status resp = status served
        \<and> upgrade_pair (if status served = 101 then h_get (resp_headers served) ''upgrade'' else None) (resp_headers resp)
        \<and> (\<forall>name. name \<notin> {''upgrade'', ''connection''} \<longrightarrow>
              h_get_all (resp_headers resp) name = end_to_end L (resp_headers served) name)"
      using a(1) answer_fields [OF a(2)] by auto
  qed
qed

theorem forwarded_fields_witness:
  "\<exists>out. fst (forward demo_http demo_outlet demo_exchange True demo_get) = Some out
     \<and> h_get_all (req_headers out) ''x-hop'' = [] \<and> h_get_all (req_headers out) ''proxy-authorization'' = []
     \<and> h_get_all (req_headers out) ''accept'' = [[2], [4]] \<and> h_get_all (req_headers out) ''host'' = [str_bytes ''a.b'']"
proof -
  obtain out where out: "fst (forward demo_http demo_outlet demo_exchange True demo_get) = Some out"
    by (simp add: forward_def target_def request_authority_def demo_get_def demo_auth_def trim_end_matches_def
        trim_start_matches_def demo_outlet_def outgoing_request_def demo_http_def ok_or_def Let_def
        split: option.splits)
  have n: "map to_ascii_lowercase (connection_names demo_http (req_headers demo_get)) = [''close'', ''x-hop'']"
    by code_simp
  have e: "end_to_end demo_http (req_headers demo_get) ''x-hop'' = []"
    "end_to_end demo_http (req_headers demo_get) ''proxy-authorization'' = []"
    "end_to_end demo_http (req_headers demo_get) ''accept'' = [[2], [4]]"
    unfolding end_to_end_def hop_names_def set_connection_names [symmetric] set_map [symmetric] n
    by (simp_all add: hop_by_hop_def demo_get_def)
  have t: "target demo_http demo_get = Ok (parse_host ''a.b'', 80, ''a.b'')"
    by (simp add: target_def request_authority_def demo_get_def demo_auth_def trim_end_matches_def
        trim_start_matches_def)
  have h: "header_value demo_http ''a.b'' = Some (str_bytes ''a.b'')" by (simp add: demo_http_def)
  obtain res where "forward demo_http demo_outlet demo_exchange True demo_get = (Some out, res)"
    using out by (metis prod.collapse)
  then obtain v where f: "header_value demo_http ''a.b'' = Some v" "h_get_all (req_headers out) ''host'' = [v]"
      "\<forall>name. name \<notin> {''host'', ''upgrade'', ''connection''} \<longrightarrow>
         h_get_all (req_headers out) name = end_to_end demo_http (req_headers demo_get) name"
    using t by - (drule forwarded_fields, elim exE conjE, rule that, simp, assumption, assumption)
  show ?thesis using out e h f by (intro exI [of _ out]) simp
qed

text \<open>
  C29: every request of a connection is answered.  If a tunnel is left at the end, the connection
  ended well, the tunnel leads to the target of one request that was granted it (by a connection
  for CONNECT, by the target's 101 for an upgrade the client asked for), no earlier request had
  been granted one, and every later one was refused: no 101, and 400 or 502 for CONNECT.
\<close>

theorem one_granted_tunnel:
  assumes "http_handle_client L outbound exch reqs ended = (resps, Ok (Some t))"
  shows "length resps = length reqs \<and> ended = Ok ()
    \<and> (\<exists>before req later. reqs = before @ req # later \<and> grants_tunnel L outbound exch req t
        \<and> snd (serve_requests L outbound exch None before) = None
        \<and> list_all2 no_tunnel_answer later (drop (Suc (length before)) resps))"
proof -
  have s: "serve_requests L outbound exch None reqs = (resps, Some t)" "ended = Ok ()"
    using assms by (auto simp: http_handle_client_def rbind_Inr_iff split: prod.splits)
  show ?thesis using serve_requests_tunnel [OF s(1)] serve_requests_length [OF s(1)] s(2) by blast
qed

theorem one_granted_tunnel_witness:
  "\<exists>resps t. http_handle_client demo_http demo_outlet demo_exchange [demo_connect, demo_connect] (Ok ()) = (resps, Ok (Some t))
     \<and> length resps = 2"
proof -
  let ?c = "http_handle_client demo_http demo_outlet demo_exchange [demo_connect, demo_connect] (Ok ())"
  obtain t where "snd ?c = Ok (Some t)"
    by (simp add: http_handle_client_def serve_request_def forward_def target_def request_authority_def
        demo_connect_def demo_auth_def trim_end_matches_def trim_start_matches_def demo_outlet_def ok_or_def Let_def
        split: option.splits)
  then have "?c = (fst ?c, Ok (Some t))" by (metis prod.collapse)
  with one_granted_tunnel [OF this] show ?thesis by (metis length_Cons list.size(3) numeral_2_eq_2)
qed

end
