(* ===== verification/Mixed.thy ===== *)
theory Mixed
  imports Socks4 Http_Proxy
begin

text \<open>
  \<^verbatim>\<open>mixed.rs\<close>: the listening side.  A client's first byte picks the protocol (\<open>dispatch\<close>, over the
  handlers of the SOCKS and HTTP theories); the accept loops of all listeners share a fixed number
  of permits and one watched outlet (\<open>accept_step\<close>); and one accepted connection waits for an
  outlet, is served by it, and ends when the outlet is replaced (\<open>connection_task\<close>).
\<close>

definition ACCEPT_ERROR_BACKOFF :: nat where "ACCEPT_ERROR_BACKOFF = 10 ^ 9"
definition MAX_CONNECTIONS :: nat where "MAX_CONNECTIONS = 64"
definition RECOVERY_WAIT :: nat where "RECOVERY_WAIT = 5 * 10 ^ 9"
definition HANDSHAKE_TIMEOUT :: nat where "HANDSHAKE_TIMEOUT = 10 * 10 ^ 9"

section \<open>Listeners\<close>

datatype ListenMode = Auto u16 | Explicit "SocketAddr list"

text \<open>
  \<open>bind\<close>: what binding an address gives, with the IPv6-only flag for the sockets the program sets up
  itself.  A listener carries whether it serves only the local network.
\<close>

fun bind_all :: "(SocketAddr \<Rightarrow> bool option \<Rightarrow> (IoErr, 'l) result) \<Rightarrow> (SocketAddr \<times> bool option \<times> bool) list
    \<Rightarrow> (IoErr, (SocketAddr \<times> 'l \<times> bool) list) result" where
  "bind_all bind [] = Ok []"
| "bind_all bind ((addr, only_v6, lan_only) # rest) =
     rbind (bind addr only_v6) (\<lambda>l. rbind (bind_all bind rest) (\<lambda>ls. Ok ((addr, l, lan_only) # ls)))"

fun bind_listeners :: "(SocketAddr \<Rightarrow> bool option \<Rightarrow> (IoErr, 'l) result) \<Rightarrow> ListenMode
    \<Rightarrow> (IoErr, (SocketAddr \<times> 'l \<times> bool) list) result" where
  "bind_listeners bind (Auto port) =
     bind_all bind [(SockAddr (V4 0 0 0 0) port, Some False, True), (SockAddr (V6 0 0 0 0 0 0 0 0) port, Some True, True)]"
| "bind_listeners bind (Explicit addrs) = bind_all bind (map (\<lambda>addr. (addr, None, False)) addrs)"

unbundle bit_operations_syntax

fun is_lan_address :: "IpAddr \<Rightarrow> bool" where
  "is_lan_address (V4 a b c d) =
     (a = 127
      \<or> (a = 10 \<or> a = 172 \<and> 16 \<le> b \<and> b \<le> 31 \<or> a = 192 \<and> b = 168)
      \<or> a = 169 \<and> b = 254)"
| "is_lan_address (V6 a b c d e f g h) =
     ((a = 0 \<and> b = 0 \<and> c = 0 \<and> d = 0 \<and> e = 0 \<and> f = 0 \<and> g = 0 \<and> h = 1)
      \<or> a AND 0xfe00 = 0xfc00
      \<or> a AND 0xffc0 = 0xfe80)"

fun is_connection_error :: "IoErr \<Rightarrow> bool" where
  "is_connection_error ConnectionRefused = True"
| "is_connection_error ConnectionAborted = True"
| "is_connection_error ConnectionReset = True"
| "is_connection_error _ = False"

section \<open>Picking the protocol\<close>

definition Unavailable :: Outbound where
  "Unavailable = \<lparr>out_name = ''recovering'', supports_udp = False, connect_tcp = \<lambda>_ _. Err NotConnected\<rparr>"

text \<open>
  What surrounds one client: when its first byte and its whole handshake are in, what it has been
  sent if the deadline cuts the handshake off, how the HTTP library reads the stream, the target's answers, and the relay address of a UDP association.
\<close>

record client_env =
  first_byte_at :: "unit future"
  handshake_at :: "unit future"
  cut_out :: wsink
  http_lib :: http_lib
  http_requests :: "rstream \<Rightarrow> request list \<times> (IoErr, unit) result"
  http_exchange :: target_exchange
  relay_addr :: SocketAddr
  new_egress :: UdpEgressSet

datatype DispatchError = DetectTimeout | PeekFailed IoErr | HandshakeTimeout | Socks5Failed SocksError
  | Socks4Failed Socks4Error | HttpFailed IoErr

datatype served =
    NoRequest
  | TcpTunnel Connected rstream
  | UdpAssociation assoc
  | HttpServed "response list" "tunnel option"

definition socks5_handle_client ::
  "client_env \<Rightarrow> Outbound \<Rightarrow> rstream \<Rightarrow> wsink \<Rightarrow> wsink \<times> (DispatchError, served) result" where
  "socks5_handle_client env outbound client out =
     (if \<not> within HANDSHAKE_TIMEOUT (handshake_at env) then (cut_out env, Err HandshakeTimeout)
      else
        case read_request client out of
          (out, Inl e) \<Rightarrow> (out, Err (Socks5Failed e))
        | (out, Inr (Connect tgt, client)) \<Rightarrow>
            (case handle_connect out tgt outbound of
               (out, Inl e) \<Rightarrow> (out, Err (Socks5Failed e))
             | (out, Inr conn) \<Rightarrow> (out, Ok (TcpTunnel conn client)))
        | (out, Inr (UdpAssociate, client)) \<Rightarrow>
            (case handle_udp_associate outbound (relay_addr env) (new_egress env) out of
               (out, Inl e) \<Rightarrow> (out, Err (Socks5Failed e))
             | (out, Inr st) \<Rightarrow> (out, Ok (UdpAssociation st))))"

definition socks4_handle_client ::
  "client_env \<Rightarrow> Outbound \<Rightarrow> rstream \<Rightarrow> wsink \<Rightarrow> wsink \<times> (DispatchError, served) result" where
  "socks4_handle_client env outbound client out =
     (if \<not> within HANDSHAKE_TIMEOUT (handshake_at env) then (cut_out env, Err HandshakeTimeout)
      else
        case handle_client4 outbound client out of
          (out, Inl e) \<Rightarrow> (out, Err (Socks4Failed e))
        | (out, Inr (conn, client)) \<Rightarrow> (out, Ok (TcpTunnel conn client)))"

definition http_handle ::
  "client_env \<Rightarrow> Outbound \<Rightarrow> rstream \<Rightarrow> wsink \<Rightarrow> wsink \<times> (DispatchError, served) result" where
  "http_handle env outbound client out =
     (let (reqs, ended) = http_requests env client in
      case http_handle_client (http_lib env) outbound (http_exchange env) reqs ended of
        (resps, Inl e) \<Rightarrow> (out, Err (HttpFailed e))
      | (resps, Inr t) \<Rightarrow> (out, Ok (HttpServed resps t)))"

text \<open>\<^verbatim>\<open>peek\<close> leaves the byte in the stream.\<close>

definition peek_byte :: "rstream \<Rightarrow> (IoErr, bytes) result" where
  "peek_byte client = rbind (sread 1 client) (\<lambda>(d, _). Ok d)"

definition dispatch ::
  "client_env \<Rightarrow> Outbound \<Rightarrow> rstream \<Rightarrow> wsink \<Rightarrow> wsink \<times> (DispatchError, served) result" where
  "dispatch env outbound client out =
     (if \<not> within HANDSHAKE_TIMEOUT (first_byte_at env) then (out, Err DetectTimeout)
      else
        case peek_byte client of
          Inl e \<Rightarrow> (out, Err (PeekFailed e))
        | Inr [] \<Rightarrow> (out, Ok NoRequest)
        | Inr (b # _) \<Rightarrow>
            if b = 0x05 then socks5_handle_client env outbound client out
            else if b = 0x04 then socks4_handle_client env outbound client out
            else http_handle env outbound client out)"


section \<open>The accept loops\<close>

text \<open>
  All listeners at once.  \<open>published\<close> lists the values of the watched outlet so far, the current
  one last; a receiver's version is how many of them it has seen.  A connection that found an
  outlet keeps the version it found it at.  Deadlines and the order of ready tasks are left open
  here: a waiting connection may give up whenever it has looked.
\<close>

datatype 'o phase = Waiting "nat option" | Serving 'o nat | Refusing nat

record 'o conn =
  conn_listener :: nat
  conn_peer :: SocketAddr
  conn_phase :: "'o phase"

record 'o server =
  permits :: nat
  conns :: "(nat \<times> 'o conn) list"
  resting :: "nat set"
  published :: "'o option list"

definition server_start :: "'o option \<Rightarrow> 'o server" where
  "server_start v = \<lparr>permits = MAX_CONNECTIONS, conns = [], resting = {}, published = [v]\<rparr>"

definition enter_phase :: "nat \<Rightarrow> 'o phase \<Rightarrow> 'o server \<Rightarrow> 'o server" where
  "enter_phase c ph s = s\<lparr>conns := map (\<lambda>(d, k). (d, if d = c then k\<lparr>conn_phase := ph\<rparr> else k)) (conns s)\<rparr>"

definition in_phase :: "'o server \<Rightarrow> nat \<Rightarrow> 'o phase \<Rightarrow> bool" where
  "in_phase s c ph \<longleftrightarrow> (\<exists>k. map_of (conns s) c = Some k \<and> conn_phase k = ph)"

definition release :: "nat \<Rightarrow> 'o server \<Rightarrow> 'o server" where
  "release c s = s\<lparr>permits := Suc (permits s), conns := filter (\<lambda>(d, _). d \<noteq> c) (conns s)\<rparr>"

definition accept_client :: "bool list \<Rightarrow> nat \<Rightarrow> nat \<Rightarrow> (IoErr, SocketAddr) result \<Rightarrow> 'o server \<Rightarrow> 'o server" where
  "accept_client lan_only l c accepted s =
     (case accepted of
        Inl e \<Rightarrow> if is_connection_error e then s else s\<lparr>resting := insert l (resting s)\<rparr>
      | Inr peer \<Rightarrow>
          if lan_only ! l \<and> \<not> is_lan_address (sa_ip peer) then s
          else if permits s = 0 then s
          else s\<lparr>permits := permits s - 1,
                 conns := (c, \<lparr>conn_listener = l, conn_peer = peer, conn_phase = Waiting None\<rparr>) # conns s\<rparr>)"

inductive accept_step :: "bool list \<Rightarrow> 'o server \<Rightarrow> 'o server \<Rightarrow> bool" for lan_only where
  accept: "l < length lan_only \<Longrightarrow> l \<notin> resting s \<Longrightarrow> c \<notin> fst ` set (conns s) \<Longrightarrow>
    accept_step lan_only s (accept_client lan_only l c accepted s)"
| rested: "accept_step lan_only s (s\<lparr>resting := resting s - {l}\<rparr>)"
| publish: "accept_step lan_only s (s\<lparr>published := published s @ [v]\<rparr>)"
| found: "in_phase s c (Waiting seen) \<Longrightarrow> last (published s) = Some out \<Longrightarrow>
    accept_step lan_only s (enter_phase c (Serving out (length (published s))) s)"
| looked: "in_phase s c (Waiting seen) \<Longrightarrow> last (published s) = None \<Longrightarrow>
    accept_step lan_only s (enter_phase c (Waiting (Some (length (published s)))) s)"
| gave_up: "in_phase s c (Waiting (Some v)) \<Longrightarrow> accept_step lan_only s (enter_phase c (Refusing v) s)"
| dispatched: "in_phase s c (Serving out v) \<Longrightarrow> accept_step lan_only s (release c s)"
| outdated: "in_phase s c (Serving out v) \<Longrightarrow> v < length (published s) \<Longrightarrow> accept_step lan_only s (release c s)"
| refused: "in_phase s c (Refusing v) \<Longrightarrow> accept_step lan_only s (release c s)"
| renewed: "in_phase s c (Refusing v) \<Longrightarrow> v < length (published s) \<Longrightarrow> accept_step lan_only s (release c s)"

text \<open>No accept loop ends by itself, so what can be returned is only the failure to start.\<close>

definition serve_managed ::
  "(SocketAddr \<Rightarrow> bool option \<Rightarrow> (IoErr, 'l) result) \<Rightarrow> ListenMode \<Rightarrow> 'o option \<Rightarrow> (IoErr, bool list \<times> 'o server) result" where
  "serve_managed bind mode v =
     rbind (bind_listeners bind mode) (\<lambda>ls.
       if ls = [] then Err OtherIo else Ok (map (snd \<circ> snd) ls, server_start v))"

definition serve ::
  "(SocketAddr \<Rightarrow> bool option \<Rightarrow> (IoErr, 'l) result) \<Rightarrow> ListenMode \<Rightarrow> 'o \<Rightarrow> (IoErr, bool list \<times> 'o server) result" where
  "serve bind mode outbound = serve_managed bind mode (Some outbound)"

fun phase_ok :: "'o option list \<Rightarrow> 'o phase \<Rightarrow> bool" where
  "phase_ok vs (Waiting None) = True"
| "phase_ok vs (Waiting (Some v)) = (0 < v \<and> v \<le> length vs \<and> vs ! (v - 1) = None)"
| "phase_ok vs (Serving out v) = (0 < v \<and> v \<le> length vs \<and> vs ! (v - 1) = Some out)"
| "phase_ok vs (Refusing v) = (0 < v \<and> v \<le> length vs \<and> vs ! (v - 1) = None)"

definition conn_ok :: "bool list \<Rightarrow> 'o option list \<Rightarrow> 'o conn \<Rightarrow> bool" where
  "conn_ok lan_only vs k \<longleftrightarrow> conn_listener k < length lan_only
     \<and> (lan_only ! conn_listener k \<longrightarrow> is_lan_address (sa_ip (conn_peer k))) \<and> phase_ok vs (conn_phase k)"

definition server_ok :: "bool list \<Rightarrow> 'o server \<Rightarrow> bool" where
  "server_ok lan_only s \<longleftrightarrow> permits s + length (conns s) = MAX_CONNECTIONS \<and> distinct (map fst (conns s))
     \<and> published s \<noteq> [] \<and> (\<forall>(c, k) \<in> set (conns s). conn_ok lan_only (published s) k)"

lemma phase_ok_append: "phase_ok vs ph \<Longrightarrow> phase_ok (vs @ ws) ph"
  by (induction vs ph rule: phase_ok.induct) (auto simp: nth_append)

lemma in_phase_ok:
  assumes "server_ok lan_only s" "in_phase s c ph"
  shows "phase_ok (published s) ph"
  using assms by (auto simp: server_ok_def in_phase_def conn_ok_def dest!: map_of_SomeD)

lemma enter_phase_ok:
  assumes "server_ok lan_only s" "phase_ok (published s) ph"
  shows "server_ok lan_only (enter_phase c ph s)"
proof -
  have "map fst (conns (enter_phase c ph s)) = map fst (conns s)"
    by (auto simp: enter_phase_def)
  moreover have "conn_ok lan_only (published s) k" if "(d, k) \<in> set (conns (enter_phase c ph s))" for d k
    using that assms by (auto simp: enter_phase_def server_ok_def conn_ok_def split: if_splits)
  moreover have "permits (enter_phase c ph s) = permits s" "published (enter_phase c ph s) = published s"
      "length (conns (enter_phase c ph s)) = length (conns s)"
    by (simp_all add: enter_phase_def)
  ultimately show ?thesis using assms(1) by (auto simp: server_ok_def)
qed

lemma length_filter_key:
  "distinct (map fst xs) \<Longrightarrow> c \<in> fst ` set xs \<Longrightarrow> Suc (length (filter (\<lambda>(d, _). d \<noteq> c) xs)) = length xs"
proof (induction xs)
  case (Cons x xs)
  have "filter (\<lambda>(d, _). d \<noteq> fst x) xs = xs"
    using Cons.prems(1) by (clarsimp simp: filter_id_conv) (metis fst_conv imageI)
  then show ?case using Cons by (cases x) auto
qed simp

lemma release_server_ok:
  assumes "server_ok lan_only s" "in_phase s c ph"
  shows "server_ok lan_only (release c s)"
proof -
  have "c \<in> fst ` set (conns s)" using assms(2) by (force simp: in_phase_def dest: map_of_SomeD)
  then have "Suc (length (filter (\<lambda>(d, _). d \<noteq> c) (conns s))) = length (conns s)"
    using assms(1) by (intro length_filter_key) (auto simp: server_ok_def)
  moreover have "distinct (map fst (filter (\<lambda>(d, _). d \<noteq> c) (conns s)))"
    using assms(1) by (auto simp: server_ok_def distinct_map_filter)
  ultimately show ?thesis using assms(1) by (auto simp: server_ok_def release_def)
qed

lemma accept_client_ok:
  assumes "server_ok lan_only s" "l < length lan_only" "c \<notin> fst ` set (conns s)"
  shows "server_ok lan_only (accept_client lan_only l c accepted s)"
  using assms by (auto simp: accept_client_def server_ok_def conn_ok_def split: sum.splits)

lemma last_phase_ok:
  assumes "server_ok lan_only s" "last (published s) = v"
  shows "phase_ok (published s) (case v of None \<Rightarrow> Waiting (Some (length (published s)))
    | Some out \<Rightarrow> Serving out (length (published s)))"
  using assms by (auto simp: server_ok_def last_conv_nth split: option.splits)

lemma accept_step_ok:
  assumes "accept_step lan_only s t" "server_ok lan_only s"
  shows "server_ok lan_only t"
  using assms(1)
proof cases
  case (accept l c accepted)
  then show ?thesis using assms(2) by (simp add: accept_client_ok)
next
  case (rested l)
  then show ?thesis using assms(2) by (simp add: server_ok_def)
next
  case (publish v)
  then show ?thesis using assms(2) by (auto simp: server_ok_def conn_ok_def phase_ok_append)
next
  case (found c seen out)
  then show ?thesis using last_phase_ok [OF assms(2)] by (auto intro!: enter_phase_ok [OF assms(2)])
next
  case (looked c seen)
  then show ?thesis using last_phase_ok [OF assms(2)] by (auto intro!: enter_phase_ok [OF assms(2)])
next
  case (gave_up c v)
  then show ?thesis using in_phase_ok [OF assms(2)] by (fastforce intro!: enter_phase_ok [OF assms(2)])
qed (auto intro: release_server_ok [OF assms(2)])

lemma server_start_ok: "server_ok lan_only (server_start v)"
  by (simp add: server_ok_def server_start_def)

lemma bind_all_flags: "bind_all bind reqs = Ok ls \<Longrightarrow> map (snd \<circ> snd) ls = map (snd \<circ> snd) reqs"
  by (induction bind reqs arbitrary: ls rule: bind_all.induct) (auto simp: rbind_Inr_iff)

lemma serve_managed_auto:
  "serve_managed bind (Auto port) v = Ok (lan_only, s) \<Longrightarrow> lan_only = [True, True] \<and> s = server_start v"
  by (auto simp: serve_managed_def rbind_Inr_iff dest!: bind_all_flags split: if_splits)

lemma serve_managed_start: "serve_managed bind mode v = Ok (lan_only, s) \<Longrightarrow> s = server_start v"
  by (auto simp: serve_managed_def rbind_Inr_iff split: if_splits)

lemma accept_steps_ok:
  "(accept_step lan_only)\<^sup>*\<^sup>* (server_start v) s \<Longrightarrow> server_ok lan_only s"
  by (induction rule: rtranclp_induct) (auto simp: server_start_ok intro: accept_step_ok)


section \<open>One connection\<close>

text \<open>
  The task of an accepted connection on a time line, scheduled whenever it can run.  \<open>h\<close> is the
  history of the watched value with the time of each publication, \<open>gone\<close> the time its sender is
  dropped, and \<open>run\<close> how long \<^verbatim>\<open>dispatch\<close> takes with the outlet (\<open>None\<close>: the one that is
  unavailable).  The result is the time the task stops waiting, what it was given and the time it
  ends.
\<close>

type_synonym 'o history = "(nat \<times> 'o option) list"

definition value_at :: "'o history \<Rightarrow> nat \<Rightarrow> 'o option" where
  "value_at h t = (case filter (\<lambda>p. fst p \<le> t) h of [] \<Rightarrow> None | ps \<Rightarrow> snd (last ps))"

definition change_after :: "'o history \<Rightarrow> nat \<Rightarrow> nat option" where
  "change_after h t = map_option fst (find (\<lambda>p. t < fst p) h)"

definition earliest :: "nat option list \<Rightarrow> nat option" where
  "earliest ts = (case List.map_filter id ts of [] \<Rightarrow> None | us \<Rightarrow> Some (Min (set us)))"

definition wait_outlet :: "'o history \<Rightarrow> nat option \<Rightarrow> nat \<Rightarrow> nat + nat \<times> 'o" where
  "wait_outlet h gone t0 =
     (let limit = (case gone of None \<Rightarrow> t0 + RECOVERY_WAIT | Some g \<Rightarrow> min (t0 + RECOVERY_WAIT) (max t0 g)) in
      case value_at h t0 of
        Some out \<Rightarrow> Inr (t0, out)
      | None \<Rightarrow>
          (case find (\<lambda>p. t0 < fst p \<and> snd p \<noteq> None) h of
             Some (t, Some out) \<Rightarrow> if t \<le> limit then Inr (t, out) else Inl limit
           | _ \<Rightarrow> Inl limit))"

definition connection_task ::
  "'o history \<Rightarrow> nat option \<Rightarrow> ('o option \<Rightarrow> nat option) \<Rightarrow> nat \<Rightarrow> nat \<times> 'o option \<times> nat option" where
  "connection_task h gone run t0 =
     (case wait_outlet h gone t0 of
        Inr (t, out) \<Rightarrow>
          (t, Some out, earliest [map_option ((+) t) (run (Some out)), change_after h t, map_option (max t) gone])
      | Inl t \<Rightarrow>
          (t, None, earliest [map_option ((+) t) (run None), Some (t + HANDSHAKE_TIMEOUT), change_after h t,
             map_option (max t) gone]))"

lemma earliest_le: "Some t \<in> set ts \<Longrightarrow> \<exists>u. earliest ts = Some u \<and> u \<le> t"
proof -
  assume "Some t \<in> set ts"
  then have m: "t \<in> set (List.map_filter id ts)" by (force simp: map_filter_def)
  then show ?thesis
    by (cases "List.map_filter id ts") (auto simp: earliest_def intro!: Min_le simp del: Min_insert)
qed

text \<open>Times in a history increase; the value at a time is the latest publication's.\<close>

definition increasing :: "'o history \<Rightarrow> bool" where
  "increasing h \<longleftrightarrow> sorted_wrt (<) (map fst h)"

lemma increasing_Nil [simp]: "increasing []"
  by (simp add: increasing_def)

lemma increasing_Cons [simp]: "increasing (p # h) \<longleftrightarrow> (\<forall>q \<in> set h. fst p < fst q) \<and> increasing h"
  by (auto simp: increasing_def)

lemma increasing_filter: "increasing h \<Longrightarrow> increasing (filter P h)"
  by (induction h) auto

lemma last_latest: "increasing h \<Longrightarrow> p \<in> set h \<Longrightarrow> fst p \<le> fst (last h) \<and> (fst p = fst (last h) \<longrightarrow> p = last h)"
proof (induction h)
  case (Cons a h)
  then show ?case using last_in_set [of h] by (cases "h = []") (auto simp: less_imp_le)
qed simp

lemma find_defined: "q \<in> set h \<Longrightarrow> P q \<Longrightarrow> \<exists>p. find P h = Some p"
  by (induction h) auto

lemma find_first:
  "increasing h \<Longrightarrow> find P h = Some p \<Longrightarrow> p \<in> set h \<and> P p \<and> (\<forall>q \<in> set h. P q \<longrightarrow> fst p \<le> fst q)"
  by (induction h) (force split: if_splits)+

lemma value_at_Some:
  assumes "increasing h"
  shows "value_at h u = Some out \<longleftrightarrow>
    (\<exists>t \<le> u. (t, Some out) \<in> set h \<and> (\<forall>q \<in> set h. fst q \<le> u \<longrightarrow> fst q \<le> t))"
proof -
  let ?ps = "filter (\<lambda>p. fst p \<le> u) h"
  have inc: "increasing ?ps" using assms by (rule increasing_filter)
  show ?thesis
  proof (cases "?ps = []")
    case True
    then show ?thesis by (auto simp: value_at_def filter_empty_conv)
  next
    case False
    then have v: "value_at h u = snd (last ?ps)" by (auto simp: value_at_def split: list.splits)
    have l: "last ?ps \<in> set h" "fst (last ?ps) \<le> u" using last_in_set [OF False] by auto
    have m: "fst q \<le> fst (last ?ps) \<and> (fst q = fst (last ?ps) \<longrightarrow> q = last ?ps)" if "q \<in> set h" "fst q \<le> u" for q
      using last_latest [OF inc] that by simp
    show ?thesis
    proof
      assume "value_at h u = Some out"
      then have "(fst (last ?ps), Some out) \<in> set h" using v l(1) by (metis prod.collapse)
      then show "\<exists>t \<le> u. (t, Some out) \<in> set h \<and> (\<forall>q \<in> set h. fst q \<le> u \<longrightarrow> fst q \<le> t)"
        using l m by blast
    next
      assume "\<exists>t \<le> u. (t, Some out) \<in> set h \<and> (\<forall>q \<in> set h. fst q \<le> u \<longrightarrow> fst q \<le> t)"
      then obtain t where t: "t \<le> u" "(t, Some out) \<in> set h" "fst (last ?ps) \<le> t" using l by blast
      then have "(t, Some out) = last ?ps" using m [of "(t, Some out)"] by (simp add: order_antisym)
      then show "value_at h u = Some out" using v by (metis snd_conv)
    qed
  qed
qed

text \<open>Between publications the value stands still.\<close>

lemma value_at_steady:
  assumes "increasing h" "value_at h t = Some out" "t \<le> u" "\<And>c. change_after h t = Some c \<Longrightarrow> u < c"
  shows "value_at h u = Some out"
proof -
  have "fst q \<le> t" if q: "q \<in> set h" "fst q \<le> u" for q
  proof (rule ccontr)
    assume "\<not> fst q \<le> t"
    then obtain p where p: "find (\<lambda>p. t < fst p) h = Some p"
      using find_defined [OF q(1), of "\<lambda>p. t < fst p"] \<open>\<not> fst q \<le> t\<close> by auto
    then have "fst p \<le> fst q" using find_first [OF assms(1) p] q \<open>\<not> fst q \<le> t\<close> by auto
    then show False using assms(4) [of "fst p"] p q(2) by (simp add: change_after_def)
  qed
  then show ?thesis using assms(2,3) unfolding value_at_Some [OF assms(1)] by (meson order_trans)
qed

lemma no_outlet_until:
  assumes "increasing h" "value_at h t0 = None" "t0 \<le> u" "value_at h u = Some out"
  shows "\<exists>p. find (\<lambda>p. t0 < fst p \<and> snd p \<noteq> None) h = Some p \<and> fst p \<le> u"
proof -
  obtain t where t: "t \<le> u" "(t, Some out) \<in> set h" "\<forall>q \<in> set h. fst q \<le> u \<longrightarrow> fst q \<le> t"
    using assms(4) unfolding value_at_Some [OF assms(1)] by blast
  have "t0 < t"
  proof (rule ccontr)
    assume "\<not> t0 < t"
    then have "value_at h t0 = Some out"
      unfolding value_at_Some [OF assms(1)] using t assms(3) by (intro exI [of _ t]) auto
    then show False using assms(2) by simp
  qed
  then obtain p where p: "find (\<lambda>p. t0 < fst p \<and> snd p \<noteq> None) h = Some p"
    using find_defined [OF t(2), of "\<lambda>p. t0 < fst p \<and> snd p \<noteq> None"] by auto
  then show ?thesis using find_first [OF assms(1) p] t \<open>t0 < t\<close> by fastforce
qed

lemma wait_outlet_found:
  assumes "increasing h" "wait_outlet h gone t0 = Inr (t, out)"
  shows "t0 \<le> t" "t \<le> t0 + RECOVERY_WAIT" "value_at h t = Some out"
    "t0 \<le> u \<Longrightarrow> u < t \<Longrightarrow> value_at h u = None"
proof -
  have "t0 \<le> t \<and> t \<le> t0 + RECOVERY_WAIT \<and> value_at h t = Some out
      \<and> (t0 \<le> u \<longrightarrow> u < t \<longrightarrow> value_at h u = None)"
  proof (cases "value_at h t0")
    case None
    then obtain p where p: "find (\<lambda>p. t0 < fst p \<and> snd p \<noteq> None) h = Some p" "p = (t, Some out)"
        "t \<le> t0 + RECOVERY_WAIT"
      using assms(2) by (auto simp: wait_outlet_def Let_def split: option.splits if_splits)
    note f = find_first [OF assms(1) p(1)]
    have "value_at h t = Some out"
      unfolding value_at_Some [OF assms(1)] using f p by (intro exI [of _ t]) auto
    moreover have "value_at h u = None" if "t0 \<le> u" "u < t"
      using no_outlet_until [OF assms(1) None that(1)] p that(2) by (cases "value_at h u") auto
    ultimately show ?thesis using f p by auto
  qed (use assms(2) in \<open>auto simp: wait_outlet_def\<close>)
  then show "t0 \<le> t" "t \<le> t0 + RECOVERY_WAIT" "value_at h t = Some out"
    "t0 \<le> u \<Longrightarrow> u < t \<Longrightarrow> value_at h u = None" by blast+
qed

lemma wait_outlet_gave_up:
  assumes "increasing h" "wait_outlet h gone t0 = Inl t"
  shows "t0 \<le> t" "t \<le> t0 + RECOVERY_WAIT" "t0 \<le> u \<Longrightarrow> u \<le> t \<Longrightarrow> value_at h u = None"
proof -
  let ?find = "find (\<lambda>p. t0 < fst p \<and> snd p \<noteq> None) h"
  have n: "value_at h t0 = None" and t: "t0 \<le> t" "t \<le> t0 + RECOVERY_WAIT"
    using assms(2) by (auto simp: wait_outlet_def Let_def split: option.splits if_splits)
  have late: "t < fst p" if "?find = Some p" for p
    using assms(2) n that find_first [OF assms(1) that]
    by (auto simp: wait_outlet_def Let_def split: option.splits if_splits prod.splits)
  show "t0 \<le> t" "t \<le> t0 + RECOVERY_WAIT" using t .
  show "value_at h u = None" if "t0 \<le> u" "u \<le> t"
    using no_outlet_until [OF assms(1) n that(1)] late that(2) by (cases "value_at h u") fastforce+
qed


section \<open>Without an outlet\<close>

lemma Unavailable_forward:
  "snd (forward L Unavailable exch free req) = Ok (resp, t) \<Longrightarrow> t = None \<and> resp = error_response 400"
  by (auto simp: forward_def Unavailable_def split: sum.splits)

lemma Unavailable_serve_requests:
  "serve_requests L Unavailable exch None reqs = (resps, slot) \<Longrightarrow>
     slot = None \<and> set resps \<subseteq> {error_response 400, error_response 502}"
proof (induction reqs arbitrary: resps slot)
  case (Cons req reqs)
  obtain resp slot' where r: "serve_request L Unavailable exch None req = (resp, slot')" by fastforce
  then have "slot' = None \<and> resp \<in> {error_response 400, error_response 502}"
    by (auto simp: serve_request_def dest!: Unavailable_forward split: sum.splits prod.splits)
  with Cons r show ?case by (fastforce split: prod.splits)
qed simp

section \<open>Instances\<close>

definition demo_sink :: wsink where
  "demo_sink = \<lparr>written = [], room = None\<rparr>"

definition demo_client_env :: client_env where
  "demo_client_env = \<lparr>first_byte_at = Some (1, Ok ()), handshake_at = Some (2, Ok ()), cut_out = demo_sink,
     http_lib = demo_http, http_requests = \<lambda>_. ([demo_connect], Ok ()), http_exchange = demo_exchange,
     relay_addr = SockAddr (V4 127 0 0 1) 9, new_egress = egress_new 0 0\<rparr>"

text \<open>One local and one remote client of an automatic listener.\<close>

definition demo_server :: "string server" where
  "demo_server = accept_client [True, True] 0 8 (Ok (SockAddr (V4 8 8 8 8) 99))
     (accept_client [True, True] 0 7 (Ok (SockAddr (V4 10 0 0 2) 99)) (server_start (Some ''wg'')))"

lemma demo_server_reached: "(accept_step [True, True])\<^sup>*\<^sup>* (server_start (Some ''wg'')) demo_server"
proof -
  let ?s = "accept_client [True, True] 0 7 (Ok (SockAddr (V4 10 0 0 2) 99)) (server_start (Some ''wg''))"
  have "accept_step [True, True] (server_start (Some ''wg'')) ?s"
    by (intro accept) (simp_all add: server_start_def)
  moreover have "accept_step [True, True] ?s demo_server"
    unfolding demo_server_def by (intro accept) (simp_all add: server_start_def accept_client_def)
  ultimately show ?thesis by simp
qed

section \<open>Properties\<close>

text \<open>
  C13: whatever clients arrive, whenever outlets come and go and in whatever order tasks run, no
  more than 64 connections are open over all listeners and each holds one permit; a listener bound
  automatically serves only peers of the local network; a connection is served only through an
  outlet that was published, and is refused only if it had seen that there was none.
\<close>

theorem accept_loops_safe:
  assumes "serve_managed bind mode v = Ok (lan_only, start)" "(accept_step lan_only)\<^sup>*\<^sup>* start s"
  shows "permits s + length (conns s) = 64 \<and> distinct (map fst (conns s))
    \<and> (\<forall>c k. map_of (conns s) c = Some k \<longrightarrow>
         (mode = Auto port \<longrightarrow> is_lan_address (sa_ip (conn_peer k)))
         \<and> (\<forall>out n. conn_phase k = Serving out n \<longrightarrow>
              0 < n \<and> n \<le> length (published s) \<and> published s ! (n - 1) = Some out)
         \<and> (\<forall>n. conn_phase k = Refusing n \<longrightarrow>
              0 < n \<and> n \<le> length (published s) \<and> published s ! (n - 1) = None))"
proof -
  have "server_ok lan_only s"
    using accept_steps_ok [of lan_only v s] assms serve_managed_start [OF assms(1)] by simp
  moreover have "lan_only = [True, True]" if "mode = Auto port"
    using serve_managed_auto assms(1) that by blast
  ultimately show ?thesis
    by (fastforce simp: server_ok_def MAX_CONNECTIONS_def conn_ok_def less_Suc_eq dest: map_of_SomeD)
qed

theorem accept_loops_safe_witness:
  "map fst (conns demo_server) = [7] \<and> permits demo_server + length (conns demo_server) = 64
     \<and> is_lan_address (sa_ip (conn_peer (snd (hd (conns demo_server)))))"
proof -
  have s: "serve_managed (\<lambda>_ _. Ok ()) (Auto 1080) (Some ''wg'') = Ok ([True, True], server_start (Some ''wg''))"
    by (simp add: serve_managed_def)
  have c: "conns demo_server = [(7, \<lparr>conn_listener = 0, conn_peer = SockAddr (V4 10 0 0 2) 99, conn_phase = Waiting None\<rparr>)]"
    by (simp add: demo_server_def accept_client_def server_start_def MAX_CONNECTIONS_def)
  show ?thesis using accept_loops_safe [OF s demo_server_reached, of 1080] c by simp
qed

text \<open>
  C15: an accepted connection waits at most five seconds.  If it is given an outlet, that outlet is
  the one published at that moment, there was none while it waited, and the outlet is still the
  published one at every moment before the connection ends: it never outlives its outlet.  If it
  is given none, none was published while it waited, and it ends within ten seconds more.
\<close>

theorem connection_within_outlet:
  assumes "increasing h" "connection_task h gone run t0 = (t, used, done_at)"
  shows "t0 \<le> t \<and> t \<le> t0 + 5 * 10 ^ 9 \<and> (\<forall>u. t0 \<le> u \<and> u < t \<longrightarrow> value_at h u = None) \<and> value_at h t = used
    \<and> (used \<noteq> None \<longrightarrow> (\<forall>u \<ge> t. (\<forall>e. done_at = Some e \<longrightarrow> u < e) \<longrightarrow> value_at h u = used))
    \<and> (used = None \<longrightarrow> (\<exists>e. done_at = Some e \<and> e \<le> t + 10 * 10 ^ 9))"
proof (cases "wait_outlet h gone t0")
  case (Inl t')
  note w = wait_outlet_gave_up [OF assms(1) Inl]
  have "t' = t" "used = None"
    and e: "done_at = earliest [map_option ((+) t) (run None), Some (t + HANDSHAKE_TIMEOUT), change_after h t, map_option (max t) gone]"
    using assms(2) Inl by (auto simp: connection_task_def)
  moreover have "\<exists>e. done_at = Some e \<and> e \<le> t + HANDSHAKE_TIMEOUT"
    unfolding e by (rule earliest_le) simp
  ultimately show ?thesis using w by (auto simp: RECOVERY_WAIT_def HANDSHAKE_TIMEOUT_def)
next
  case (Inr p)
  then obtain out where w: "wait_outlet h gone t0 = Inr (t, out)" and u: "used = Some out"
    and e: "done_at = earliest [map_option ((+) t) (run (Some out)), change_after h t, map_option (max t) gone]"
    using assms(2) by (auto simp: connection_task_def split: prod.splits)
  note f = wait_outlet_found [OF assms(1) w]
  have "value_at h u = Some out" if "t \<le> u" "\<forall>e. done_at = Some e \<longrightarrow> u < e" for u
  proof (rule value_at_steady [OF assms(1) f(3) that(1)])
    fix c assume "change_after h t = Some c"
    then have "\<exists>e'. done_at = Some e' \<and> e' \<le> c" unfolding e by (intro earliest_le) simp
    then show "u < c" using that(2) by auto
  qed
  then show ?thesis using f u by (auto simp: RECOVERY_WAIT_def)
qed

theorem connection_within_outlet_witness:
  "connection_task [(0, None), (3 * 10 ^ 9, Some ''wg''), (9 * 10 ^ 9, None)] None (\<lambda>_. None) (10 ^ 9) =
     (3 * 10 ^ 9, Some ''wg'', Some (9 * 10 ^ 9))
   \<and> value_at [(0, None), (3 * 10 ^ 9, Some ''wg''), (9 * 10 ^ 9, None)] (8 * 10 ^ 9) = Some ''wg''"
proof -
  let ?h = "[(0, None), (3 * 10 ^ 9, Some ''wg''), (9 * 10 ^ 9, None)] :: string history"
  have c: "connection_task ?h None (\<lambda>_. None) (10 ^ 9) = (3 * 10 ^ 9, Some ''wg'', Some (9 * 10 ^ 9))"
    by (simp add: connection_task_def wait_outlet_def value_at_def change_after_def earliest_def
        RECOVERY_WAIT_def map_filter_def)
  have "increasing ?h" by simp
  from connection_within_outlet [OF this c] c show ?thesis by simp
qed

text \<open>
  While no outlet is ready, no client of any protocol gets through: a SOCKS connection or
  association never comes about, and every HTTP request is answered with the proxy's own error,
  leaving no tunnel.
\<close>

lemma unavailable_refuses:
  assumes "dispatch env Unavailable client out = (out', Ok served)"
  shows "served = NoRequest
    \<or> (\<exists>resps. served = HttpServed resps None \<and> set resps \<subseteq> {error_response 400, error_response 502})"
proof -
  have s5: "False" if "socks5_handle_client env Unavailable client out = (out', Ok served)"
    using that by (auto simp: socks5_handle_client_def handle_connect_def handle_udp_associate_def
        relay_connect_def Unavailable_def split: if_splits prod.splits sum.splits Request.splits)
  have s4: "False" if "socks4_handle_client env Unavailable client out = (out', Ok served)"
    using that by (auto simp: socks4_handle_client_def handle_client4_def relay_connect_def Unavailable_def
        split: if_splits prod.splits sum.splits)
  have http: "\<exists>resps. served = HttpServed resps None \<and> set resps \<subseteq> {error_response 400, error_response 502}"
    if "http_handle env Unavailable client out = (out', Ok served)"
    using that by (auto simp: http_handle_def http_handle_client_def rbind_Inr_iff
        dest!: Unavailable_serve_requests split: prod.splits sum.splits)
  show ?thesis
    using assms s5 s4 http by (auto simp: dispatch_def split: if_splits sum.splits list.splits)
qed


lemma unavailable_refuses_witness:
  "\<exists>resps. snd (dispatch demo_client_env Unavailable \<lparr>chunks = [[67]], tail_err = None\<rparr> demo_sink) = Ok (HttpServed resps None)
     \<and> set resps \<subseteq> {error_response 400, error_response 502}"
proof -
  let ?d = "dispatch demo_client_env Unavailable \<lparr>chunks = [[67]], tail_err = None\<rparr> demo_sink"
  obtain resp slot where "serve_request demo_http Unavailable demo_exchange None demo_connect = (resp, slot)"
    by fastforce
  then obtain resps t where "?d = (demo_sink, Ok (HttpServed resps t))"
    by (simp add: dispatch_def demo_client_env_def HANDSHAKE_TIMEOUT_def peek_byte_def sread_def http_handle_def
        http_handle_client_def split: prod.splits)
  with unavailable_refuses [OF this] show ?thesis by auto
qed

end
