(* ===== verification/Supervisor.thy ===== *)
theory Supervisor
  imports Health Endpoint Registration Appconfig Psiphon Mixed
begin

text \<open>
  \<^verbatim>\<open>supervisor.rs\<close>: which outlet is built, when it is published and when it is taken back.  An
  operation maps the file system to the actions it takes (the order of everything visible outside),
  the new file system and its result.  What the network does comes in as parameters: how the
  building of a tunnel turns out, the environment of every probe, the services' answers.  Times are
  in nanoseconds.
\<close>

section \<open>Actions\<close>

datatype action =
    Probed Outbound "(probe_error, ProbeOutcome) result"
  | Invalidate
  | Publish Outbound
  | RecordSuccess
  | Withdraw
  | Cooldown string
  | Sleep nat

datatype SvErr =
    ProbeTimeout "probe_error option" | SvReg RegErr | SvConf ConfErr | SvStore EpErr | SvList ListError
  | NoTokenGiven | NoCandidates | AllCandidatesFailed | MasqueDown | WgDown | SshTimeout | SvEntry EntryError
  | H2Down | NoCandidateRun | OverBudget | HeartbeatFailed | BadCountry | BadListenAddr | NoListenAddr

type_synonym 'a sv = "fs \<Rightarrow> action list \<times> fs \<times> (SvErr, 'a) result"

definition sv_return :: "(SvErr, 'a) result \<Rightarrow> 'a sv" where
  "sv_return r = (\<lambda>fs. ([], fs, r))"

definition sv_bind :: "'a sv \<Rightarrow> ('a \<Rightarrow> 'b sv) \<Rightarrow> 'b sv" where
  "sv_bind m f = (\<lambda>fs.
     case m fs of
       (tr, fs, Inl e) \<Rightarrow> (tr, fs, Err e)
     | (tr, fs, Inr x) \<Rightarrow> (case f x fs of (tr', fs, r) \<Rightarrow> (tr @ tr', fs, r)))"

definition sv_files :: "(fs \<Rightarrow> fs \<times> (SvErr, 'a) result) \<Rightarrow> 'a sv" where
  "sv_files f = (\<lambda>fs. ([], f fs))"

section \<open>What the surroundings do in one preparation\<close>

record ('k, 'v) prep =
  pr_b64 :: b64
  pr_crypto :: "('k, 'v) crypto"
  pr_account_json :: account_json
  pr_reg_json :: reg_json
  pr_state_json :: state_json
  pr_faults :: "fs_faults \<times> nat"
  pr_ep_faults :: "nat \<Rightarrow> save_faults"
  pr_ep_readable :: bool
  pr_ep_now :: "nat \<Rightarrow> u64"
  pr_look_now :: "string \<Rightarrow> u64"
  pr_teams_api :: "string \<Rightarrow> string \<Rightarrow> TeamsRegisterRequest \<Rightarrow> nat \<Rightarrow> teams_reply"
  pr_teams_keys :: "bytes \<times> bytes"
  pr_teams_ids :: "nat list \<times> nat list"
  pr_teams_now :: "nat \<Rightarrow> nat \<times> nat \<times> nat \<times> nat \<times> nat \<times> nat"
  pr_masque_api :: "ApiRequest \<Rightarrow> ApiReply"
  pr_masque_now :: issue
  pr_load_now :: issue
  pr_masque_tos :: string
  pr_masque_rnd :: "bytes \<times> bytes"
  pr_masque_key :: 'k
  pr_lookup :: name_service
  pr_masque_new :: "RegCredentials \<Rightarrow> Outbound option"
  pr_wg_new :: "WgConfig \<Rightarrow> Trick \<Rightarrow> nat \<Rightarrow> Outbound option"
  pr_probes :: "Outbound \<Rightarrow> nat \<Rightarrow> https_env"
  pr_list_env :: https_env
  pr_list_lib :: list_lib
  pr_list_key :: string
  pr_clock :: nat
  pr_shuffle :: "nat list \<Rightarrow> nat list"
  pr_ssh :: "ServerEntry \<Rightarrow> nat \<times> ssh_env"
  pr_h2_new :: "RegCredentials \<Rightarrow> PsiphonSession \<Rightarrow> Outbound option"

definition secs :: "u64 \<Rightarrow> nat" where
  "secs s = unat s * 10 ^ 9"

section \<open>Waiting for WARP\<close>

text \<open>
  Probe after probe until one succeeds or the time is up; a turn of the loop takes at least a
  nanosecond.  A probe that the limit cuts off leaves no result.
\<close>

function wait_loop ::
  "AppConfig \<Rightarrow> (nat \<Rightarrow> https_env) \<Rightarrow> Outbound \<Rightarrow> probe_error option \<Rightarrow> nat \<Rightarrow> nat
     \<Rightarrow> action list \<times> (SvErr, unit) result" where
  "wait_loop cfg probes outbound last_error i t =
     (let limit = secs (startup_ready_timeout cfg);
          timeout = secs (startup_probe_timeout cfg);
          took = min (https_took (probes i)) timeout
      in if limit < t + took then ([], Err (ProbeTimeout last_error))
         else
           case probe_outbound (probes i) outbound timeout of
             Inr outcome \<Rightarrow> ([Probed outbound (Ok outcome)], Ok ())
           | Inl e \<Rightarrow>
               let next = t + max 1 (took + secs (startup_probe_delay cfg)) in
               if limit < next then ([Probed outbound (Err e)], Err (ProbeTimeout (Some e)))
               else
                 (case wait_loop cfg probes outbound (Some e) (Suc i) next of
                    (tr, r) \<Rightarrow> (Probed outbound (Err e) # tr, r)))"
  by pat_completeness auto
termination
  by (relation "measure (\<lambda>(cfg, probes, outbound, le, i, t). Suc (secs (startup_ready_timeout cfg)) - t)")
     (auto simp: max_def split: if_splits)

declare wait_loop.simps [simp del]

definition wait_for_warp :: "AppConfig \<Rightarrow> ('k, 'v) prep \<Rightarrow> Outbound \<Rightarrow> unit sv" where
  "wait_for_warp cfg P outbound = (\<lambda>fs.
     case wait_loop cfg (pr_probes P outbound) outbound None 0 0 of (tr, r) \<Rightarrow> (tr, fs, r))"

section \<open>The base outlet\<close>

record SelectedWarp =
  sel_outbound :: Outbound
  wg_endpoint :: "string option"

definition ensure_masque_credentials :: "AppConfig \<Rightarrow> ('k, 'v) prep \<Rightarrow> RegCredentials sv" where
  "ensure_masque_credentials cfg P =
     sv_bind
       (\<lambda>fs. if fs (reg_json_file cfg) \<noteq> None then ([], fs, Ok ())
             else
               sv_bind (sv_return (rmap_err SvReg
                   (register_masque (pr_b64 P) (pr_crypto P) (pr_reg_json P) (pr_masque_api P) (pr_masque_now P)
                      (pr_masque_tos P) (pr_masque_rnd P) (pr_masque_key P))))
                 (\<lambda>creds. sv_files (\<lambda>fs.
                    case save (pr_reg_json P) (fst (pr_faults P)) (snd (pr_faults P)) (registration creds)
                           (reg_json_file cfg) fs of
                      (fs, r) \<Rightarrow> (fs, rmap_err SvReg r))) fs)
       (\<lambda>_. sv_files (\<lambda>fs.
          (fs, rmap_err SvReg (load (pr_b64 P) (pr_crypto P) (pr_reg_json P) (pr_load_now P) fs (reg_json_file cfg)))))"

definition try_masque :: "AppConfig \<Rightarrow> ('k, 'v) prep \<Rightarrow> Outbound sv" where
  "try_masque cfg P =
     sv_bind (ensure_masque_credentials cfg P) (\<lambda>creds.
     sv_bind (sv_return (ok_or MasqueDown (pr_masque_new P creds))) (\<lambda>outbound.
     sv_bind (wait_for_warp cfg P outbound) (\<lambda>_. sv_return (Ok outbound))))"

definition ensure_account :: "AppConfig \<Rightarrow> ('k, 'v) prep \<Rightarrow> WgAccount sv" where
  "ensure_account cfg P = (\<lambda>fs.
     if fs (account_json_file cfg) \<noteq> None then
       ([], fs, rmap_err SvReg (account_load (pr_account_json P) fs (account_json_file cfg)))
     else if trim (cfg_teams_token cfg) = [] then ([], fs, Err NoTokenGiven)
     else
       case teams_register (pr_b64 P) (pr_account_json P) (pr_teams_api P) (fst (pr_faults P)) (snd (pr_faults P))
              (pr_teams_keys P) (pr_teams_ids P) (pr_teams_now P)
              \<lparr>teams_token = cfg_teams_token cfg, account_path = account_json_file cfg,
               retries = unat (register_retries cfg), retry_delay = unat (register_retry_delay cfg)\<rparr> fs of
         (fs, _, r) \<Rightarrow> ([], fs, rmap_err SvReg r))"

definition try_wg_candidate :: "AppConfig \<Rightarrow> ('k, 'v) prep \<Rightarrow> WgAccount \<Rightarrow> string \<Rightarrow> Outbound sv" where
  "try_wg_candidate cfg P account ep =
     sv_bind (sv_return (rmap_err SvConf (build_wg_config (pr_b64 P) (pr_lookup P) account (Some ep)))) (\<lambda>config.
     sv_bind (sv_return (ok_or WgDown (pr_wg_new P config (cfg_trick cfg) (secs (startup_probe_timeout cfg))))) (\<lambda>outbound.
     sv_bind (wait_for_warp cfg P outbound) (\<lambda>_.
     sv_bind (sv_files (\<lambda>fs.
         case write_wg_conf (pr_b64 P) (fst (pr_faults P)) (snd (pr_faults P)) config (wg_conf cfg) fs of
           (fs, r) \<Rightarrow> (fs, rmap_err SvConf r))) (\<lambda>_.
     sv_return (Ok outbound)))))"

fun wg_loop :: "AppConfig \<Rightarrow> ('k, 'v) prep \<Rightarrow> WgAccount \<Rightarrow> nat \<Rightarrow> string list \<Rightarrow> JsonFileEndpointStore \<Rightarrow> SelectedWarp sv" where
  "wg_loop cfg P account n [] store = sv_return (Err AllCandidatesFailed)"
| "wg_loop cfg P account n (ep # rest) store = (\<lambda>fs.
     case try_wg_candidate cfg P account ep fs of
       (tr, fs, Inr outbound) \<Rightarrow>
         (case Endpoint.record_success (pr_state_json P) (pr_ep_faults P n) ep store fs of
            (fs, _, r) \<Rightarrow>
              (tr, fs, rbind (rmap_err SvStore r) (\<lambda>_. Ok \<lparr>sel_outbound = outbound, wg_endpoint = Some ep\<rparr>)))
     | (tr, fs, Inl _) \<Rightarrow>
         (case mark_cooldown (pr_state_json P) (pr_ep_faults P n) (pr_ep_now P n) ep
                 (startup_endpoint_cooldown cfg) store fs of
            (fs, store, Inl e) \<Rightarrow> (tr, fs, Err (SvStore e))
          | (fs, store, Inr _) \<Rightarrow>
              (case wg_loop cfg P account (Suc n) rest store fs of (tr', fs, r) \<Rightarrow> (tr @ tr', fs, r))))"

definition prepare_wireguard :: "AppConfig \<Rightarrow> ('k, 'v) prep \<Rightarrow> SelectedWarp sv" where
  "prepare_wireguard cfg P =
     sv_bind (ensure_account cfg P) (\<lambda>account.
     sv_bind (sv_files (\<lambda>fs.
         case store_load (pr_state_json P) (pr_ep_faults P 0) (pr_ep_readable P) (pr_ep_now P 0)
                (endpoint_state_file cfg) fs of
           (fs, r) \<Rightarrow> (fs, rmap_err SvStore r))) (\<lambda>store.
     let candidates = plan_candidates (pr_look_now P) (candidate_pool (endpoint_candidates cfg)) store in
     if candidates = [] then sv_return (Err NoCandidates)
     else wg_loop cfg P account 1 candidates store))"

definition prepare_base :: "AppConfig \<Rightarrow> ('k, 'v) prep \<Rightarrow> SelectedWarp sv" where
  "prepare_base cfg P = (\<lambda>fs.
     if enable_masque cfg then
       (case try_masque cfg P fs of
          (tr, fs, Inr outbound) \<Rightarrow> (tr, fs, Ok \<lparr>sel_outbound = outbound, wg_endpoint = None\<rparr>)
        | (tr, fs, Inl _) \<Rightarrow>
            (case prepare_wireguard cfg P fs of (tr', fs, r) \<Rightarrow> (tr @ tr', fs, r)))
     else prepare_wireguard cfg P fs)"


section \<open>The outlet of a region\<close>

record CachedCandidates =
  cc_entries :: "ServerEntry list"
  cc_fetched :: nat
  cc_preferred :: "nat option"

definition CACHE_AGE :: nat where "CACHE_AGE = 86400 * 10 ^ 9"
definition SSH_LIMIT :: nat where "SSH_LIMIT = 20 * 10 ^ 9"

definition swap :: "nat \<Rightarrow> nat \<Rightarrow> 'a list \<Rightarrow> 'a list" where
  "swap i j xs = xs[i := xs ! j, j := xs ! i]"

definition region_order :: "(nat list \<Rightarrow> nat list) \<Rightarrow> CachedCandidates \<Rightarrow> nat list" where
  "region_order shuffle cache =
     (let order = shuffle [0..<length (cc_entries cache)] in
      case cc_preferred cache of
        None \<Rightarrow> order
      | Some preferred \<Rightarrow>
          (case find (\<lambda>i. order ! i = preferred) [0..<length order] of
             None \<Rightarrow> order
           | Some index \<Rightarrow> swap 0 index order))"

definition region_attempt ::
  "AppConfig \<Rightarrow> ('k, 'v) prep \<Rightarrow> Outbound \<Rightarrow> RegCredentials \<Rightarrow> string \<Rightarrow> ServerEntry \<Rightarrow> Outbound sv" where
  "region_attempt cfg P base creds country entry =
     sv_bind (sv_return (case pr_ssh P entry of (took, env) \<Rightarrow>
         if SSH_LIMIT < took then Err SshTimeout
         else rmap_err SvEntry (connect_entry env (pr_list_lib P) base entry country))) (\<lambda>ssh.
     sv_bind (sv_return (ok_or H2Down (pr_h2_new P creds ssh))) (\<lambda>outbound.
     sv_bind (wait_for_warp cfg P outbound) (\<lambda>_. sv_return (Ok outbound))))"

fun region_loop :: "(ServerEntry \<Rightarrow> Outbound sv) \<Rightarrow> ServerEntry list \<Rightarrow> nat list \<Rightarrow> SvErr option \<Rightarrow> (nat \<times> Outbound) sv" where
  "region_loop attempt entries [] last_error =
     sv_return (Err (case last_error of None \<Rightarrow> NoCandidateRun | Some e \<Rightarrow> e))"
| "region_loop attempt entries (i # rest) last_error = (\<lambda>fs.
     case attempt (entries ! i) fs of
       (tr, fs, Inr outbound) \<Rightarrow> (tr, fs, Ok (i, outbound))
     | (tr, fs, Inl e) \<Rightarrow>
         (case region_loop attempt entries rest (Some e) fs of (tr', fs, r) \<Rightarrow> (tr @ tr', fs, r)))"

type_synonym 'a region = "fs \<Rightarrow> action list \<times> fs \<times> CachedCandidates option \<times> (SvErr, 'a) result"

definition fresh_cache ::
  "('k, 'v) prep \<Rightarrow> Outbound \<Rightarrow> string \<Rightarrow> CachedCandidates option \<Rightarrow> (SvErr, CachedCandidates) result" where
  "fresh_cache P base country cached =
     (case cached of
        Some cache \<Rightarrow>
          if CACHE_AGE \<le> pr_clock P - cc_fetched cache then
            rbind (rmap_err SvList (candidates (pr_list_env P) (pr_list_lib P) (pr_list_key P) base country))
              (\<lambda>entries. Ok \<lparr>cc_entries = entries, cc_fetched = pr_clock P, cc_preferred = None\<rparr>)
          else Ok cache
      | None \<Rightarrow>
          rbind (rmap_err SvList (candidates (pr_list_env P) (pr_list_lib P) (pr_list_key P) base country))
            (\<lambda>entries. Ok \<lparr>cc_entries = entries, cc_fetched = pr_clock P, cc_preferred = None\<rparr>))"

definition prepare_region ::
  "AppConfig \<Rightarrow> ('k, 'v) prep \<Rightarrow> Outbound \<Rightarrow> string \<Rightarrow> CachedCandidates option \<Rightarrow> Outbound region" where
  "prepare_region cfg P base country cached = (\<lambda>fs.
     case ensure_masque_credentials cfg P fs of
       (tr, fs, Inl e) \<Rightarrow> (tr, fs, cached, Err e)
     | (tr, fs, Inr creds) \<Rightarrow>
         (case fresh_cache P base country cached of
            Inl e \<Rightarrow> (tr, fs, cached, Err e)
          | Inr cache \<Rightarrow>
              (case region_loop (region_attempt cfg P base creds country) (cc_entries cache)
                      (take 8 (region_order (pr_shuffle P) cache)) None fs of
                 (tr', fs, Inr (i, outbound)) \<Rightarrow> (tr @ tr', fs, Some (cache\<lparr>cc_preferred := Some i\<rparr>), Ok outbound)
               | (tr', fs, Inl e) \<Rightarrow> (tr @ tr', fs, None, Err e))))"

definition prepare ::
  "AppConfig \<Rightarrow> string option \<Rightarrow> ('k, 'v) prep \<Rightarrow> CachedCandidates option \<Rightarrow> (SelectedWarp \<times> Outbound) region" where
  "prepare cfg country P cached = (\<lambda>fs.
     case prepare_base cfg P fs of
       (tr, fs, Inl e) \<Rightarrow> (tr, fs, cached, Err e)
     | (tr, fs, Inr selected) \<Rightarrow>
         (case country of
            None \<Rightarrow> (tr, fs, cached, Ok (selected, sel_outbound selected))
          | Some c \<Rightarrow>
              (case prepare_region cfg P (sel_outbound selected) c cached fs of
                 (tr', fs, cached, r) \<Rightarrow> (tr @ tr', fs, cached, rbind r (\<lambda>outbound. Ok (selected, outbound))))))"

section \<open>Watching the outlet\<close>

text \<open>
  \<open>Terminated\<close>: the outlet, or the base it runs over, has ended; \<open>ProbeDue\<close>: a probe after the
  interval.  The flag says whether watching is over.
\<close>

datatype watch_event = Terminated | ProbeDue https_env

fun watch_loop :: "AppConfig \<Rightarrow> Outbound \<Rightarrow> ThresholdRecovery \<Rightarrow> watch_event list \<Rightarrow> action list \<times> bool" where
  "watch_loop cfg outbound recovery [] = ([], False)"
| "watch_loop cfg outbound recovery (Terminated # evs) = ([], True)"
| "watch_loop cfg outbound recovery (ProbeDue env # evs) =
     (let outcome = probe_outbound env outbound (secs (healthcheck_probe_timeout cfg)) in
      case outcome of
        Inr _ \<Rightarrow>
          (case watch_loop cfg outbound (on_success recovery) evs of
             (tr, over) \<Rightarrow> (Probed outbound outcome # RecordSuccess # tr, over))
      | Inl _ \<Rightarrow>
          (case on_failure recovery of
             (RequestExit, _) \<Rightarrow> ([Probed outbound outcome], True)
           | (Continue, recovery) \<Rightarrow>
               (case watch_loop cfg outbound recovery evs of (tr, over) \<Rightarrow> (Probed outbound outcome # tr, over))))"

definition watch_outbound :: "AppConfig \<Rightarrow> Outbound \<Rightarrow> u32 \<Rightarrow> watch_event list \<Rightarrow> action list \<times> bool" where
  "watch_outbound cfg outbound failure_threshold evs =
     watch_loop cfg outbound (recovery_new failure_threshold) evs"

section \<open>The recovery loop\<close>

definition WG_HEALTH_FAILURE_THRESHOLD :: u32 where "WG_HEALTH_FAILURE_THRESHOLD = 1"
definition PREPARE_BUDGET :: nat where "PREPARE_BUDGET = 120 * 10 ^ 9"

text \<open>
  What happens in one round: the preparation, the time it takes and how far it gets if that is more
  than the budget; what is seen while watching; whether the heartbeat file can be reset; and the
  random choice of the delay.
\<close>

record ('k, 'v) round =
  rd_reset :: bool
  rd_prep :: "('k, 'v) prep"
  rd_took :: nat
  rd_cut :: "nat \<times> fs"
  rd_watch :: "watch_event list"
  rd_reset_after :: bool
  rd_cool_load :: "save_faults \<times> bool \<times> u64"
  rd_cool_mark :: "save_faults \<times> u64"
  rd_pick :: nat

record sv_state =
  sv_cached :: "CachedCandidates option"
  sv_failures :: u32
  sv_fs :: fs

datatype round_end = Next sv_state | Watching | Stopped SvErr

definition cool_down :: "AppConfig \<Rightarrow> ('k, 'v) round \<Rightarrow> string \<Rightarrow> fs \<Rightarrow> action list \<times> fs" where
  "cool_down cfg rd ep fs =
     (case rd_cool_load rd of
        (faults, readable, now) \<Rightarrow>
          (case store_load (pr_state_json (rd_prep rd)) faults readable now (endpoint_state_file cfg) fs of
             (fs, Inl _) \<Rightarrow> ([], fs)
           | (fs, Inr store) \<Rightarrow>
               (case mark_cooldown (pr_state_json (rd_prep rd)) (fst (rd_cool_mark rd)) (snd (rd_cool_mark rd)) ep
                       (startup_endpoint_cooldown cfg) store fs of
                  (fs, _, r) \<Rightarrow> (if is_ok r then [Cooldown ep] else [], fs))))"

definition recovery_delay :: "u32 \<Rightarrow> nat \<Rightarrow> nat" where
  "recovery_delay failures pick =
     (let ceiling = (2 :: nat) ^ unat (min failures 5) in 1000 + pick mod (ceiling * 1000 - 1000 + 1))"

definition budgeted ::
  "AppConfig \<Rightarrow> string option \<Rightarrow> ('k, 'v) round \<Rightarrow> CachedCandidates option \<Rightarrow> (SelectedWarp \<times> Outbound) region" where
  "budgeted cfg country rd cached = (\<lambda>fs.
     case prepare cfg country (rd_prep rd) cached fs of
       (tr, fs, cached, r) \<Rightarrow>
         if rd_took rd \<le> PREPARE_BUDGET then (tr, fs, cached, r)
         else (take (fst (rd_cut rd)) tr, snd (rd_cut rd), None, Err OverBudget))"

definition back_off :: "('k, 'v) round \<Rightarrow> CachedCandidates option \<Rightarrow> u32 \<Rightarrow> fs \<Rightarrow> action list \<times> round_end" where
  "back_off rd cached failures fs =
     (let failures = saturating_add failures 1 in
      ([Sleep (recovery_delay failures (rd_pick rd))],
       Next \<lparr>sv_cached = cached, sv_failures = failures, sv_fs = fs\<rparr>))"

definition serve_outlet ::
  "AppConfig \<Rightarrow> string option \<Rightarrow> ('k, 'v) round \<Rightarrow> CachedCandidates option \<Rightarrow> SelectedWarp \<Rightarrow> Outbound \<Rightarrow> fs
     \<Rightarrow> action list \<times> round_end" where
  "serve_outlet cfg country rd cached selected outbound fs =
     (let threshold = (if country = None \<and> wg_endpoint selected \<noteq> None then WG_HEALTH_FAILURE_THRESHOLD
                       else healthcheck_failure_threshold cfg)
      in case watch_outbound cfg outbound threshold (rd_watch rd) of
           (tr, False) \<Rightarrow> ([Publish outbound, RecordSuccess] @ tr, Watching)
         | (tr, True) \<Rightarrow>
             if \<not> rd_reset_after rd then ([Publish outbound, RecordSuccess] @ tr @ [Withdraw], Stopped HeartbeatFailed)
             else
               (case (if country = None then
                        (case wg_endpoint selected of None \<Rightarrow> ([], fs) | Some ep \<Rightarrow> cool_down cfg rd ep fs)
                      else ([], fs)) of
                  (cool, fs) \<Rightarrow>
                    (case back_off rd cached 0 fs of
                       (rest, e) \<Rightarrow> ([Publish outbound, RecordSuccess] @ tr @ [Withdraw, Invalidate] @ cool @ rest, e))))"

definition recover_round ::
  "AppConfig \<Rightarrow> string option \<Rightarrow> ('k, 'v) round \<Rightarrow> sv_state \<Rightarrow> action list \<times> round_end" where
  "recover_round cfg country rd st =
     (if \<not> rd_reset rd then ([], Stopped HeartbeatFailed)
      else
        (case budgeted cfg country rd (sv_cached st) (sv_fs st) of
           (tr, fs, cached, Inl _) \<Rightarrow>
             (case back_off rd cached (sv_failures st) fs of (rest, e) \<Rightarrow> (Invalidate # tr @ rest, e))
         | (tr, fs, cached, Inr (selected, outbound)) \<Rightarrow>
             (case serve_outlet cfg country rd cached selected outbound fs of
                (rest, e) \<Rightarrow> (Invalidate # tr @ rest, e))))"

text \<open>The loop ends only when the heartbeat file cannot be reset: here, its first rounds.\<close>

fun recover_outbound ::
  "AppConfig \<Rightarrow> string option \<Rightarrow> ('k, 'v) round list \<Rightarrow> sv_state \<Rightarrow> action list \<times> round_end" where
  "recover_outbound cfg country [] st = ([], Next st)"
| "recover_outbound cfg country (rd # rds) st =
     (case recover_round cfg country rd st of
        (tr, Next st) \<Rightarrow>
          (case recover_outbound cfg country rds st of (tr', e) \<Rightarrow> (tr @ tr', e))
      | (tr, e) \<Rightarrow> (tr, e))"

section \<open>Starting\<close>

definition parse_listen_mode :: "string \<Rightarrow> u16 \<Rightarrow> (SvErr, ListenMode) result" where
  "parse_listen_mode raw port =
     (if to_ascii_lowercase (trim raw) = ''auto'' then Ok (Auto port)
      else
        let parts = filter (\<lambda>v. v \<noteq> []) (map trim (split_on (CHR '','') raw));
            addrs = map parse_socket_addr parts
        in if None \<in> set addrs then Err BadListenAddr
           else if addrs = [] then Err NoListenAddr
           else Ok (Explicit (map the addrs)))"

definition validate_psiphon_config :: "AppConfig \<Rightarrow> (SvErr, string option) result" where
  "validate_psiphon_config cfg =
     (let country = trim (psiphon_country cfg) in
      if country = [] then Ok None
      else rbind (ok_or BadCountry (normalize_country country)) (\<lambda>c. Ok (Some c)))"

definition supervisor_start :: "fs \<Rightarrow> sv_state" where
  "supervisor_start fs = \<lparr>sv_cached = None, sv_failures = 0, sv_fs = fs\<rparr>"


datatype RunError = StartFailed SvErr | StateDirFailed IoErr | ListenerEnded | ListenerFailed IoErr | ListenerDied
  | RecoveryFailed SvErr | SignalFailed IoErr

text \<open>\<open>result\<close>: how the listener's task ended (\<open>Inl ()\<close>: it was aborted or panicked).\<close>

definition listener_result :: "(unit, (IoErr, unit) result) result \<Rightarrow> RunError" where
  "listener_result result =
     (case result of Inl _ \<Rightarrow> ListenerDied | Inr (Inl e) \<Rightarrow> ListenerFailed e | Inr (Inr _) \<Rightarrow> ListenerEnded)"

text \<open>
  The three things a running process waits for, each with the time it happens, if ever.  At the
  same instant either may be seen first; the order written here is one of them.
\<close>

definition run_service ::
  "(nat \<times> (unit, (IoErr, unit) result) result) option \<Rightarrow> (nat \<times> SvErr) option \<Rightarrow> (nat \<times> RunError) option" where
  "run_service listener recovery =
     (case (listener, recovery) of
        (None, None) \<Rightarrow> None
      | (Some (t, r), None) \<Rightarrow> Some (t, listener_result r)
      | (None, Some (u, e)) \<Rightarrow> Some (u, RecoveryFailed e)
      | (Some (t, r), Some (u, e)) \<Rightarrow> if t \<le> u then Some (t, listener_result r) else Some (u, RecoveryFailed e))"

definition run_start :: "AppConfig \<Rightarrow> bool \<Rightarrow> IoErr option \<Rightarrow> (RunError, ListenMode \<times> string option) result" where
  "run_start cfg reset_ok mkdir_fault =
     rbind (rmap_err StartFailed (parse_listen_mode (listen_addrs cfg) (listen_port cfg))) (\<lambda>mode.
     rbind (rmap_err StartFailed (validate_psiphon_config cfg)) (\<lambda>country.
       if \<not> reset_ok then Err (StartFailed HeartbeatFailed)
       else case mkdir_fault of Some e \<Rightarrow> Err (StateDirFailed e) | None \<Rightarrow> Ok (mode, country)))"

definition run_until :: "(nat \<times> (IoErr, unit) result) option \<Rightarrow> (nat \<times> RunError) option \<Rightarrow> (nat \<times> (RunError, unit) result) option" where
  "run_until signal service =
     (case (service, signal) of
        (None, None) \<Rightarrow> None
      | (Some (t, e), None) \<Rightarrow> Some (t, Err e)
      | (None, Some (u, r)) \<Rightarrow> Some (u, rmap_err SignalFailed r)
      | (Some (t, e), Some (u, r)) \<Rightarrow> if t \<le> u then Some (t, Err e) else Some (u, rmap_err SignalFailed r))"

section \<open>What a preparation leaves behind\<close>

definition true_probe :: "action \<Rightarrow> bool" where
  "true_probe a \<longleftrightarrow> (\<exists>env outbound timeout. a = Probed outbound (probe_outbound env outbound timeout))"

definition verified_in :: "action list \<Rightarrow> Outbound \<Rightarrow> bool" where
  "verified_in tr outbound \<longleftrightarrow> (\<exists>outcome. Probed outbound (Ok outcome) \<in> set tr)"

lemma verified_in_append [simp]: "verified_in (tr @ tr') outbound \<longleftrightarrow> verified_in tr outbound \<or> verified_in tr' outbound"
  by (auto simp: verified_in_def)

text \<open>An operation that only probes; \<open>verifies\<close>: and that has probed the outlet of its result.\<close>

definition probes_only :: "'a sv \<Rightarrow> bool" where
  "probes_only m \<longleftrightarrow> (\<forall>fs. list_all true_probe (fst (m fs)))"

definition verifies :: "('a \<Rightarrow> Outbound) \<Rightarrow> 'a sv \<Rightarrow> bool" where
  "verifies out m \<longleftrightarrow> probes_only m \<and> (\<forall>fs tr fs' x. m fs = (tr, fs', Inr x) \<longrightarrow> verified_in tr (out x))"

named_theorems sv_rules

lemma probes_only_return [sv_rules]: "probes_only (sv_return r)"
  by (simp add: probes_only_def sv_return_def)

lemma probes_only_files [sv_rules]: "probes_only (sv_files f)"
  by (simp add: probes_only_def sv_files_def)

lemma sv_bind_trace:
  assumes "sv_bind m f fs = (tr, fs', r)"
  obtains e where "m fs = (tr, fs', Inl e)" "r = Err e"
  | tr1 fs1 x tr2 where "m fs = (tr1, fs1, Inr x)" "f x fs1 = (tr2, fs', r)" "tr = tr1 @ tr2"
  using assms by (auto simp: sv_bind_def split: prod.splits sum.splits)

lemma probes_only_bind [sv_rules]:
  assumes "probes_only m" "\<And>x. probes_only (f x)"
  shows "probes_only (sv_bind m f)"
  unfolding probes_only_def
proof
  fix fs
  obtain tr fs' r where b: "sv_bind m f fs = (tr, fs', r)" by (metis prod_cases3)
  have m: "list_all true_probe (fst (m fs))" and f: "list_all true_probe (fst (f x fs1))" for x fs1
    using assms by (auto simp: probes_only_def)
  from b show "list_all true_probe (fst (sv_bind m f fs))"
  proof (cases rule: sv_bind_trace)
    case (1 e)
    then show ?thesis using m b by simp
  next
    case (2 tr1 fs1 x tr2)
    then show ?thesis using m f [of x fs1] b by simp
  qed
qed

lemma verifies_bind:
  assumes "probes_only m" "\<And>x. verifies out (f x)"
  shows "verifies out (sv_bind m f)"
  unfolding verifies_def
proof (intro conjI allI impI)
  show "probes_only (sv_bind m f)" using assms by (auto simp: verifies_def intro: sv_rules)
  fix fs tr fs' x assume "sv_bind m f fs = (tr, fs', Inr x)"
  then show "verified_in tr (out x)"
    by (cases rule: sv_bind_trace) (use assms(2) in \<open>auto simp: verifies_def\<close>)
qed

lemma verifies_probes: "verifies out m \<Longrightarrow> probes_only m"
  by (simp add: verifies_def)

lemma wait_loop_spec:
  "wait_loop cfg probes outbound le i t = (tr, r) \<Longrightarrow>
     list_all true_probe tr \<and> (is_ok r \<longrightarrow> verified_in tr outbound)"
proof (induction cfg probes outbound le i t arbitrary: tr r rule: wait_loop.induct)
  case (1 cfg probes outbound le i t)
  have tp: "true_probe (Probed outbound (probe_outbound (probes i) outbound (secs (startup_probe_timeout cfg))))"
    unfolding true_probe_def by blast
  show ?case
    using 1(2) 1(1) [OF refl refl refl] tp
    by (subst (asm) wait_loop.simps)
       (auto simp: Let_def verified_in_def split: if_splits sum.splits prod.splits)
qed


lemma verifies_wait: "verifies (\<lambda>_. outbound) (wait_for_warp cfg P outbound)"
  by (auto simp: verifies_def probes_only_def wait_for_warp_def dest: wait_loop_spec split: prod.splits)

lemma verifies_then:
  assumes "verifies (\<lambda>_. outbound) m" "\<And>x. probes_only (f x)"
    "\<And>x fs tr fs' y. f x fs = (tr, fs', Inr y) \<Longrightarrow> out y = outbound"
  shows "verifies out (sv_bind m f)"
  unfolding verifies_def
proof (intro conjI allI impI)
  show "probes_only (sv_bind m f)" using assms by (auto simp: verifies_def intro: sv_rules)
  fix fs tr fs' x assume "sv_bind m f fs = (tr, fs', Inr x)"
  then show "verified_in tr (out x)"
  proof (cases rule: sv_bind_trace)
    case (2 tr1 fs1 y tr2)
    then show ?thesis using assms(1) assms(3) [OF 2(2)] by (auto simp: verifies_def)
  qed simp
qed

lemma probes_only_ensure_masque: "probes_only (ensure_masque_credentials cfg P)"
  unfolding ensure_masque_credentials_def
  by (intro sv_rules)
     (auto simp: probes_only_def sv_bind_def sv_return_def sv_files_def split: sum.splits prod.splits)

lemma probes_only_ensure_account: "probes_only (ensure_account cfg P)"
  by (auto simp: probes_only_def ensure_account_def split: prod.splits)

lemma verifies_try_masque: "verifies id (try_masque cfg P)"
  unfolding try_masque_def
  by (intro verifies_bind verifies_then [OF verifies_wait] probes_only_ensure_masque sv_rules)
     (simp add: sv_return_def)

lemma verifies_region_attempt: "verifies id (region_attempt cfg P base creds country entry)"
  unfolding region_attempt_def
  by (intro verifies_bind verifies_then [OF verifies_wait] sv_rules) (simp add: sv_return_def)

lemma verifies_try_wg_candidate: "verifies id (try_wg_candidate cfg P account ep)"
  unfolding try_wg_candidate_def
  by (intro verifies_bind verifies_then [OF verifies_wait] sv_rules)
     (auto simp: sv_bind_def sv_return_def split: prod.splits sum.splits)

lemma verifiesD:
  assumes "verifies out m" "m fs = (tr, fs', r)"
  shows "list_all true_probe tr" "r = Inr x \<Longrightarrow> verified_in tr (out x)"
  using assms by (auto simp: verifies_def probes_only_def) (metis fst_conv)

lemma verifiesI:
  assumes "\<And>fs tr fs' r. m fs = (tr, fs', r) \<Longrightarrow> list_all true_probe tr \<and> (\<forall>x. r = Inr x \<longrightarrow> verified_in tr (out x))"
  shows "verifies out m"
proof -
  have "list_all true_probe (fst (m fs))" for fs
    using assms [of fs "fst (m fs)" "fst (snd (m fs))" "snd (snd (m fs))"] by simp
  then show ?thesis using assms by (simp add: verifies_def probes_only_def)
qed

lemma verifies_wg_loop: "verifies sel_outbound (wg_loop cfg P account n eps store)"
proof (induction eps arbitrary: n store)
  case Nil
  then show ?case by (auto simp: verifies_def sv_return_def probes_only_def)
next
  case (Cons ep rest)
  show ?case
  proof (rule verifiesI)
    fix fs tr fs' r
    assume w: "wg_loop cfg P account n (ep # rest) store fs = (tr, fs', r)"
    obtain tr1 fs1 r1 where t: "try_wg_candidate cfg P account ep fs = (tr1, fs1, r1)" by (metis prod_cases3)
    note v = verifiesD [OF verifies_try_wg_candidate t]
    show "list_all true_probe tr \<and> (\<forall>x. r = Inr x \<longrightarrow> verified_in tr (sel_outbound x))"
    proof (cases r1)
      case (Inr outbound)
      then show ?thesis using w t v by (auto simp: rbind_Inr_iff split: prod.splits)
    next
      case (Inl e)
      obtain fs2 store2 r2 where m: "mark_cooldown (pr_state_json P) (pr_ep_faults P n) (pr_ep_now P n) ep
          (startup_endpoint_cooldown cfg) store fs1 = (fs2, store2, r2)" by (metis prod_cases3)
      obtain tr3 fs3 r3 where l: "wg_loop cfg P account (Suc n) rest store2 fs2 = (tr3, fs3, r3)" by (metis prod_cases3)
      show ?thesis
      proof (cases r2)
        case (Inr u)
        from verifiesD [OF Cons.IH l] show ?thesis using w t m l v Inl Inr by auto
      qed (use w t m v Inl in auto)
    qed
  qed
qed


lemma verifies_region_loop: "verifies snd (region_loop (region_attempt cfg P base creds country) entries is le)"
proof (induction "is" arbitrary: le)
  case Nil
  then show ?case by (auto simp: verifies_def sv_return_def probes_only_def)
next
  case (Cons i rest)
  show ?case
  proof (rule verifiesI)
    fix fs tr fs' r
    assume w: "region_loop (region_attempt cfg P base creds country) entries (i # rest) le fs = (tr, fs', r)"
    obtain tr1 fs1 r1 where t: "region_attempt cfg P base creds country (entries ! i) fs = (tr1, fs1, r1)"
      by (metis prod_cases3)
    note v = verifiesD [OF verifies_region_attempt t]
    show "list_all true_probe tr \<and> (\<forall>x. r = Inr x \<longrightarrow> verified_in tr (snd x))"
    proof (cases r1)
      case (Inr outbound)
      then show ?thesis using w t v by auto
    next
      case (Inl e)
      obtain tr3 fs3 r3 where l: "region_loop (region_attempt cfg P base creds country) entries rest (Some e) fs1 = (tr3, fs3, r3)"
        by (metis prod_cases3)
      from verifiesD [OF Cons.IH l] show ?thesis using w t l v Inl by auto
    qed
  qed
qed

lemma verifies_prepare_base: "verifies sel_outbound (prepare_base cfg P)"
proof (rule verifiesI)
  have wg: "verifies sel_outbound (prepare_wireguard cfg P)"
    unfolding prepare_wireguard_def
    by (intro verifies_bind probes_only_ensure_account sv_rules)
       (auto simp: Let_def verifies_wg_loop, auto simp: verifies_def sv_return_def probes_only_def)
  fix fs tr fs' r
  assume p: "prepare_base cfg P fs = (tr, fs', r)"
  obtain tr1 fs1 r1 where t: "try_masque cfg P fs = (tr1, fs1, r1)" by (metis prod_cases3)
  obtain tr2 fs2 r2 where w: "prepare_wireguard cfg P fs1 = (tr2, fs2, r2)" by (metis prod_cases3)
  note v = verifiesD [OF verifies_try_masque t] verifiesD [OF wg w]
  show "list_all true_probe tr \<and> (\<forall>x. r = Inr x \<longrightarrow> verified_in tr (sel_outbound x))"
  proof (cases "enable_masque cfg")
    case True
    then show ?thesis using p t w v by (cases r1) (auto simp: prepare_base_def)
  next
    case False
    then show ?thesis using verifiesD [OF wg] p by (auto simp: prepare_base_def)
  qed
qed

lemma prepare_region_spec:
  assumes "prepare_region cfg P base country cached fs = (tr, fs', cached', r)"
  shows "list_all true_probe tr \<and> (\<forall>out. r = Inr out \<longrightarrow> verified_in tr out)"
proof -
  obtain tr1 fs1 r1 where e: "ensure_masque_credentials cfg P fs = (tr1, fs1, r1)" by (metis prod_cases3)
  have p: "list_all true_probe tr1"
    using probes_only_ensure_masque [of cfg P] e unfolding probes_only_def by (metis fst_conv)
  show ?thesis
  proof (cases r1)
    case (Inr creds)
    show ?thesis
    proof (cases "fresh_cache P base country cached")
      case (Inr cache)
      obtain tr2 fs2 r2 where l: "region_loop (region_attempt cfg P base creds country) (cc_entries cache)
          (take 8 (region_order (pr_shuffle P) cache)) None fs1 = (tr2, fs2, r2)" by (metis prod_cases3)
      show ?thesis
        using assms e l p Inr \<open>r1 = Inr creds\<close> verifiesD [OF verifies_region_loop l]
        by (cases r2) (auto simp: prepare_region_def split: prod.splits)
    qed (use assms e p Inr in \<open>auto simp: prepare_region_def\<close>)
  qed (use assms e p in \<open>auto simp: prepare_region_def\<close>)
qed

lemma prepare_spec:
  assumes "prepare cfg country P cached fs = (tr, fs', cached', r)"
  shows "list_all true_probe tr \<and> (\<forall>sel out. r = Inr (sel, out) \<longrightarrow> verified_in tr out)"
proof -
  obtain tr1 fs1 r1 where b: "prepare_base cfg P fs = (tr1, fs1, r1)" by (metis prod_cases3)
  note v = verifiesD [OF verifies_prepare_base b]
  show ?thesis
  proof (cases r1)
    case (Inr sel)
    show ?thesis
    proof (cases country)
      case None
      then show ?thesis using assms b v Inr by (auto simp: prepare_def)
    next
      case (Some c)
      obtain tr2 fs2 cached2 r2 where g: "prepare_region cfg P (sel_outbound sel) c cached fs1 = (tr2, fs2, cached2, r2)"
        by (metis prod_cases4)
      show ?thesis
        using assms b v Inr Some g prepare_region_spec [OF g] by (auto simp: prepare_def rbind_Inr_iff)
    qed
  qed (use assms b v in \<open>auto simp: prepare_def\<close>)
qed

lemma budgeted_spec:
  assumes "budgeted cfg country rd cached fs = (tr, fs', cached', r)"
  shows "list_all true_probe tr \<and> (\<forall>sel out. r = Inr (sel, out) \<longrightarrow> verified_in tr out)"
proof -
  obtain tr1 fs1 c1 r1 where p: "prepare cfg country (rd_prep rd) cached fs = (tr1, fs1, c1, r1)" by (metis prod_cases4)
  show ?thesis
    using assms p prepare_spec [OF p]
    by (auto simp: budgeted_def list_all_iff split: if_splits dest: in_set_takeD)
qed


section \<open>The order of actions\<close>

text \<open>
  The contract of the loop as a machine reading its actions.  \<open>pub\<close> is the published outlet,
  \<open>good\<close> the outlets with a successful probe since the heartbeat was last reset, \<open>fails\<close> the waits
  since the last publication, and \<open>stale\<close> says that an outlet has been withdrawn and the heartbeat
  not yet reset, which must be the next thing to happen.
\<close>

record contract =
  pub :: "Outbound option"
  good :: "Outbound set"
  fails :: nat
  stale :: bool

definition contract_start :: contract where
  "contract_start = \<lparr>pub = None, good = {}, fails = 0, stale = False\<rparr>"

fun permitted :: "contract \<Rightarrow> action \<Rightarrow> bool" where
  "permitted c (Probed out r) = (true_probe (Probed out r) \<and> (pub c = None \<or> pub c = Some out))"
| "permitted c Invalidate = (pub c = None)"
| "permitted c (Publish out) = (pub c = None \<and> out \<in> good c)"
| "permitted c RecordSuccess = (\<exists>out. pub c = Some out \<and> out \<in> good c)"
| "permitted c Withdraw = (pub c \<noteq> None)"
| "permitted c (Cooldown ep) = (pub c = None)"
| "permitted c (Sleep ms) = (pub c = None \<and> 1000 \<le> ms \<and> ms \<le> 1000 * 2 ^ min (Suc (fails c)) 5)"

definition allowed :: "contract \<Rightarrow> action \<Rightarrow> bool" where
  "allowed c a \<longleftrightarrow> (stale c \<longrightarrow> a = Invalidate) \<and> permitted c a"

fun after :: "contract \<Rightarrow> action \<Rightarrow> contract" where
  "after c (Probed out (Inr _)) = c\<lparr>good := insert out (good c)\<rparr>"
| "after c Invalidate = c\<lparr>good := {}, stale := False\<rparr>"
| "after c (Publish out) = c\<lparr>pub := Some out, fails := 0\<rparr>"
| "after c Withdraw = c\<lparr>pub := None, stale := True\<rparr>"
| "after c (Sleep ms) = c\<lparr>fails := Suc (fails c)\<rparr>"
| "after c _ = c"

fun contract_run :: "contract \<Rightarrow> action list \<Rightarrow> contract option" where
  "contract_run c [] = Some c"
| "contract_run c (a # tr) = (if allowed c a then contract_run (after c a) tr else None)"

lemma contract_run_append:
  "contract_run c (tr @ tr') = (case contract_run c tr of None \<Rightarrow> None | Some c \<Rightarrow> contract_run c tr')"
  by (induction tr arbitrary: c) auto

definition probed_good :: "action list \<Rightarrow> Outbound set" where
  "probed_good tr = {out. verified_in tr out}"

lemma contract_run_probes:
  "list_all true_probe tr \<Longrightarrow> pub c = None \<Longrightarrow> \<not> stale c \<Longrightarrow>
     contract_run c tr = Some (c\<lparr>good := good c \<union> probed_good tr\<rparr>)"
proof (induction tr arbitrary: c)
  case Nil
  then show ?case by (simp add: probed_good_def verified_in_def)
next
  case (Cons a tr)
  obtain out r where a: "a = Probed out r" "true_probe (Probed out r)"
    using Cons.prems by (auto simp: true_probe_def)
  have "probed_good (a # tr) = (if is_ok r then {out} else {}) \<union> probed_good tr"
    using a by (cases r) (auto simp: probed_good_def verified_in_def)
  then show ?case using Cons a by (cases r) (auto simp: allowed_def insert_commute Un_commute Un_left_commute)
qed

lemma watch_loop_contract:
  "watch_loop cfg out rec evs = (tr, over) \<Longrightarrow> pub c = Some out \<Longrightarrow> out \<in> good c \<Longrightarrow> \<not> stale c \<Longrightarrow> contract_run c tr = Some c"
proof (induction cfg out rec evs arbitrary: tr over rule: watch_loop.induct)
  case (3 cfg out rec env evs)
  let ?r = "probe_outbound env out (secs (healthcheck_probe_timeout cfg))"
  have tp: "true_probe (Probed out ?r)" unfolding true_probe_def by blast
  show ?case
  proof (cases ?r)
    case (Inr oc)
    obtain tr1 over1 where l: "watch_loop cfg out (on_success rec) evs = (tr1, over1)" by fastforce
    have "contract_run c tr1 = Some c" by (rule 3(2) [OF refl Inr l 3(4,5,6)])
    moreover have "c\<lparr>good := insert out (good c)\<rparr> = c" using 3(5) by (simp add: insert_absorb)
    ultimately show ?thesis using 3(3,4,5,6) l tp Inr by (auto simp: allowed_def)
  next
    case (Inl e)
    obtain act rec' where f: "on_failure rec = (act, rec')" by fastforce
    obtain tr1 over1 where l: "watch_loop cfg out rec' evs = (tr1, over1)" by fastforce
    show ?thesis
    proof (cases act)
      case Continue
      have "contract_run c tr1 = Some c" by (rule 3(1) [OF refl Inl f [symmetric] Continue l 3(4,5,6)])
      then show ?thesis using 3(3,4,5,6) l tp Inl f Continue by (auto simp: allowed_def)
    next
      case RequestExit
      then show ?thesis using 3(3,4,5,6) tp Inl f by (auto simp: allowed_def)
    qed
  qed
qed auto

lemma recovery_delay_bounds:
  assumes "failures \<noteq> 0"
  shows "1000 \<le> recovery_delay failures pick" "recovery_delay failures pick \<le> 1000 * 2 ^ min (unat failures) 5"
proof -
  have m: "unat (min failures 5) = min (unat failures) 5"
    by (simp add: min_def word_le_nat_alt)
  define ceiling where "ceiling = (2 :: nat) ^ min (unat failures) 5"
  have c: "1 \<le> ceiling" by (simp add: ceiling_def)
  have r: "recovery_delay failures pick = 1000 + pick mod (ceiling * 1000 - 1000 + 1)"
    by (simp add: recovery_delay_def m ceiling_def)
  have "pick mod (ceiling * 1000 - 1000 + 1) < ceiling * 1000 - 1000 + 1" by (rule mod_less_divisor) simp
  then have "recovery_delay failures pick \<le> 1000 * ceiling" using r c by linarith
  then show "recovery_delay failures pick \<le> 1000 * 2 ^ min (unat failures) 5" by (simp add: ceiling_def)
  show "1000 \<le> recovery_delay failures pick" by (simp add: r)
qed

text \<open>Between rounds nothing is published, and the counter and the machine agree up to five.\<close>

definition at_rest :: "sv_state \<Rightarrow> contract \<Rightarrow> bool" where
  "at_rest st c \<longleftrightarrow> pub c = None \<and> \<not> stale c \<and> min (unat (sv_failures st)) 5 = min (fails c) 5"

lemma back_off_contract:
  assumes "back_off rd cached failures fs = (tr, e)" "pub c = None" "\<not> stale c" "min (unat failures) 5 = min (fails c) 5"
  shows "\<exists>c' st'. contract_run c tr = Some c' \<and> e = Next st' \<and> at_rest st' c'"
proof -
  let ?f = "saturating_add failures 1"
  have n: "unat ?f = min (unat failures + 1) (2 ^ 32 - 1)" by (simp add: unat_saturating_add)
  then have "unat ?f \<noteq> 0" by simp
  then have "?f \<noteq> 0" by auto
  moreover have m: "min (unat ?f) 5 = min (Suc (fails c)) 5" using n assms(4) by (auto simp: min_def split: if_splits)
  ultimately have "1000 \<le> recovery_delay ?f (rd_pick rd)" "recovery_delay ?f (rd_pick rd) \<le> 1000 * 2 ^ min (Suc (fails c)) 5"
    using recovery_delay_bounds [of ?f "rd_pick rd"] by simp_all
  then show ?thesis
    using assms m by (auto simp: back_off_def Let_def at_rest_def allowed_def)
qed

lemma cool_down_quiet: "cool_down cfg rd ep fs = (tr, fs') \<Longrightarrow> pub c = None \<Longrightarrow> \<not> stale c \<Longrightarrow> contract_run c tr = Some c"
  by (auto simp: cool_down_def allowed_def split: prod.splits sum.splits if_splits)

lemma serve_outlet_contract:
  assumes "serve_outlet cfg country rd cached sel out fs = (tr, e)" "pub c = None" "out \<in> good c" "\<not> stale c"
  shows "\<exists>c'. contract_run c tr = Some c' \<and> (\<forall>st'. e = Next st' \<longrightarrow> at_rest st' c')"
proof -
  define thr where "thr = (if country = None \<and> wg_endpoint sel \<noteq> None then WG_HEALTH_FAILURE_THRESHOLD
      else healthcheck_failure_threshold cfg)"
  obtain tr1 over where w: "watch_outbound cfg out thr (rd_watch rd) = (tr1, over)" by fastforce
  let ?up = "c\<lparr>pub := Some out, fails := 0\<rparr>"
  have up: "contract_run ?up tr1 = Some ?up"
    using w assms(3,4) by (auto simp: watch_outbound_def intro: watch_loop_contract)
  have head: "contract_run c ([Publish out, RecordSuccess] @ tr1 @ rest) = contract_run ?up rest" for rest
    using up assms(2,3,4) by (simp add: contract_run_append allowed_def)
  show ?thesis
  proof (cases "over \<and> rd_reset_after rd")
    case True
    define cooled where "cooled = (if country = None then
        (case wg_endpoint sel of None \<Rightarrow> ([], fs) | Some ep \<Rightarrow> cool_down cfg rd ep fs) else ([], fs))"
    obtain cool fs1 where k: "cooled = (cool, fs1)" by fastforce
    obtain rest e1 where b: "back_off rd cached 0 fs1 = (rest, e1)" by fastforce
    have tr: "tr = [Publish out, RecordSuccess] @ tr1 @ [Withdraw, Invalidate] @ cool @ rest" "e = e1"
      using assms(1) w k b True unfolding serve_outlet_def thr_def [symmetric] cooled_def [symmetric] by simp_all
    let ?down = "?up\<lparr>pub := None, good := {}, stale := False\<rparr>"
    have q: "contract_run ?down cool = Some ?down"
      using k by (auto simp: cooled_def split: if_splits option.splits dest: cool_down_quiet [where c = ?down])
    obtain c' st' where "contract_run ?down rest = Some c'" "e1 = Next st'" "at_rest st' c'"
      using back_off_contract [OF b, of ?down] by auto
    then show ?thesis using head [of "[Withdraw, Invalidate] @ cool @ rest"] tr q assms(4)
      by (auto simp: contract_run_append allowed_def)
  next
    case False
    have "e = Watching \<and> tr = [Publish out, RecordSuccess] @ tr1 @ []
        \<or> e = Stopped HeartbeatFailed \<and> tr = [Publish out, RecordSuccess] @ tr1 @ [Withdraw]"
      using assms(1) w False unfolding serve_outlet_def thr_def [symmetric] by (cases over) auto
    then show ?thesis using head [of "[]"] head [of "[Withdraw]"] assms(4) by (auto simp: allowed_def)
  qed
qed

lemma recover_round_contract:
  assumes "recover_round cfg country rd st = (tr, e)" "at_rest st c"
  shows "\<exists>c'. contract_run c tr = Some c' \<and> (\<forall>st'. e = Next st' \<longrightarrow> at_rest st' c')"
proof (cases "rd_reset rd")
  case True
  obtain tr1 fs1 cached r where b: "budgeted cfg country rd (sv_cached st) (sv_fs st) = (tr1, fs1, cached, r)"
    by (metis prod_cases4)
  note s = budgeted_spec [OF b]
  let ?c = "c\<lparr>stale := False, good := probed_good tr1\<rparr>"
  have p: "pub c = None" "\<not> stale c" using assms(2) by (simp_all add: at_rest_def)
  have head: "contract_run c (Invalidate # tr1 @ rest) = contract_run ?c rest" for rest
    using contract_run_probes [of tr1 "c\<lparr>good := {}, stale := False\<rparr>"] s p by (simp add: contract_run_append allowed_def)
  show ?thesis
  proof (cases r)
    case (Inl err)
    obtain rest e1 where k: "back_off rd cached (sv_failures st) fs1 = (rest, e1)" by fastforce
    have "tr = Invalidate # tr1 @ rest" "e = e1" using assms(1) True b Inl k by (auto simp: recover_round_def)
    then show ?thesis using back_off_contract [OF k, of ?c] assms(2) head [of rest] by (auto simp: at_rest_def)
  next
    case (Inr x)
    obtain sel out where x: "x = (sel, out)" by fastforce
    obtain rest e1 where k: "serve_outlet cfg country rd cached sel out fs1 = (rest, e1)" by fastforce
    have "tr = Invalidate # tr1 @ rest" "e = e1" using assms(1) True b Inr x k by (auto simp: recover_round_def)
    moreover have "out \<in> good ?c" using s Inr x by (simp add: probed_good_def)
    ultimately show ?thesis using serve_outlet_contract [OF k, of ?c] p head [of rest] by auto
  qed
qed (use assms in \<open>auto simp: recover_round_def\<close>)

lemma recover_contract:
  "recover_outbound cfg country rds st = (tr, e) \<Longrightarrow> at_rest st c \<Longrightarrow> contract_run c tr \<noteq> None"
proof (induction rds arbitrary: st tr e c)
  case (Cons rd rds)
  obtain tr1 e1 where r: "recover_round cfg country rd st = (tr1, e1)" by fastforce
  obtain c1 where c: "contract_run c tr1 = Some c1" "\<And>st'. e1 = Next st' \<Longrightarrow> at_rest st' c1"
    using recover_round_contract [OF r Cons.prems(2)] by blast
  show ?case
  proof (cases e1)
    case (Next st1)
    obtain tr2 e2 where l: "recover_outbound cfg country rds st1 = (tr2, e2)" by fastforce
    have "contract_run c1 tr2 \<noteq> None" using Cons.IH [OF l c(2) [OF Next]] .
    then show ?thesis using Cons.prems(1) r l Next c(1) by (auto simp: contract_run_append)
  qed (use Cons.prems(1) r c in auto)
qed simp


section \<open>The heartbeat file\<close>

text \<open>
  The heartbeat after a run of actions: \<open>stamp i\<close> is the time of the \<open>i\<close>-th action and \<open>kept i\<close>
  whether a recorded success reached the file, which the loop does not depend on.
\<close>

fun heartbeat_after :: "(nat \<Rightarrow> u64) \<Rightarrow> (nat \<Rightarrow> bool) \<Rightarrow> nat \<Rightarrow> action list \<Rightarrow> string option \<Rightarrow> string option" where
  "heartbeat_after stamp kept i [] prev = prev"
| "heartbeat_after stamp kept i (a # tr) prev =
     heartbeat_after stamp kept (Suc i) tr
       (case a of
          Invalidate \<Rightarrow> Some invalidate_body
        | RecordSuccess \<Rightarrow> if kept i then Some (record_success_body (stamp i)) else prev
        | _ \<Rightarrow> prev)"

lemma heartbeat_after_snoc:
  "heartbeat_after stamp kept n (tr @ [a]) prev =
     (case a of
        Invalidate \<Rightarrow> Some invalidate_body
      | RecordSuccess \<Rightarrow>
          if kept (n + length tr) then Some (record_success_body (stamp (n + length tr)))
          else heartbeat_after stamp kept n tr prev
      | _ \<Rightarrow> heartbeat_after stamp kept n tr prev)"
  by (induction tr arbitrary: n prev) (auto split: action.splits)

lemma heartbeat_after_cases:
  obtains "heartbeat_after stamp kept n tr None = None"
  | "heartbeat_after stamp kept n tr None = Some invalidate_body"
  | i where "i < length tr" "tr ! i = RecordSuccess"
      "heartbeat_after stamp kept n tr None = Some (record_success_body (stamp (n + i)))"
      "Invalidate \<notin> set (drop i tr)"
proof (induction tr arbitrary: thesis rule: rev_induct)
  case Nil
  show ?case by (rule Nil(1)) simp
next
  case (snoc a tr)
  show ?case
  proof (cases "a = Invalidate \<or> a = RecordSuccess \<and> kept (n + length tr)")
    case True
    then show ?thesis
    proof
      assume "a = Invalidate"
      then show ?thesis using snoc.prems(2) by (simp add: heartbeat_after_snoc)
    next
      assume "a = RecordSuccess \<and> kept (n + length tr)"
      then show ?thesis using snoc.prems(3) [of "length tr"] by (simp add: heartbeat_after_snoc)
    qed
  next
    case False
    then have eq: "heartbeat_after stamp kept n (tr @ [a]) None = heartbeat_after stamp kept n tr None"
      by (auto simp: heartbeat_after_snoc split: action.splits)
    show ?thesis
    proof (rule snoc.IH)
      fix i assume i: "i < length tr" "tr ! i = RecordSuccess"
        "heartbeat_after stamp kept n tr None = Some (record_success_body (stamp (n + i)))" "Invalidate \<notin> set (drop i tr)"
      show thesis by (rule snoc.prems(3) [of i]) (use i False eq in \<open>auto simp: nth_append\<close>)
    qed (use snoc.prems eq in auto)
  qed
qed

lemma contract_run_at:
  assumes "contract_run c tr \<noteq> None" "i < length tr"
  shows "\<exists>c'. contract_run c (take i tr) = Some c' \<and> allowed c' (tr ! i)"
proof -
  have "contract_run c (take i tr @ tr ! i # drop (Suc i) tr) \<noteq> None"
    using assms by (simp add: id_take_nth_drop [symmetric])
  then show ?thesis by (auto simp: contract_run_append split: option.splits if_splits)
qed

text \<open>Where the heartbeat is not reset any more, an outlet is withdrawn only as the last action.\<close>

lemma withdrawn_last:
  assumes "contract_run c tr \<noteq> None" "Invalidate \<notin> set (drop i tr)"
  shows "Withdraw \<notin> set (butlast (drop i tr))"
proof
  assume "Withdraw \<in> set (butlast (drop i tr))"
  then obtain j where "j < length (butlast (drop i tr))" "butlast (drop i tr) ! j = Withdraw"
    by (auto simp: in_set_conv_nth)
  then have j: "Suc (i + j) < length tr" "tr ! (i + j) = Withdraw"
    by (auto simp: nth_butlast)
  obtain c1 where c1: "contract_run c (take (Suc (i + j)) tr) = Some c1" "allowed c1 (tr ! Suc (i + j))"
    using contract_run_at [OF assms(1) j(1)] by blast
  have "take (Suc (i + j)) tr = take (i + j) tr @ [Withdraw]" using j by (simp add: take_Suc_conv_app_nth)
  with c1(1) have "stale c1" by (auto simp: contract_run_append split: option.splits if_splits)
  with c1(2) have "tr ! Suc (i + j) = Invalidate" by (simp add: allowed_def)
  moreover have "tr ! Suc (i + j) \<in> set (drop i tr)"
    using j(1) nth_mem [of "Suc j" "drop i tr"] by simp
  ultimately show False using assms(2) by simp
qed

lemma contract_run_good:
  assumes "contract_run c tr = Some c'" "out \<in> good c'"
  shows "out \<in> good c \<or> (\<exists>env timeout outcome. Probed out (Ok outcome) \<in> set tr \<and> probe_outbound env out timeout = Ok outcome)"
  using assms
proof (induction tr arbitrary: c)
  case (Cons a tr)
  then have al: "allowed c a" "contract_run (after c a) tr = Some c'" by (auto split: if_splits)
  from Cons.IH [OF al(2) Cons.prems(2)] show ?case
  proof
    assume "out \<in> good (after c a)"
    then show ?thesis using al(1)
      by (cases "(c, a)" rule: after.cases) (auto simp: allowed_def true_probe_def dest: sym)
  qed auto
qed simp

section \<open>What listeners see\<close>

fun published_of :: "action list \<Rightarrow> Outbound option list" where
  "published_of [] = []"
| "published_of (Publish out # tr) = Some out # published_of tr"
| "published_of (Withdraw # tr) = None # published_of tr"
| "published_of (_ # tr) = published_of tr"

lemma published_of_Some: "Some out \<in> set (published_of tr) \<Longrightarrow> Publish out \<in> set tr"
  by (induction tr rule: published_of.induct) auto

section \<open>Giving up\<close>

definition probe_ok :: "AppConfig \<Rightarrow> Outbound \<Rightarrow> watch_event \<Rightarrow> bool" where
  "probe_ok cfg out ev =
     (case ev of Terminated \<Rightarrow> False
      | ProbeDue env \<Rightarrow> is_ok (probe_outbound env out (secs (healthcheck_probe_timeout cfg))))"

lemma watch_loop_over:
  "snd (watch_loop cfg out rec evs) \<longleftrightarrow> Terminated \<in> set evs \<or> recovery_run rec (map (probe_ok cfg out) evs) \<noteq> None"
proof (induction cfg out rec evs rule: watch_loop.induct)
  case (3 cfg out rec env evs)
  let ?r = "probe_outbound env out (secs (healthcheck_probe_timeout cfg))"
  obtain act rec' where f: "on_failure rec = (act, rec')" by fastforce
  show ?case
  proof (cases ?r)
    case (Inr oc)
    then show ?thesis
      using 3(2) [OF refl Inr] by (cases "watch_loop cfg out (on_success rec) evs") (simp add: probe_ok_def)
  next
    case (Inl e)
    show ?thesis
    proof (cases act)
      case Continue
      then show ?thesis using 3(1) [OF refl Inl f [symmetric] Continue] Inl f
        by (cases "watch_loop cfg out rec' evs") (simp add: probe_ok_def)
    qed (use Inl f in \<open>simp add: probe_ok_def\<close>)
  qed
qed (simp_all add: probe_ok_def)

section \<open>An instance\<close>

text \<open>A registered device whose MASQUE tunnel comes up at once and answers every probe.\<close>

definition warp_https :: https_env where
  "warp_https = \<lparr>https_tls = (\<lambda>_ s. Some s), https_send = (\<lambda>_ _ _. Some \<lparr>reply_status = 200, reply_length = None,
     reply_frames = [DataFrame (str_bytes (trace_body [(''warp'', ''on'')]))]\<rparr>), https_took = 5\<rparr>"

definition demo_prep :: "(bytes, bytes) prep" where
  "demo_prep = \<lparr>pr_b64 = pair_b64, pr_crypto = bytes_crypto,
     pr_account_json = \<lparr>has_account = \<lambda>_. False, account_of = \<lambda>_. None, account_text = \<lambda>_. [], account_of_slice = \<lambda>_. None\<rparr>,
     pr_reg_json = \<lparr>result_of = \<lambda>_. None, reg_text = \<lambda>_. [], reg_of = \<lambda>_. Some \<lparr>reg_id = ''dev'', reg_token = ''t'',
       reg_account = ''a'', key_type = [], tunnel_type = ''masque'', reg_private_key = b64_encode pair_b64 [3],
       endpoint_v4 = ''1.2.3.4'', endpoint_v6 = [], endpoint_ports = [], reg_peer_public_key = [],
       assigned_ipv4 = ''10.0.0.2'', assigned_ipv6 = ''fd00::2''\<rparr>, ident_of = \<lambda>_. None\<rparr>,
     pr_state_json = \<lparr>state_of = \<lambda>_. None, state_text = \<lambda>_. []\<rparr>, pr_faults = (no_faults, 0),
     pr_ep_faults = \<lambda>_. (None, no_faults, 0), pr_ep_readable = True, pr_ep_now = \<lambda>_. 0, pr_look_now = \<lambda>_. 0,
     pr_teams_api = \<lambda>_ _ _ _. NoReply [], pr_teams_keys = ([], []), pr_teams_ids = ([], []), pr_teams_now = \<lambda>_. (0, 0, 0, 0, 0, 0),
     pr_masque_api = \<lambda>_. NoResponse, pr_masque_now = (0, []), pr_load_now = (0, []), pr_masque_tos = [], pr_masque_rnd = ([], []), pr_masque_key = [],
     pr_lookup = \<lambda>_ _. None, pr_masque_new = \<lambda>_. Some demo_upstream, pr_wg_new = \<lambda>_ _ _. None,
     pr_probes = \<lambda>_ _. warp_https, pr_list_env = demo_https, pr_list_lib = demo_list, pr_list_key = ''k'', pr_clock = 0,
     pr_shuffle = id, pr_ssh = \<lambda>_. (0, \<lparr>ssh_open = \<lambda>_. False, ssh_auth = \<lambda>_ _ _. None, ssh_handshake = None,
       json_ok = \<lambda>_. True, password_json = id\<rparr>), pr_h2_new = \<lambda>_ _. None\<rparr>"

definition demo_round :: "(bytes, bytes) round" where
  "demo_round = \<lparr>rd_reset = True, rd_prep = demo_prep, rd_took = 5, rd_cut = (0, \<lambda>_. None), rd_watch = [], rd_reset_after = True,
     rd_cool_load = ((None, no_faults, 0), True, 0), rd_cool_mark = ((None, no_faults, 0), 0), rd_pick = 0\<rparr>"

definition demo_config :: AppConfig where
  "demo_config = \<lparr>state_dir = ''d'', wg_conf = join_path ''d'' ''wg'', account_json_file = join_path ''d'' ''a'',
     endpoint_state_file = join_path ''d'' ''e'', reg_json_file = join_path ''d'' ''r'', cfg_teams_token = [],
     endpoint_candidates = [], enable_masque = True, cfg_trick = NoTrick, listen_addrs = ''auto'', listen_port = 1080,
     psiphon_country = [], register_retries = 1, register_retry_delay = 1, startup_probe_delay = 1,
     startup_probe_timeout = 10, startup_ready_timeout = 60, startup_endpoint_cooldown = 60,
     healthcheck_probe_timeout = 63, healthcheck_failure_threshold = 3, healthcheck_interval = 60\<rparr>"

lemma warp_probe: "5 \<le> timeout \<Longrightarrow>
  probe_outbound warp_https demo_upstream timeout = Ok \<lparr>outcome_ip = None, outcome_loc = None\<rparr>"
proof -
  assume t: "5 \<le> timeout"
  have "parse_trace (trace_body [(''warp'', ''on'')]) = Ok \<lparr>outcome_ip = None, outcome_loc = None\<rparr>"
    by (subst parse_trace_reads_fields) (simp_all add: trace_entry_def)
  moreover have "from_utf8 (str_bytes (trace_body [(''warp'', ''on'')])) = Some (trace_body [(''warp'', ''on'')])"
    by code_simp
  ultimately show ?thesis
    using t by (simp add: probe_outbound_def https_get_def get_inner_def warp_https_def demo_upstream_def is_success_def
        announced_too_large_def MAX_TRACE_BYTES_def trace_of_body_def ok_or_def rmap_err_def trace_body_def trace_line_def str_bytes_def)
qed

lemma demo_recovers:
  assumes "files (join_path ''d'' ''r'') = Some (m, data)"
  shows "recover_outbound demo_config None [demo_round] (supervisor_start files) =
    ([Invalidate, Probed demo_upstream (Ok \<lparr>outcome_ip = None, outcome_loc = None\<rparr>), Publish demo_upstream, RecordSuccess], Watching)"
proof -
  have "\<exists>creds. load pair_b64 bytes_crypto (pr_reg_json demo_prep) (0, []) files (join_path ''d'' ''r'') = Ok creds"
    using assms pair.decode_encode [of "[3]"]
    by (simp add: load_def demo_prep_def build_credentials_def build_client_cert_def bytes_crypto_def ok_or_def)
  then obtain creds where l: "load pair_b64 bytes_crypto (pr_reg_json demo_prep) (0, []) files (join_path ''d'' ''r'') = Ok creds" ..
  have e: "ensure_masque_credentials demo_config demo_prep files = ([], files, Ok creds)"
    using l assms by (simp add: ensure_masque_credentials_def sv_bind_def sv_files_def demo_config_def, simp add: demo_prep_def)
  have w: "wait_loop demo_config (\<lambda>_. warp_https) demo_upstream None 0 0 =
      ([Probed demo_upstream (Ok \<lparr>outcome_ip = None, outcome_loc = None\<rparr>)], Ok ())"
    by (subst wait_loop.simps) (simp add: warp_probe secs_def demo_config_def)
  have t: "try_masque demo_config demo_prep files =
      ([Probed demo_upstream (Ok \<lparr>outcome_ip = None, outcome_loc = None\<rparr>)], files, Ok demo_upstream)"
    using e w by (simp add: try_masque_def sv_bind_def sv_return_def wait_for_warp_def, simp add: demo_prep_def ok_or_def)
  have "prepare demo_config None demo_prep None files = ([Probed demo_upstream (Ok \<lparr>outcome_ip = None, outcome_loc = None\<rparr>)],
      files, None, Ok (\<lparr>sel_outbound = demo_upstream, wg_endpoint = None\<rparr>, demo_upstream))"
    using t by (simp add: prepare_def prepare_base_def demo_config_def)
  then show ?thesis
    by (simp add: recover_round_def budgeted_def serve_outlet_def watch_outbound_def supervisor_start_def demo_round_def
        PREPARE_BUDGET_def)
qed

section \<open>Properties\<close>

text \<open>
  C2: for every configuration, every region, all that the network, the services and the file
  system do and however many rounds the loop runs: an outlet is published only when none is, and
  only after a successful WARP probe of that outlet since the heartbeat was last reset; a success
  is recorded only while a probed outlet is published; the heartbeat is reset, endpoints are cooled
  down and the loop waits only while nothing is published; the heartbeat is reset right after an
  outlet has been withdrawn, before anything else; and a wait lasts at least one second and
  at most two to the power of the number of waits since the last publication, or 32 seconds.
\<close>

theorem recovery_keeps_contract:
  "contract_run contract_start (fst (recover_outbound cfg country rounds (supervisor_start files))) \<noteq> None"
proof -
  obtain tr e where r: "recover_outbound cfg country rounds (supervisor_start files) = (tr, e)" by fastforce
  have "at_rest (supervisor_start files) contract_start"
    by (simp add: at_rest_def supervisor_start_def contract_start_def)
  from recover_contract [OF r this] show ?thesis by (simp add: r)
qed

text \<open>
  C5: an outlet is given up exactly when it, or the base under it, terminates, or as many probes in
  a row as the threshold demands (one at least) have failed.
\<close>

theorem outlet_given_up_iff:
  "snd (watch_outbound cfg out thr evs) \<longleftrightarrow>
     Terminated \<in> set evs
     \<or> (\<exists>i. 0 < i \<and> i \<le> length evs \<and> max 1 (unat thr) \<le> trailing_failures (take i (map (probe_ok cfg out) evs)))"
proof -
  let ?os = "map (probe_ok cfg out) evs"
  have "recovery_run (recovery_new thr) ?os \<noteq> None \<longleftrightarrow>
      (\<exists>i. 0 < i \<and> i \<le> length evs \<and> max 1 (unat thr) \<le> trailing_failures (take i ?os))"
    unfolding recovery_exits_at_first_failing_window
    by (auto simp: find_None_iff Suc_le_eq less_Suc_eq_le)
  then show ?thesis by (simp add: watch_outbound_def watch_loop_over)
qed

text \<open>
  C4: if the health check accepts the heartbeat at a time later than its limit after the epoch,
  then within the limit a success was recorded while an outlet was published that had answered a
  WARP probe; the supervisor has not reset the heartbeat since, nor withdrawn that outlet, unless
  the withdrawal is the very last thing it did.
\<close>

theorem healthy_means_published:
  assumes "recover_outbound cfg country rounds (supervisor_start files) = (tr, e)"
    and "check (heartbeat_after stamp kept 0 tr None) now age = Ok ()" "age < now"
  shows "\<exists>i out c env timeout outcome. i < length tr \<and> tr ! i = RecordSuccess \<and> unat now \<le> unat (stamp i) + unat age
    \<and> Invalidate \<notin> set (drop i tr) \<and> Withdraw \<notin> set (butlast (drop i tr)) \<and> contract_run contract_start (take i tr) = Some c \<and> pub c = Some out
    \<and> probe_outbound env out timeout = Ok outcome"
proof (rule heartbeat_after_cases [of stamp kept 0 tr])
  assume "heartbeat_after stamp kept 0 tr None = None"
  then show ?thesis using assms(2) by (simp add: check_def)
next
  assume "heartbeat_after stamp kept 0 tr None = Some invalidate_body"
  then show ?thesis using assms(2,3) heartbeat_check_iff_fresh [of _ now age] by simp
next
  fix i assume i: "i < length tr" "tr ! i = RecordSuccess"
    "heartbeat_after stamp kept 0 tr None = Some (record_success_body (stamp (0 + i)))" "Invalidate \<notin> set (drop i tr)"
  have fresh: "unat now \<le> unat (stamp i) + unat age"
    using assms(2) i(3) heartbeat_check_iff_fresh [of "stamp i" now age] by simp
  have "at_rest (supervisor_start files) contract_start"
    by (simp add: at_rest_def supervisor_start_def contract_start_def)
  then have run: "contract_run contract_start tr \<noteq> None" by (rule recover_contract [OF assms(1)])
  from contract_run_at [OF run i(1)]
  obtain c out where c: "contract_run contract_start (take i tr) = Some c" "pub c = Some out" "out \<in> good c"
    using i(2) by (auto simp: allowed_def)
  moreover have "good contract_start = {}" by (simp add: contract_start_def)
  ultimately show ?thesis using contract_run_good [OF c(1,3)] withdrawn_last [OF run i(4)] i(1,2,4) fresh by blast
qed


theorem healthy_means_published_witness:
  "\<exists>i. (fst (recover_outbound demo_config None [demo_round] (supervisor_start (\<lambda>_. Some (0, []))))) ! i = RecordSuccess"
proof -
  let ?tr = "[Invalidate, Probed demo_upstream (Ok \<lparr>outcome_ip = None, outcome_loc = None\<rparr>), Publish demo_upstream, RecordSuccess]"
  have r: "recover_outbound demo_config None [demo_round] (supervisor_start (\<lambda>_. Some (0, []))) = (?tr, Watching)"
    by (rule demo_recovers) simp
  have "check (heartbeat_after (\<lambda>_. 1000) (\<lambda>_. True) 0 ?tr None) 1001 60 = Ok ()"
    using heartbeat_check_iff_fresh [of 1000 1001 60] by simp
  from healthy_means_published [OF r this] show ?thesis unfolding r by auto
qed

end
