(* ===== verification/Cli.thy ===== *)
theory Cli
  imports Supervisor
begin

text \<open>
  The two binaries: \<^verbatim>\<open>bin/warp-socks.rs\<close>, whose subcommands start the supervisor, manage a MASQUE
  registration or check the heartbeat, and \<^verbatim>\<open>bin/handshake_probe.rs\<close>.
\<close>

section \<open>Subcommands\<close>

datatype command = Serve | Register "string list" | Healthcheck | UnknownCommand string

text \<open>\<open>args\<close> starts with the name of the program.\<close>

definition command_of :: "string list \<Rightarrow> command" where
  "command_of args =
     (if length args \<le> 1 then Serve
      else
        let c = args ! 1 in
        if c = ''serve'' then Serve
        else if c = ''register'' then Register (drop 2 args)
        else if c = ''healthcheck'' then Healthcheck
        else UnknownCommand c)"

datatype CliErr = Usage | UnknownAction string | CliReg RegErr

definition cli_path :: "string \<Rightarrow> path" where
  "cli_path s = \<lparr>dir = [], file_name = s\<rparr>"

definition run_register ::
  "b64 \<Rightarrow> ('k, 'v) crypto \<Rightarrow> reg_json \<Rightarrow> (ApiRequest \<Rightarrow> ApiReply) \<Rightarrow> issue \<Rightarrow> string \<Rightarrow> bytes \<times> bytes \<Rightarrow> 'k
     \<Rightarrow> fs_faults \<times> nat \<Rightarrow> IoErr option \<Rightarrow> string list \<Rightarrow> fs \<Rightarrow> fs \<times> (CliErr, unit) result" where
  "run_register b c json api iss tos_now rnd k faults remove_fault args fs =
     (if length args < 2 then (fs, Err Usage)
      else
        let path = cli_path (args ! 1) in
        if args ! 0 = ''reg'' then
          if fs path \<noteq> None then (fs, Ok ())
          else
            (case register_masque b c json api iss tos_now rnd k of
               Inl e \<Rightarrow> (fs, Err (CliReg e))
             | Inr creds \<Rightarrow>
                 (case save json (fst faults) (snd faults) (registration creds) path fs of
                    (fs, r) \<Rightarrow> (fs, rmap_err CliReg r)))
        else if args ! 0 = ''del'' then
          (case delete json api remove_fault path fs of (fs, r) \<Rightarrow> (fs, rmap_err CliReg r))
        else (fs, Err (UnknownAction (args ! 0))))"

section \<open>The health check\<close>

text \<open>In seconds; \<open>None\<close> is the panic of a \<^verbatim>\<open>Duration\<close> that would be too long.\<close>

definition duration_secs :: "nat \<Rightarrow> nat option" where
  "duration_secs n = (if n < 2 ^ 64 then Some n else None)"

definition heartbeat_max_age :: "AppConfig \<Rightarrow> u64 option" where
  "heartbeat_max_age config =
     (let rounds = saturating_add (healthcheck_failure_threshold config) 1 in
      case duration_secs (unat (healthcheck_interval config) + unat (healthcheck_probe_timeout config)) of
        None \<Rightarrow> None
      | Some per_round \<Rightarrow>
          (case duration_secs (per_round * unat rounds) of
             None \<Rightarrow> None
           | Some all \<Rightarrow> map_option of_nat (duration_secs (all + 10))))"

datatype exit = Success | Unhealthy HeartbeatError | Panic

definition run_healthcheck :: "AppConfig \<Rightarrow> string option \<Rightarrow> u64 \<Rightarrow> exit" where
  "run_healthcheck config heartbeat now =
     (case heartbeat_max_age config of
        None \<Rightarrow> Panic
      | Some max_age \<Rightarrow> (case check heartbeat now max_age of Inl e \<Rightarrow> Unhealthy e | Inr _ \<Rightarrow> Success))"

section \<open>The handshake probe\<close>

datatype ProbeArgErr = ProbeUsage | BadTrick string | ProbeConf ConfErr | ProbeIo IoErr

definition trick_arg :: "string \<Rightarrow> (ProbeArgErr, Trick) result" where
  "trick_arg s =
     (if s = ''none'' then Ok NoTrick else if s = ''t1'' then Ok T1 else if s = ''t2'' then Ok T2 else Err (BadTrick s))"

text \<open>\<open>None\<close>: the handshake never returns.\<close>

definition handshake_probe ::
  "b64 \<Rightarrow> name_service \<Rightarrow> ('t, 's) wg_lib \<Rightarrow> (bytes \<Rightarrow> bytes \<Rightarrow> 't option) \<Rightarrow> (SocketAddr \<Rightarrow> SocketAddr \<Rightarrow> (IoErr, 's) result)
     \<Rightarrow> nat \<times> bytes \<times> bytes list \<Rightarrow> fs \<Rightarrow> string list \<Rightarrow> (ProbeArgErr, unit) result option" where
  "handshake_probe b lookup L new_tunn connect_udp rnd fs args =
     (if length args \<noteq> 3 then Some (Err ProbeUsage)
      else
        case trick_arg (args ! 2) of
          Inl e \<Rightarrow> Some (Err e)
        | Inr tr \<Rightarrow>
            (case parse_wg_conf b lookup fs (cli_path (args ! 1)) of
               Inl e \<Rightarrow> Some (Err (ProbeConf e))
             | Inr config \<Rightarrow>
                 (case tunnel_connect L new_tunn connect_udp config tr of
                    Inl e \<Rightarrow> Some (Err (ProbeIo e))
                  | Inr tunnel \<Rightarrow> map_option (\<lambda>(_, r). rmap_err ProbeIo r) (handshake L rnd (20 * 10 ^ 9) tunnel))))"


section \<open>Actions since the last recorded success\<close>

definition since_success :: "action list \<Rightarrow> nat" where
  "since_success tr = length (takeWhile (\<lambda>a. a \<noteq> RecordSuccess) (rev tr))"

lemma since_success_all: "RecordSuccess \<notin> set tr \<Longrightarrow> since_success tr = length tr"
  unfolding since_success_def by (subst takeWhile_eq_all_conv [THEN iffD2]) auto

lemma since_success_Cons:
  "since_success (a # tr) = (if RecordSuccess \<in> set tr \<or> a = RecordSuccess then since_success tr else Suc (length tr))"
proof (cases "RecordSuccess \<in> set tr")
  case True
  then show ?thesis by (simp add: since_success_def takeWhile_append1)
next
  case False
  then have "since_success (a # tr) = length (rev tr @ takeWhile (\<lambda>a. a \<noteq> RecordSuccess) [a])"
    unfolding since_success_def rev.simps by (subst takeWhile_append2) auto
  with False show ?thesis by (simp add: since_success_all)
qed

lemma on_failure_Continue:
  assumes "on_failure r = (Continue, r')"
  shows "unat (consecutive_failures r') = Suc (unat (consecutive_failures r)) \<and> threshold r' = threshold r
    \<and> Suc (unat (consecutive_failures r)) < unat (threshold r)"
proof -
  let ?n = "saturating_add (consecutive_failures r) 1"
  have n: "?n < threshold r" "consecutive_failures r' = ?n" "threshold r' = threshold r"
    using assms by (auto simp: on_failure_def Let_def split: if_splits)
  have "unat ?n < unat (threshold r)" using n(1) by (simp add: word_less_nat_alt)
  moreover have "unat (threshold r) \<le> 2 ^ 32 - 1" using unsigned_less [of "threshold r", where 'a = nat] by simp
  moreover have "unat ?n = min (unat (consecutive_failures r) + 1) (2 ^ 32 - 1)" by (simp add: unat_saturating_add)
  ultimately show ?thesis using n by simp
qed

text \<open>While an outlet is watched, fewer failures than the threshold follow the last success.\<close>

lemma watch_loop_since:
  "watch_loop cfg out rec evs = (tr, False) \<Longrightarrow> unat (consecutive_failures rec) < unat (threshold rec) \<Longrightarrow>
     (if RecordSuccess \<in> set tr then since_success tr else unat (consecutive_failures rec) + length tr) < unat (threshold rec)
     \<and> list_all (\<lambda>a. a = RecordSuccess \<or> (\<exists>r. a = Probed out r)) tr"
proof (induction cfg out rec evs arbitrary: tr rule: watch_loop.induct)
  case (3 cfg out rec env evs)
  let ?r = "probe_outbound env out (secs (healthcheck_probe_timeout cfg))"
  show ?case
  proof (cases ?r)
    case (Inr oc)
    obtain tr1 over1 where l: "watch_loop cfg out (on_success rec) evs = (tr1, over1)" by fastforce
    have t: "tr = Probed out ?r # RecordSuccess # tr1" "over1 = False" using 3(3) l Inr by auto
    have "consecutive_failures (on_success rec) = 0" "threshold (on_success rec) = threshold rec"
      by (simp_all add: on_success_def)
    then have "(if RecordSuccess \<in> set tr1 then since_success tr1 else length tr1) < unat (threshold rec)
        \<and> list_all (\<lambda>a. a = RecordSuccess \<or> (\<exists>r. a = Probed out r)) tr1"
      using 3(2) [OF refl Inr l [unfolded t(2)]] 3(4) by (auto split: if_splits)
    then show ?thesis by (auto simp: t since_success_Cons since_success_all split: if_splits)
  next
    case (Inl e)
    obtain act rec' where f: "on_failure rec = (act, rec')" by fastforce
    obtain tr1 over1 where l: "watch_loop cfg out rec' evs = (tr1, over1)" by fastforce
    have c: "act = Continue" using 3(3) Inl f by (cases act) auto
    then have t: "tr = Probed out ?r # tr1" "over1 = False" using 3(3) l Inl f by auto
    note k = on_failure_Continue [OF f [unfolded c]]
    have "(if RecordSuccess \<in> set tr1 then since_success tr1 else unat (consecutive_failures rec') + length tr1) < unat (threshold rec')
        \<and> list_all (\<lambda>a. a = RecordSuccess \<or> (\<exists>r. a = Probed out r)) tr1"
      using 3(1) [OF refl Inl f [symmetric] c l [unfolded t(2)]] k by simp
    then show ?thesis using k by (auto simp: t since_success_Cons split: if_splits)
  qed
qed (auto simp: since_success_def)

lemma heartbeat_after_append:
  "heartbeat_after stamp kept n (tr @ tr') prev =
     heartbeat_after stamp kept (n + length tr) tr' (heartbeat_after stamp kept n tr prev)"
  by (induction tr arbitrary: n prev) auto

lemma heartbeat_after_probes:
  "list_all (\<lambda>a. \<exists>out r. a = Probed out r) tr \<Longrightarrow> heartbeat_after stamp kept n tr prev = prev"
  by (induction tr arbitrary: n prev) auto

text \<open>The time a run of probes takes, when every one of them takes at most \<open>R\<close>.\<close>

lemma probes_take:
  assumes "\<And>i. k \<le> i \<Longrightarrow> Suc i < length tr \<Longrightarrow> unat (stamp (Suc i)) \<le> unat (stamp i) + (R :: nat)"
    and "k + d < length tr"
  shows "unat (stamp (k + d) :: u64) \<le> unat (stamp k) + d * R"
  using assms(2)
proof (induction d)
  case (Suc d)
  then show ?case using assms(1) [of "k + d"] by simp
qed simp


lemma heartbeat_max_age_window:
  assumes "heartbeat_max_age cfg = Some age"
  shows "(unat (healthcheck_interval cfg) + unat (healthcheck_probe_timeout cfg)) * unat (healthcheck_failure_threshold cfg)
    + 10 \<le> unat age"
proof -
  let ?R = "unat (healthcheck_interval cfg) + unat (healthcheck_probe_timeout cfg)"
  let ?n = "unat (saturating_add (healthcheck_failure_threshold cfg) 1)"
  have a: "age = of_nat (?R * ?n + 10)" "?R * ?n + 10 < 2 ^ 64"
    using assms by (auto simp: heartbeat_max_age_def duration_secs_def Let_def split: if_splits)
  have "unat (healthcheck_failure_threshold cfg) \<le> ?n"
    using unsigned_less [of "healthcheck_failure_threshold cfg", where 'a = nat] by (simp add: unat_saturating_add)
  then have "?R * unat (healthcheck_failure_threshold cfg) \<le> ?R * ?n" by (rule mult_le_mono2)
  moreover have "unat (of_nat m :: u64) = m" if "m < 2 ^ 64" for m
    using that by (simp add: unsigned_of_nat take_bit_nat_eq_self)
  then have "unat age = ?R * ?n + 10" unfolding a(1) using a(2) by blast
  ultimately show ?thesis by linarith
qed

text \<open>
  \<^verbatim>\<open>register reg\<close> never gives up a registration: with a file in place it changes nothing and succeeds
  whatever the service would answer, and otherwise success means that the registration the service
  granted is in the file.
\<close>

lemma register_keeps_registration:
  assumes "run_register b c json api iss tos_now rnd k faults rf [''reg'', p] files = (files', r)"
  shows "(files (cli_path p) \<noteq> None \<longrightarrow> files' = files \<and> r = Ok ())
    \<and> (files (cli_path p) = None \<and> r = Ok () \<longrightarrow> (\<exists>creds. register_masque b c json api iss tos_now rnd k = Ok creds
         \<and> files' (cli_path p) = Some (PRIVATE_MODE, reg_text json (registration creds))))"
  using assms
  by (auto simp: run_register_def Let_def save_def rmap_err_def dest!: write_private_Ok split: if_splits sum.splits prod.splits)

section \<open>Properties\<close>

text \<open>
  C3: the health check does not report an outlet that the supervisor still serves, under these
  conditions: the window computed from the configuration does not overflow (the health check would
  panic otherwise), the threshold is not 0, the last recorded success has reached the heartbeat file
  (earlier ones need not), and each probe ends within the interval and its timeout of what precedes
  it.  Then at any moment up to ten seconds after the time by which the next probe has to end, the
  heartbeat is within the window, however many probes have failed so far.
\<close>

theorem healthcheck_tolerates_watch:
  assumes "serve_outlet cfg country rd cached sel out files = (tr, Watching)"
    and "heartbeat_max_age cfg = Some age" "healthcheck_failure_threshold cfg \<noteq> 0"
    and "\<And>i. i < length tr \<Longrightarrow> tr ! i = RecordSuccess \<Longrightarrow> RecordSuccess \<notin> set (drop (Suc i) tr) \<Longrightarrow> kept i"
    and "\<And>i r. Suc i < length tr \<Longrightarrow> tr ! Suc i = Probed out r \<Longrightarrow>
      unat (stamp (Suc i)) \<le> unat (stamp i) + unat (healthcheck_interval cfg) + unat (healthcheck_probe_timeout cfg)"
    and "unat now \<le> unat (stamp (length tr - 1)) + unat (healthcheck_interval cfg) + unat (healthcheck_probe_timeout cfg) + 10"
  shows "run_healthcheck cfg (heartbeat_after stamp kept 0 tr prev) now = Success"
proof -
  let ?R = "unat (healthcheck_interval cfg) + unat (healthcheck_probe_timeout cfg)"
  let ?thr = "unat (healthcheck_failure_threshold cfg)"
  obtain t w where t: "watch_outbound cfg out t (rd_watch rd) = (w, False)" "tr = Publish out # RecordSuccess # w"
      "unat t \<le> ?thr"
  proof -
    define t where "t = (if country = None \<and> wg_endpoint sel \<noteq> None then WG_HEALTH_FAILURE_THRESHOLD
        else healthcheck_failure_threshold cfg)"
    obtain w over where w: "watch_outbound cfg out t (rd_watch rd) = (w, over)" by fastforce
    have "over = False \<and> tr = Publish out # RecordSuccess # w"
      using assms(1) w unfolding serve_outlet_def t_def [symmetric]
      by (cases over) (auto simp: back_off_def Let_def split: if_splits prod.splits)
    moreover have "unat t \<le> ?thr"
      using assms(3) by (simp add: t_def WG_HEALTH_FAILURE_THRESHOLD_def Suc_le_eq unat_gt_0)
    ultimately show ?thesis using that w by blast
  qed
  have thr: "1 \<le> ?thr" using assms(3) by (simp add: Suc_le_eq unat_gt_0)
  have lim: "unat (threshold (recovery_new t)) \<le> ?thr" using t(3) thr by (simp add: unat_recovery_threshold)
  have "unat (consecutive_failures (recovery_new t)) < unat (threshold (recovery_new t))"
    by (subst unat_recovery_threshold) (simp add: recovery_new_def)
  from watch_loop_since [OF t(1) [unfolded watch_outbound_def] this]
  have s: "since_success (RecordSuccess # w) < ?thr"
    and all: "list_all (\<lambda>a. a = RecordSuccess \<or> (\<exists>r. a = Probed out r)) w"
    using lim by (auto simp: since_success_Cons since_success_all recovery_new_def split: if_splits)
  obtain xs ys where x: "RecordSuccess # w = xs @ RecordSuccess # ys" "RecordSuccess \<notin> set ys"
    using split_list_last [of RecordSuccess "RecordSuccess # w"] by auto
  have len: "length ys < ?thr"
  proof -
    have "takeWhile (\<lambda>a. a \<noteq> RecordSuccess) (rev ys @ RecordSuccess # rev xs) = rev ys"
      using x(2) by (subst takeWhile_append2) auto
    with s x(1) show ?thesis by (simp add: since_success_def)
  qed
  have probes: "list_all (\<lambda>a. \<exists>r. a = Probed out r) ys"
  proof -
    have "set ys \<subseteq> set w" using x(1) by (cases xs) auto
    then show ?thesis using all x(2) by (fastforce simp: list_all_iff)
  qed
  let ?k = "Suc (length xs)"
  have tr: "tr = (Publish out # xs) @ RecordSuccess # ys" using t(2) x(1) by simp
  have beat: "heartbeat_after stamp kept 0 tr prev = Some (record_success_body (stamp ?k))"
  proof -
    have "list_all (\<lambda>a. \<exists>out r. a = Probed out r) ys" using probes by (auto simp: list_all_iff)
    moreover have "kept ?k" using x(2) by (intro assms(4)) (simp_all add: tr nth_append)
    ultimately show ?thesis unfolding tr heartbeat_after_append by (simp add: heartbeat_after_probes)
  qed
  have "unat (stamp (?k + length ys)) \<le> unat (stamp ?k) + length ys * ?R"
  proof (rule probes_take [where tr = tr])
    fix i assume i: "?k \<le> i" "Suc i < length tr"
    have "tr ! Suc i = ys ! (i - ?k)" using i(1) by (simp add: tr nth_append Suc_diff_le)
    moreover have "i - ?k < length ys" using i by (simp add: tr)
    ultimately obtain r where "tr ! Suc i = Probed out r" using probes by (auto simp: list_all_length)
    from assms(5) [OF i(2) this] show "unat (stamp (Suc i)) \<le> unat (stamp i) + ?R" by simp
  qed (simp add: tr)
  moreover have "length tr - 1 = ?k + length ys" by (simp add: tr)
  ultimately have "unat now \<le> unat (stamp ?k) + Suc (length ys) * ?R + 10" using assms(6) by simp
  also have "\<dots> \<le> unat (stamp ?k) + ?thr * ?R + 10"
    using len by (intro add_right_mono add_left_mono mult_le_mono1) simp
  also have "\<dots> \<le> unat (stamp ?k) + unat age"
    using heartbeat_max_age_window [OF assms(2)] by (simp add: mult.commute add.assoc)
  finally have "check (Some (record_success_body (stamp ?k))) now age = Ok ()"
    using heartbeat_check_iff_fresh [of "stamp ?k" now age] by simp
  then show ?thesis by (simp add: run_healthcheck_def assms(2) beat)
qed

text \<open>A round in which two probes fail, one succeeds and one fails; and when its actions happened.\<close>

definition failing_https :: https_env where
  "failing_https = warp_https\<lparr>https_tls := \<lambda>_ _. None\<rparr>"

definition watched_round :: "(bytes, bytes) round" where
  "watched_round = demo_round\<lparr>rd_watch := [ProbeDue failing_https, ProbeDue failing_https, ProbeDue warp_https, ProbeDue failing_https]\<rparr>"

definition watched_trace :: "action list" where
  "watched_trace =
     [Publish demo_upstream, RecordSuccess, Probed demo_upstream (Err (ProbeRequest HttpsTls)),
      Probed demo_upstream (Err (ProbeRequest HttpsTls)), Probed demo_upstream (Ok \<lparr>outcome_ip = None, outcome_loc = None\<rparr>),
      RecordSuccess, Probed demo_upstream (Err (ProbeRequest HttpsTls))]"

definition watched_at :: "nat \<Rightarrow> u64" where
  "watched_at i = [1000, 1000, 1123, 1246, 1300, 1301, 1400] ! i"

lemma failing_probe: "5 \<le> timeout \<Longrightarrow> probe_outbound failing_https demo_upstream timeout = Err (ProbeRequest HttpsTls)"
  by (simp add: probe_outbound_def https_get_def get_inner_def failing_https_def warp_https_def demo_upstream_def)

lemma watched_serve:
  "serve_outlet demo_config None watched_round None \<lparr>sel_outbound = demo_upstream, wg_endpoint = None\<rparr> demo_upstream (\<lambda>_. None) =
     (watched_trace, Watching)"
  by (simp add: serve_outlet_def watch_outbound_def watched_round_def watched_trace_def demo_config_def failing_probe
      warp_probe secs_def on_failure_def on_success_def recovery_new_def saturating_add_def Let_def word_le_nat_alt)

theorem healthcheck_tolerates_watch_witness:
  "run_healthcheck demo_config (heartbeat_after watched_at (\<lambda>i. i = 5) 0 watched_trace None) 1530 = Success"
proof (rule healthcheck_tolerates_watch [OF watched_serve])
  show "heartbeat_max_age demo_config = Some 502"
    by (simp add: heartbeat_max_age_def duration_secs_def demo_config_def saturating_add_def)
  show "healthcheck_failure_threshold demo_config \<noteq> 0" by (simp add: demo_config_def)
  show "i = 5" if "i < length watched_trace" "watched_trace ! i = RecordSuccess"
      "RecordSuccess \<notin> set (drop (Suc i) watched_trace)" for i
    using that by (auto simp: watched_trace_def less_Suc_eq)
  show "unat (watched_at (Suc i)) \<le> unat (watched_at i) + unat (healthcheck_interval demo_config)
      + unat (healthcheck_probe_timeout demo_config)" if "Suc i < length watched_trace" for i
    using that by (auto simp: watched_trace_def watched_at_def demo_config_def less_Suc_eq)
  show "unat (1530 :: u64) \<le> unat (watched_at (length watched_trace - 1)) + unat (healthcheck_interval demo_config)
      + unat (healthcheck_probe_timeout demo_config) + 10"
    by (simp add: watched_trace_def watched_at_def demo_config_def)
qed

end
