(* ===== verification/Spec2Isabelle.thy ===== *)
theory Spec2Isabelle
  imports Health H3_Stream Dns Doh Socks4 Netstack_Ports Registration Tunnel_Flow Endpoint Appconfig H2_Device Cli
begin

text \<open>
  A verification of warp-socks (\<^verbatim>\<open>src/src\<close>), a local SOCKS4, SOCKS5 and HTTP proxy whose connections
  leave the host through Cloudflare WARP.

  \<^bold>\<open>The program.\<close>  A client connects to a listener (\<^verbatim>\<open>mixed.rs\<close>), which limits and filters connections,
  waits for an outlet and picks the protocol by the first byte.  The handlers (\<^verbatim>\<open>socks4.rs\<close>,
  \<^verbatim>\<open>socks5.rs\<close>, \<^verbatim>\<open>http_proxy.rs\<close>) read the request, ask the outlet for a connection and relay
  (\<^verbatim>\<open>relay.rs\<close>).  An outlet is a WireGuard tunnel (\<^verbatim>\<open>tunnel.rs\<close>) under a TCP/IP stack in the process
  (\<^verbatim>\<open>netstack.rs\<close>, \<^verbatim>\<open>dataplane.rs\<close>, \<^verbatim>\<open>outbound/ip.rs\<close>, \<^verbatim>\<open>dns.rs\<close>), a MASQUE connection over HTTP/3
  (\<^verbatim>\<open>outbound/masque/mod.rs\<close> with \<^verbatim>\<open>qpack.rs\<close>, \<^verbatim>\<open>huffman.rs\<close>, \<^verbatim>\<open>varint.rs\<close>, \<^verbatim>\<open>doh.rs\<close>), or MASQUE over HTTP/2
  through a Psiphon server (\<^verbatim>\<open>h2.rs\<close>, \<^verbatim>\<open>h2_outbound.rs\<close>, \<^verbatim>\<open>outbound/psiphon\<close>).  The supervisor
  (\<^verbatim>\<open>supervisor.rs\<close>) registers accounts (\<^verbatim>\<open>registration\<close>), tries endpoints (\<^verbatim>\<open>endpoint\<close>), probes an outlet
  (\<^verbatim>\<open>health\<close>, \<^verbatim>\<open>outbound/https.rs\<close>), publishes it to the listeners, watches it and replaces it; a heartbeat
  file tells the health check of \<^verbatim>\<open>bin/warp-socks.rs\<close> how it fares.

  \<^bold>\<open>Vocabulary.\<close>  \<open>Prelude\<close>: words for machine integers, \<open>result\<close> with \<open>rbind\<close> for \<^verbatim>\<open>?\<close>, checked and
  saturating arithmetic.  \<open>Rust_Std\<close>: the standard library on text.  \<open>Net_Addr\<close>, \<open>Addr_Text\<close>: addresses and
  their texts, which are read back as printed.  \<open>Streams\<close>: byte streams in arbitrary chunks and sinks that
  may close; every reader is related to the content alone.  \<open>Bits\<close>: bit strings and prefix codes.
  \<open>Ttl_Cache\<close> and \<open>Bounded_Fifo\<close>: the contracts of the two DNS caches and of the packet queues, as locales
  interpreted where the operations are.

  \<^bold>\<open>Clients.\<close>  \<open>Socks5\<close>, \<open>Socks4\<close>: a whole conversation has the replies and the outcome the protocols ask
  for; UDP associations keep to one client, and the datagrams and answers they hold, with those of all other
  associations, stay within the byte and worker permits of the process.  \<open>Http_Proxy\<close>: what crosses the proxy in
  either direction, against the hop-by-hop fields of HTTP/1, and that one connection hands over at most one tunnel.  \<open>Relay\<close>: how the two
  directions of a relay end.  \<open>Mixed\<close>: the accept loops as a step relation over all listeners, one
  connection on a time line, and protocol detection over the handlers above.

  \<^bold>\<open>Packets.\<close>  \<open>Netstack\<close>: the reactor between device and protocol stack refines two bounded queues;
  \<open>Netstack_Ports\<close>: ports are never shared, over every interleaving of socket operations; \<open>Dataplane\<close>: the
  counters; \<open>Device_Link\<close>, \<open>Tunnel\<close>, \<open>Tunnel_Flow\<close>: packets keep their order through reactor, WireGuard
  machine and socket together, and a poll returns; \<open>Ip_Outbound\<close>: the two races of dialling, in time.
  \<open>Dns\<close>: query, response and resolver.

  \<^bold>\<open>MASQUE.\<close>  \<open>Huffman\<close>, \<open>Varint\<close>, \<open>Qpack\<close>: the decoders return what the codes and the static table mean (a
  \<^verbatim>\<open>:status\<close> with a literal value apart, which the reader of headers ignores).  \<open>H3_Stream\<close>: the
  CONNECT exchange and the framing of both directions, whatever the chunks.  \<open>Doh\<close>: the resolver inside the
  tunnel.  \<open>Masque\<close>: the shared connection under every interleaving of callers (a step relation), the time
  budget, and end to end that a connection delivers what the edge sent, or a prefix of it if the upload
  fails first.  \<open>H2_Device\<close>: IP packets as capsules
  and back.  \<open>Psiphon\<close>, \<open>Https\<close>: the signed server list, sessions and probes.

  \<^bold>\<open>Life of the process.\<close>  \<open>Fsutil\<close>: atomic private files, with every failing system call a case.
  \<open>Wgconf\<close>, \<open>Registration\<close>: accounts and credentials survive being written and read.  \<open>Endpoint\<close>: the order
  of candidates.  \<open>Health\<close>, \<open>Appconfig\<close>: threshold, heartbeat and configuration.  \<open>Supervisor\<close>: the recovery
  loop as a function from what the surroundings do to the sequence of its actions, and the contract that
  every such sequence keeps (\<open>allowed\<close>): only probed outlets are published, one at a time, and the heartbeat
  agrees with that.  \<open>Cli\<close>: the subcommands; the health check tolerates what the supervisor tolerates, as long as probes keep
  to their time and the last success reached the file.  This
  theory ties listeners and supervisor together.

  \<^bold>\<open>How state and effects appear.\<close>  A structure of the source is a record of the same name, an enumeration a
  datatype; an operation that changes state returns the new state.  Concurrency is a step relation (\<open>accept_step\<close>,
  \<open>open_step\<close>, \<open>net_step\<close>) or a time line of completions (\<open>'a future\<close>, nanoseconds).  Randomness (the draws of a signer among it), clock
  readings, failures of system calls and answers of peers are arguments, so the theorems hold for all of
  them.  Third-party code is a record of its operations (\<open>smoltcp\<close>, \<open>wg_lib\<close>, \<open>crypto\<close>, \<open>list_lib\<close>, \<open>http_lib\<close>, \<open>https_env\<close>)
  or a pair of functions (the QUIC integer codec, base64, JSON); what is relied on is the assumption of a
  locale (\<open>smoltcp_laws\<close>, \<open>wg_laws\<close>, \<open>quic_varint\<close>, \<open>b64_laws\<close>, \<open>reg_laws\<close>), each with a concrete model.

  \<^bold>\<open>Bounds.\<close>  Loops are recursive on their data or have a termination proof.  The bursts of the reactor and the
  tunnel have the bounds of the source (\<open>MAX_RECEIVE_BURST\<close> and its like); the one loop of the tunnel that
  depends on the protocol machine is an optional result, and \<open>tunnel_poll_returns\<close> shows it is defined
  under what the libraries document.  A turn of the start-up probe loop is taken to last a nanosecond at least.
  The recovery loop of the supervisor never ends by itself and is read as its first rounds, for any number of them.

  \<^bold>\<open>Not modelled.\<close>  Log output (\<^verbatim>\<open>log_candidate_plan\<close>, the logger of \<^verbatim>\<open>main\<close>), as it changes nothing.  Construction
  of library objects: the TLS configurations of \<^verbatim>\<open>tls.rs\<close>, \<^verbatim>\<open>build_endpoint\<close>, \<^verbatim>\<open>listener_socket\<close>, the HTTP client of
  \<^verbatim>\<open>registration/masque.rs\<close>; these only pass constants to code outside the repository.  Serialisation derived by
  macros, which is the JSON library's.  Wake-ups and task handles (\<^verbatim>\<open>Reactor::wake\<close>, \<^verbatim>\<open>spawn_reporter\<close>, the
  \<^verbatim>\<open>Drop\<close> implementations that abort tasks): when a task runs is the runtime's choice, which the step relations
  leave open.  \<^verbatim>\<open>DrivenBody\<close> hands frames of a response body through.  The module files \<^verbatim>\<open>lib.rs\<close>, \<^verbatim>\<open>endpoint/mod.rs\<close>,
  \<^verbatim>\<open>health/mod.rs\<close> and \<^verbatim>\<open>registration/mod.rs\<close> only re-export.
\<close>

section \<open>The whole service\<close>

text \<open>
  The listeners and the recovery loop run side by side and share the watched outlet: what the accept
  loops have seen published is what the loop has published and withdrawn so far.
\<close>

definition seen_by_listeners :: "action list \<Rightarrow> Outbound option list" where
  "seen_by_listeners tr = None # published_of tr"

text \<open>For the instance: one client served by the outlet of \<open>demo_round\<close>.\<close>

definition demo_serving :: "Outbound server" where
  "demo_serving = enter_phase 7 (Serving demo_upstream 2)
     (accept_client [True, True] 0 7 (Ok (SockAddr (V4 10 0 0 2) 99))
       ((server_start None)\<lparr>published := [None, Some demo_upstream]\<rparr>))"

lemma demo_serving_reached: "(accept_step [True, True])\<^sup>*\<^sup>* (server_start None) demo_serving"
proof -
  let ?p = "(server_start None)\<lparr>published := [None, Some demo_upstream]\<rparr> :: Outbound server"
  let ?a = "accept_client [True, True] 0 7 (Ok (SockAddr (V4 10 0 0 2) 99)) ?p"
  have "accept_step [True, True] (server_start None) ?p"
    using accept_step.publish [of "[True, True]" "server_start None" "Some demo_upstream"] by (simp add: server_start_def)
  moreover have "accept_step [True, True] ?p ?a"
    by (intro accept_step.accept) (simp_all add: server_start_def)
  moreover have "accept_step [True, True] ?a demo_serving"
    using accept_step.found [of ?a 7 None demo_upstream "[True, True]"]
    by (simp add: demo_serving_def in_phase_def accept_client_def server_start_def MAX_CONNECTIONS_def
        numeral_2_eq_2)
  ultimately show ?thesis by (meson converse_rtranclp_into_rtranclp rtranclp.rtrancl_refl)
qed

section \<open>Properties\<close>

text \<open>
  C1: a client is served only through an outlet that has passed the WARP probe.  Whatever clients,
  network and services do and however the listeners and the recovery loop interleave, the outlet of
  every connection being served was published by the loop, and before that a probe of this very
  outlet had succeeded.
\<close>

theorem served_through_verified_outlet:
  assumes "recover_outbound cfg country rounds (supervisor_start files) = (tr, e)"
    and "serve_managed bind mode None = Ok (lan_only, start)" "(accept_step lan_only)\<^sup>*\<^sup>* start s"
    and "published s = seen_by_listeners (take m tr)"
    and "map_of (conns s) c = Some k" "conn_phase k = Serving out n"
  shows "\<exists>i env timeout outcome. i < m \<and> i < length tr \<and> tr ! i = Publish out
    \<and> Probed out (Ok outcome) \<in> set (take i tr) \<and> probe_outbound env out timeout = Ok outcome"
proof -
  have ok: "server_ok lan_only s"
    using accept_steps_ok [of lan_only None s] assms(3) serve_managed_start [OF assms(2)] by simp
  have "phase_ok (published s) (Serving out n)"
    using in_phase_ok [OF ok, of c] assms(5,6) by (simp add: in_phase_def)
  then have "Some out \<in> set (published s)" by (auto simp: in_set_conv_nth intro: exI [of _ "n - 1"])
  then have "Publish out \<in> set (take m tr)"
    using assms(4) published_of_Some by (simp add: seen_by_listeners_def)
  then obtain i where i: "i < m" "i < length tr" "tr ! i = Publish out" by (auto simp: in_set_conv_nth)
  have "at_rest (supervisor_start files) contract_start"
    by (simp add: at_rest_def supervisor_start_def contract_start_def)
  from contract_run_at [OF recover_contract [OF assms(1) this] i(2)]
  obtain c' where c: "contract_run contract_start (take i tr) = Some c'" "out \<in> good c'" using i(3) by (auto simp: allowed_def)
  moreover have "good contract_start = {}" by (simp add: contract_start_def)
  ultimately show ?thesis using contract_run_good [OF c] i by blast
qed

theorem served_through_verified_outlet_witness:
  "\<exists>env timeout outcome. probe_outbound env demo_upstream timeout = Ok outcome
     \<and> (\<exists>k. map_of (conns demo_serving) 7 = Some k \<and> conn_phase k = Serving demo_upstream 2)"
proof -
  let ?tr = "[Invalidate, Probed demo_upstream (Ok \<lparr>outcome_ip = None, outcome_loc = None\<rparr>), Publish demo_upstream, RecordSuccess]"
  have r: "recover_outbound demo_config None [demo_round] (supervisor_start (\<lambda>_. Some (0, []))) = (?tr, Watching)"
    by (rule demo_recovers) simp
  have s: "serve_managed (\<lambda>_ _. Ok ()) (Auto 1080) None = Ok ([True, True], server_start None)"
    by (simp add: serve_managed_def)
  have p: "published demo_serving = seen_by_listeners (take 4 ?tr)"
    by (simp add: demo_serving_def enter_phase_def accept_client_def server_start_def MAX_CONNECTIONS_def seen_by_listeners_def)
  obtain k where k: "map_of (conns demo_serving) 7 = Some k" "conn_phase k = Serving demo_upstream 2"
    by (simp add: demo_serving_def enter_phase_def accept_client_def server_start_def MAX_CONNECTIONS_def)
  from served_through_verified_outlet [OF r s demo_serving_reached p k] k show ?thesis by blast
qed

end
